(* ===== verification/GS_Prelude.thy ===== *)
theory GS_Prelude
  imports Main "HOL-Library.AList" "HOL-Library.Multiset"
begin

text \<open>
  What every component of the model shares: Go's fixed-width integers, Go maps with their
  unspecified iteration order, result types and a few facts about lists and sums.

  \<^item> \<open>int32\<close> and \<open>int64\<close> values are \<open>int\<close>s; each arithmetic operation of the source that can
    overflow is wrapped by \<open>i32\<close> or \<open>i64\<close>, two's complement written out.
  \<^item> A Go map is an association list with distinct keys (\<open>gomap_ok\<close>). Reading is \<open>map_of\<close>,
    assignment is \<open>AList.update\<close>, \<open>delete\<close> is \<open>AList.delete\<close>, \<open>len\<close> is \<open>length\<close>.
  \<^item> A \<open>for ... range m\<close> loop visits the entries in an order the language leaves open. Every
    such loop takes the order of the keys as an argument \<open>ord\<close>, of which \<open>range_order\<close> says
    that it lists each key exactly once; theorems hold for every such order.
\<close>

named_theorems go_wrap \<open>fixed-width arithmetic that stays in range\<close>
named_theorems go_map \<open>Go maps as association lists\<close>

section \<open>Fixed-width integers\<close>

type_synonym int32 = int
type_synonym int64 = int

definition in32 :: "int \<Rightarrow> bool" where
  "in32 x \<longleftrightarrow> - (2 ^ 31) \<le> x \<and> x < 2 ^ 31"

definition in64 :: "int \<Rightarrow> bool" where
  "in64 x \<longleftrightarrow> - (2 ^ 63) \<le> x \<and> x < 2 ^ 63"

definition i32 :: "int \<Rightarrow> int32" where
  "i32 x = (x + 2 ^ 31) mod 2 ^ 32 - 2 ^ 31"

definition i64 :: "int \<Rightarrow> int64" where
  "i64 x = (x + 2 ^ 63) mod 2 ^ 64 - 2 ^ 63"

lemma i32_id [go_wrap]: "in32 x \<Longrightarrow> i32 x = x"
  by (simp add: in32_def i32_def)

lemma i64_id [go_wrap]: "in64 x \<Longrightarrow> i64 x = x"
  by (simp add: in64_def i64_def)

lemma in32_i32 [simp]: "in32 (i32 x)"
proof -
  have "0 \<le> (x + 2 ^ 31) mod 2 ^ 32" and "(x + 2 ^ 31) mod 2 ^ 32 < 2 ^ 32" by simp_all
  then show ?thesis unfolding in32_def i32_def by simp
qed

lemma in64_i64 [simp]: "in64 (i64 x)"
proof -
  have "0 \<le> (x + 2 ^ 63) mod 2 ^ 64" and "(x + 2 ^ 63) mod 2 ^ 64 < 2 ^ 64" by simp_all
  then show ?thesis unfolding in64_def i64_def by simp
qed

lemma in32_in64: "in32 x \<Longrightarrow> in64 x"
  by (simp add: in32_def in64_def)

lemma i32_i32_add [go_wrap]: "i32 (i32 a + b) = i32 (a + b)"
proof -
  have "i32 a + b + 2 ^ 31 = (a + 2 ^ 31) mod 2 ^ 32 + b" by (simp add: i32_def)
  then have "(i32 a + b + 2 ^ 31) mod 2 ^ 32 = (a + b + 2 ^ 31) mod 2 ^ 32"
    by (simp add: mod_simps algebra_simps)
  then show ?thesis by (simp add: i32_def)
qed

lemma i64_i64_add [go_wrap]: "i64 (i64 a + b) = i64 (a + b)"
proof -
  have "i64 a + b + 2 ^ 63 = (a + 2 ^ 63) mod 2 ^ 64 + b" by (simp add: i64_def)
  then have "(i64 a + b + 2 ^ 63) mod 2 ^ 64 = (a + b + 2 ^ 63) mod 2 ^ 64"
    by (simp add: mod_simps algebra_simps)
  then show ?thesis by (simp add: i64_def)
qed

lemma i64_0 [simp]: "i64 0 = 0"
  by (simp add: i64_def)

text \<open>A wrapped sum of an in-range value and a non-negative one never exceeds the true sum.\<close>

lemma i32_le_of_ge: "- (2 ^ 31) \<le> x \<Longrightarrow> i32 x \<le> x"
proof -
  assume "- (2 ^ 31) \<le> x"
  then have "(x + 2 ^ 31) mod 2 ^ 32 \<le> x + 2 ^ 31" by (intro zmod_le_nonneg_dividend) simp
  then show ?thesis by (simp add: i32_def)
qed

text \<open>Integer division of Go rounds towards zero (\<open>quot\<close> of the language specification).\<close>

definition go_div :: "int \<Rightarrow> int \<Rightarrow> int" where
  "go_div a b = sgn a * sgn b * (\<bar>a\<bar> div \<bar>b\<bar>)"

lemma go_div_nonneg: "0 \<le> a \<Longrightarrow> 0 < b \<Longrightarrow> go_div a b = a div b"
  by (cases "a = 0") (simp_all add: go_div_def)

section \<open>Go maps\<close>

type_synonym ('k, 'v) gomap = "('k \<times> 'v) list"

definition gomap_ok :: "('k, 'v) gomap \<Rightarrow> bool" where
  "gomap_ok m \<longleftrightarrow> distinct (map fst m)"

text \<open>Reading a missing key yields the zero value of the element type.\<close>

definition get0 :: "'v \<Rightarrow> ('k, 'v) gomap \<Rightarrow> 'k \<Rightarrow> 'v" where
  "get0 z m k = (case map_of m k of None \<Rightarrow> z | Some v \<Rightarrow> v)"

definition has_key :: "('k, 'v) gomap \<Rightarrow> 'k \<Rightarrow> bool" where
  "has_key m k \<longleftrightarrow> map_of m k \<noteq> None"

definition range_order :: "'k list \<Rightarrow> ('k, 'v) gomap \<Rightarrow> bool" where
  "range_order ord m \<longleftrightarrow> distinct ord \<and> set ord = set (map fst m)"

fun range_entries :: "'k list \<Rightarrow> ('k, 'v) gomap \<Rightarrow> ('k \<times> 'v) list" where
  "range_entries [] m = []"
| "range_entries (k # ks) m =
     (case map_of m k of None \<Rightarrow> range_entries ks m | Some v \<Rightarrow> (k, v) # range_entries ks m)"

lemma gomap_ok_Nil [simp]: "gomap_ok []"
  by (simp add: gomap_ok_def)

lemma gomap_ok_update [go_map, intro]: "gomap_ok m \<Longrightarrow> gomap_ok (AList.update k v m)"
  by (simp add: gomap_ok_def distinct_update)

lemma gomap_ok_delete [go_map, intro]: "gomap_ok m \<Longrightarrow> gomap_ok (AList.delete k m)"
  by (simp add: gomap_ok_def distinct_delete)

lemma map_of_put [go_map]: "map_of (AList.update k v m) k' = (if k' = k then Some v else map_of m k')"
  by (simp add: update_conv')

lemma map_of_del [go_map]: "map_of (AList.delete k m) k' = (if k' = k then None else map_of m k')"
  by (simp add: delete_conv')

lemma get0_put [go_map]: "get0 z (AList.update k v m) k' = (if k' = k then v else get0 z m k')"
  by (simp add: get0_def map_of_put)

lemma has_key_put [go_map]: "has_key (AList.update k v m) k' \<longleftrightarrow> k' = k \<or> has_key m k'"
  by (simp add: has_key_def map_of_put)

lemma has_key_del [go_map]: "has_key (AList.delete k m) k' \<longleftrightarrow> k' \<noteq> k \<and> has_key m k'"
  by (simp add: has_key_def map_of_del)

lemma has_key_set: "has_key m k \<longleftrightarrow> k \<in> set (map fst m)"
  by (simp add: has_key_def map_of_eq_None_iff)

lemma gomap_ok_mem: "gomap_ok m \<Longrightarrow> (k, v) \<in> set m \<longleftrightarrow> map_of m k = Some v"
  by (auto simp: gomap_ok_def dest: map_of_SomeD)

lemma set_update_ok:
  "gomap_ok m \<Longrightarrow> set (AList.update k v m) = insert (k, v) {e \<in> set m. fst e \<noteq> k}"
proof -
  assume ok: "gomap_ok m"
  then have ok': "gomap_ok (AList.update k v m)" by (rule gomap_ok_update)
  have "(a, b) \<in> set (AList.update k v m) \<longleftrightarrow> (a, b) \<in> insert (k, v) {e \<in> set m. fst e \<noteq> k}" for a b
    by (auto simp: gomap_ok_mem [OF ok] gomap_ok_mem [OF ok'] map_of_put)
  then show ?thesis by auto
qed

lemma length_update_ok:
  "length (AList.update k v m) = (if has_key m k then length m else Suc (length m))"
  by (induction m) (auto simp: has_key_def)

lemma length_keys_card: "gomap_ok m \<Longrightarrow> length m = card (set (map fst m))"
  using distinct_card [of "map fst m"] by (simp add: gomap_ok_def)

text \<open>A range loop visits a permutation of the entries.\<close>

lemma set_range_entries: "range_order ord m \<Longrightarrow> gomap_ok m \<Longrightarrow> set (range_entries ord m) = set m"
proof -
  assume r: "range_order ord m" and ok: "gomap_ok m"
  have "set (range_entries ks m) = {e \<in> set m. fst e \<in> set ks}" for ks
  proof (induction ks)
    case (Cons k ks)
    have "{e \<in> set m. fst e = k} = (case map_of m k of None \<Rightarrow> {} | Some v \<Rightarrow> {(k, v)})"
      using gomap_ok_mem [OF ok, of k] by (auto split: option.splits)
    moreover have "{e \<in> set m. fst e \<in> set (k # ks)} =
        {e \<in> set m. fst e = k} \<union> {e \<in> set m. fst e \<in> set ks}" by auto
    ultimately show ?case using Cons.IH by (simp split: option.split)
  qed simp
  with r show ?thesis by (force simp: range_order_def)
qed

lemma fst_range_entries:
  "set ord \<subseteq> set (map fst m) \<Longrightarrow> map fst (range_entries ord m) = ord"
proof (induction ord)
  case (Cons k ks)
  then obtain v where "map_of m k = Some v"
    by (metis list.set_intros(1) map_of_eq_None_iff not_None_eq set_map subsetD)
  with Cons show ?case by simp
qed simp

lemma mset_range_entries:
  assumes "range_order ord m" and "gomap_ok m"
  shows "mset (range_entries ord m) = mset m"
proof -
  have "map fst (range_entries ord m) = ord"
    using assms(1) by (intro fst_range_entries) (simp add: range_order_def)
  then have "distinct (range_entries ord m)"
    using assms(1) by (metis distinct_map range_order_def)
  moreover have "distinct m" using assms(2) by (simp add: gomap_ok_def distinct_map)
  ultimately show ?thesis
    using set_range_entries [OF assms] by (simp add: set_eq_iff_mset_eq_distinct)
qed

lemma gomap_ok_range_entries:
  "range_order ord m \<Longrightarrow> gomap_ok (range_entries ord m)"
  by (simp add: gomap_ok_def range_order_def fst_range_entries)

lemma range_order_keys: "gomap_ok m \<Longrightarrow> range_order (map fst m) m"
  by (simp add: range_order_def gomap_ok_def)

text \<open>The key set, and the sum of a function of the entries as a sum over it.\<close>

definition keys :: "('k, 'v) gomap \<Rightarrow> 'k set" where
  "keys m = {k. map_of m k \<noteq> None}"

lemma keys_fst: "keys m = set (map fst m)"
  by (auto simp: keys_def map_of_eq_None_iff)

lemma finite_keys [simp]: "finite (keys m)"
  by (simp add: keys_fst)

lemma sum_entries:
  assumes "gomap_ok m"
  shows "sum_list (map (\<lambda>e. f (fst e) (snd e)) m) = (\<Sum>k \<in> keys m. f k (the (map_of m k)) :: int)"
proof -
  have "sum_list (map (\<lambda>e. f (fst e) (snd e)) m) = sum_list (map (\<lambda>k. f k (the (map_of m k))) (map fst m))"
    using gomap_ok_mem [OF assms] by (intro arg_cong [where f = sum_list]) auto
  also have "\<dots> = (\<Sum>k \<in> set (map fst m). f k (the (map_of m k)))"
    using assms by (intro sum_list_distinct_conv_sum_set) (simp add: gomap_ok_def)
  finally show ?thesis by (simp only: keys_fst)
qed

lemma sum_list_mset_cong: "mset xs = mset ys \<Longrightarrow> sum_list (map f xs) = (sum_list (map f ys) :: int)"
proof -
  assume "mset xs = mset ys"
  then have "sum_mset (image_mset f (mset xs)) = sum_mset (image_mset f (mset ys))" by simp
  then show ?thesis by (simp only: sum_mset_sum_list flip: mset_map)
qed

section \<open>Sums over the values of a map\<close>

definition vsum :: "('k, int) gomap \<Rightarrow> int" where
  "vsum m = sum_list (map snd m)"

lemma vsum_Nil [simp]: "vsum [] = 0"
  by (simp add: vsum_def)

lemma vsum_Cons [simp]: "vsum ((k, v) # m) = v + vsum m"
  by (simp add: vsum_def)

lemma vsum_perm: "mset m = mset m' \<Longrightarrow> vsum m = vsum m'"
  unfolding vsum_def by (metis mset_map sum_mset_sum_list)

lemma vsum_update:
  "gomap_ok m \<Longrightarrow> vsum (AList.update k v m) = vsum m - get0 0 m k + v"
proof (induction m)
  case (Cons e m)
  obtain k' v' where [simp]: "e = (k', v')" by (cases e)
  from Cons.prems have "gomap_ok m" by (simp add: gomap_ok_def)
  with Cons.IH show ?case by (auto simp: get0_def)
qed (simp add: get0_def)

lemma vsum_delete:
  "gomap_ok m \<Longrightarrow> vsum (AList.delete k m) = vsum m - get0 0 m k"
proof (induction m)
  case (Cons e m)
  obtain k' v' where [simp]: "e = (k', v')" by (cases e)
  from Cons.prems have "k' \<notin> fst ` set m" and ok: "gomap_ok m" by (auto simp: gomap_ok_def)
  then have "AList.delete k' m = m" by (simp add: delete_id)
  with Cons.IH [OF ok] show ?case by (auto simp: get0_def)
qed (simp add: get0_def)

end
