(* ===== verification/Go_Strings.thy ===== *)
theory Go_Strings
  imports GS_Prelude
begin

text \<open>
  The functions of Go's \<open>strings\<close>, \<open>strconv\<close> and \<open>fmt\<close> packages that the program calls, on
  strings as lists of bytes. Case mapping is exact on ASCII bytes and leaves other bytes alone
  (host names and HTTP methods are ASCII). \<open>replace_all\<close> is used with a non-empty old string.
\<close>

section \<open>Prefixes and suffixes\<close>

definition has_prefix :: "string \<Rightarrow> string \<Rightarrow> bool" where
  "has_prefix s p \<longleftrightarrow> take (length p) s = p"

definition has_suffix :: "string \<Rightarrow> string \<Rightarrow> bool" where
  "has_suffix s p \<longleftrightarrow> length p \<le> length s \<and> drop (length s - length p) s = p"

definition trim_prefix :: "string \<Rightarrow> string \<Rightarrow> string" where
  "trim_prefix s p = (if has_prefix s p then drop (length p) s else s)"

text \<open>\<open>strings.CutPrefix\<close>: \<open>None\<close> when the prefix is absent.\<close>

definition cut_prefix :: "string \<Rightarrow> string \<Rightarrow> string option" where
  "cut_prefix s p = (if has_prefix s p then Some (drop (length p) s) else None)"

fun str_contains :: "string \<Rightarrow> string \<Rightarrow> bool" where
  "str_contains [] p = (p = [])"
| "str_contains (c # cs) p = (has_prefix (c # cs) p \<or> str_contains cs p)"

lemma has_prefix_append [simp]: "has_prefix (p @ s) p"
  by (simp add: has_prefix_def)

lemma has_prefix_iff: "has_prefix s p \<longleftrightarrow> (\<exists>t. s = p @ t)"
  by (metis append_take_drop_id has_prefix_append has_prefix_def)

lemma has_suffix_append [simp]: "has_suffix (s @ p) p"
  by (simp add: has_suffix_def)

lemma has_suffix_iff: "has_suffix s p \<longleftrightarrow> (\<exists>t. s = t @ p)"
  by (metis append_take_drop_id has_suffix_append has_suffix_def)

lemma str_contains_iff: "str_contains s p \<longleftrightarrow> (\<exists>a b. s = a @ p @ b)"
proof (induction s)
  case (Cons c cs)
  have "(\<exists>a b. c # cs = a @ p @ b) \<longleftrightarrow> (\<exists>b. c # cs = p @ b) \<or> (\<exists>a b. cs = a @ p @ b)"
    by (auto simp: Cons_eq_append_conv)
  with Cons.IH show ?case by (simp add: has_prefix_iff)
qed simp

section \<open>Replacement, splitting, case, white space\<close>

function replace_all :: "string \<Rightarrow> string \<Rightarrow> string \<Rightarrow> string" where
  "replace_all s old new =
     (case s of [] \<Rightarrow> []
      | c # cs \<Rightarrow>
          if old \<noteq> [] \<and> has_prefix s old then new @ replace_all (drop (length old) s) old new
          else c # replace_all cs old new)"
  by pat_completeness auto
termination
  by (relation "measure (\<lambda>(s, old, new). length s)") (auto simp: neq_Nil_conv)

declare replace_all.simps [simp del]

text \<open>\<open>strings.Split(s, sep)\<close> for a separator of one byte.\<close>

fun split_on :: "char \<Rightarrow> string \<Rightarrow> string list" where
  "split_on sep [] = [[]]"
| "split_on sep (c # cs) =
     (if c = sep then [] # split_on sep cs
      else (case split_on sep cs of [] \<Rightarrow> [[c]] | w # ws \<Rightarrow> (c # w) # ws))"

text \<open>\<open>strings.SplitN(s, sep, 2)\<close>: the parts before and after the first separator.\<close>

definition split2 :: "char \<Rightarrow> string \<Rightarrow> string list" where
  "split2 sep s =
     (case dropWhile (\<lambda>c. c \<noteq> sep) s of [] \<Rightarrow> [s]
      | _ # rest \<Rightarrow> [takeWhile (\<lambda>c. c \<noteq> sep) s, rest])"

definition byte :: "char \<Rightarrow> nat" where
  "byte c = of_char c"

definition upper_char :: "char \<Rightarrow> char" where
  "upper_char c = (if 97 \<le> byte c \<and> byte c \<le> 122 then char_of (byte c - 32) else c)"

definition lower_char :: "char \<Rightarrow> char" where
  "lower_char c = (if 65 \<le> byte c \<and> byte c \<le> 90 then char_of (byte c + 32) else c)"

definition to_upper :: "string \<Rightarrow> string" where
  "to_upper s = map upper_char s"

definition to_lower :: "string \<Rightarrow> string" where
  "to_lower s = map lower_char s"

definition is_space :: "char \<Rightarrow> bool" where
  "is_space c \<longleftrightarrow> byte c \<in> {9, 10, 11, 12, 13, 32}"

definition trim_space :: "string \<Rightarrow> string" where
  "trim_space s = rev (dropWhile is_space (rev (dropWhile is_space s)))"

lemma split_on_no: "c \<notin> set s \<Longrightarrow> split_on c s = [s]"
  by (induction s) auto

lemma split_on_append: "c \<notin> set s \<Longrightarrow> split_on c (s @ c # t) = s # split_on c t"
  by (induction s) auto

lemma is_space_lower [simp]: "is_space (lower_char c) = is_space c"
  by (auto simp: is_space_def lower_char_def byte_def)

lemma trim_to_lower: "trim_space (to_lower s) = to_lower (trim_space s)"
  by (simp add: trim_space_def to_lower_def dropWhile_map comp_def rev_map)

lemma trim_space_ends: "trim_space s \<noteq> [] \<Longrightarrow> \<not> is_space (hd (trim_space s)) \<and> \<not> is_space (last (trim_space s))"
proof
  let ?t = "dropWhile is_space s"
  let ?r = "dropWhile is_space (rev ?t)"
  assume "trim_space s \<noteq> []"
  then have r: "?r \<noteq> []" by (simp add: trim_space_def)
  then show "\<not> is_space (last (trim_space s))" using hd_dropWhile [of is_space "rev ?t"] by (simp add: trim_space_def last_rev)
  have "rev ?t = takeWhile is_space (rev ?t) @ ?r" by simp
  then have "?t = rev ?r @ rev (takeWhile is_space (rev ?t))" by (metis rev_append rev_rev_ident)
  then have "hd (rev ?r) = hd ?t" "?t \<noteq> []" using r by (metis Nil_is_rev_conv hd_append2, metis Nil_is_append_conv Nil_is_rev_conv)
  then show "\<not> is_space (hd (trim_space s))" using hd_dropWhile [of is_space s] by (simp add: trim_space_def)
qed

lemma trim_trim [simp]: "trim_space (trim_space s) = trim_space s"
proof (cases "trim_space s = []")
  case False
  let ?t = "trim_space s"
  have "dropWhile is_space ?t = ?t" "dropWhile is_space (rev ?t) = rev ?t"
    using trim_space_ends [OF False] False by (simp_all add: dropWhile_eq_self_iff hd_rev)
  then show ?thesis by (simp add: trim_space_def [of ?t])
next
  case True
  then show ?thesis by (simp add: trim_space_def [of "[]"])
qed

lemma length_trim_space: "length (trim_space s) = length s \<Longrightarrow> trim_space s = s"
proof -
  let ?t = "dropWhile is_space s"
  assume *: "length (trim_space s) = length s"
  have "length ?t \<le> length s" "length (dropWhile is_space (rev ?t)) \<le> length (rev ?t)" by (rule length_dropWhile_le)+
  with * have l: "length ?t = length s" "length (dropWhile is_space (rev ?t)) = length (rev ?t)" by (simp_all add: trim_space_def)
  have "dropWhile P xs = xs" if "length (dropWhile P xs) = length xs" for P and xs :: string
    using that by (metis append_Nil length_0_conv length_append add_cancel_left_left takeWhile_dropWhile_id)
  then have "?t = s" "dropWhile is_space (rev ?t) = rev ?t" using l by auto
  then show ?thesis by (simp add: trim_space_def)
qed

section \<open>Decimal numbers\<close>

definition digit_char :: "nat \<Rightarrow> char" where
  "digit_char n = char_of (48 + n)"

definition is_digit :: "char \<Rightarrow> bool" where
  "is_digit c \<longleftrightarrow> 48 \<le> byte c \<and> byte c \<le> 57"

definition digit_val :: "char \<Rightarrow> nat" where
  "digit_val c = byte c - 48"

fun nat_string :: "nat \<Rightarrow> string" where
  "nat_string n = (if n < 10 then [digit_char n] else nat_string (n div 10) @ [digit_char (n mod 10)])"

declare nat_string.simps [simp del]

text \<open>The verb \<open>%d\<close>.\<close>

definition int_string :: "int \<Rightarrow> string" where
  "int_string i = (if i < 0 then ''-'' @ nat_string (nat (- i)) else nat_string (nat i))"

lemma byte_digit_char [simp]: "n < 10 \<Longrightarrow> byte (digit_char n) = 48 + n"
  by (simp add: byte_def digit_char_def)

lemma digit_char_simps [simp]:
  "n < 10 \<Longrightarrow> is_digit (digit_char n)"
  "n < 10 \<Longrightarrow> digit_val (digit_char n) = n"
  by (simp_all add: is_digit_def digit_val_def)

lemma nat_string_digits: "\<forall>c \<in> set (nat_string n). is_digit c"
proof (induction n rule: nat_string.induct)
  case (1 n)
  then show ?case by (subst nat_string.simps) auto
qed

lemma nat_string_nonempty [simp]: "nat_string n \<noteq> []"
  by (subst nat_string.simps) simp

text \<open>The value of a string of digits, read from the left.\<close>

definition digits_val :: "string \<Rightarrow> nat" where
  "digits_val s = foldl (\<lambda>x c. x * 10 + digit_val c) 0 s"

lemma digits_val_append: "digits_val (s @ [c]) = digits_val s * 10 + digit_val c"
  by (simp add: digits_val_def)

lemma digits_val_nat_string [simp]: "digits_val (nat_string n) = n"
proof (induction n rule: nat_string.induct)
  case (1 n)
  show ?case
  proof (cases "n < 10")
    case True
    then show ?thesis by (subst nat_string.simps) (simp add: digits_val_def)
  next
    case False
    with "1.IH" have "digits_val (nat_string (n div 10)) = n div 10" by simp
    with False show ?thesis by (subst nat_string.simps) (simp add: digits_val_append)
  qed
qed

lemma nat_string_inject: "nat_string m = nat_string n \<longleftrightarrow> m = n"
  by (metis digits_val_nat_string)

end
