(* ===== verification/Go_Sha256.thy ===== *)
theory Go_Sha256
  imports GS_Prelude "HOL-Library.Word"
begin

unbundle bit_operations_syntax

text \<open>
  \<open>crypto/sha256.Sum256\<close> (FIPS 180-4) on strings of bytes, executable. The program uses it for
  the positions on the hash ring and for the stored form of session tokens.
\<close>

section \<open>Constants\<close>

definition sha_k :: "32 word list" where
  "sha_k =
    [1116352408, 1899447441, 3049323471, 3921009573, 961987163, 1508970993, 2453635748,
     2870763221, 3624381080, 310598401, 607225278, 1426881987, 1925078388, 2162078206,
     2614888103, 3248222580, 3835390401, 4022224774, 264347078, 604807628, 770255983,
     1249150122, 1555081692, 1996064986, 2554220882, 2821834349, 2952996808, 3210313671,
     3336571891, 3584528711, 113926993, 338241895, 666307205, 773529912, 1294757372,
     1396182291, 1695183700, 1986661051, 2177026350, 2456956037, 2730485921, 2820302411,
     3259730800, 3345764771, 3516065817, 3600352804, 4094571909, 275423344, 430227734,
     506948616, 659060556, 883997877, 958139571, 1322822218, 1537002063, 1747873779,
     1955562222, 2024104815, 2227730452, 2361852424, 2428436474, 2756734187, 3204031479,
     3329325298]"

definition sha_iv :: "32 word list" where
  "sha_iv =
    [1779033703, 3144134277, 1013904242, 2773480762, 1359893119, 2600822924, 528734635,
     1541459225]"

section \<open>Padding and message blocks\<close>

definition bytes_be :: "nat \<Rightarrow> nat \<Rightarrow> nat list" where
  "bytes_be k n = map (\<lambda>i. n div 256 ^ (k - 1 - i) mod 256) [0..<k]"

definition sha_pad :: "nat list \<Rightarrow> nat list" where
  "sha_pad msg =
     msg @ [128] @ replicate ((119 - length msg mod 64) mod 64) 0 @ bytes_be 8 (8 * length msg)"

fun words_be :: "nat list \<Rightarrow> 32 word list" where
  "words_be (a # b # c # d # rest) =
     word_of_nat (((a * 256 + b) * 256 + c) * 256 + d) # words_be rest"
| "words_be _ = []"

function chunks16 :: "32 word list \<Rightarrow> 32 word list list" where
  "chunks16 ws = (if length ws < 16 then [] else take 16 ws # chunks16 (drop 16 ws))"
  by pat_completeness auto
termination by (relation "measure length") auto

section \<open>Compression\<close>

definition sha_s0 :: "32 word \<Rightarrow> 32 word" where
  "sha_s0 x = word_rotr 7 x XOR word_rotr 18 x XOR drop_bit 3 x"

definition sha_s1 :: "32 word \<Rightarrow> 32 word" where
  "sha_s1 x = word_rotr 17 x XOR word_rotr 19 x XOR drop_bit 10 x"

definition sha_S0 :: "32 word \<Rightarrow> 32 word" where
  "sha_S0 x = word_rotr 2 x XOR word_rotr 13 x XOR word_rotr 22 x"

definition sha_S1 :: "32 word \<Rightarrow> 32 word" where
  "sha_S1 x = word_rotr 6 x XOR word_rotr 11 x XOR word_rotr 25 x"

text \<open>The message schedule is kept newest word first.\<close>

fun sha_extend :: "nat \<Rightarrow> 32 word list \<Rightarrow> 32 word list" where
  "sha_extend 0 ws = ws"
| "sha_extend (Suc n) ws =
     sha_extend n ((sha_s1 (ws ! 1) + ws ! 6 + sha_s0 (ws ! 14) + ws ! 15) # ws)"

fun sha_round :: "32 word list \<Rightarrow> 32 word \<times> 32 word \<Rightarrow> 32 word list" where
  "sha_round [a, b, c, d, e, f, g, h] (k, w) =
     (let t1 = h + sha_S1 e + ((e AND f) XOR (NOT e AND g)) + k + w;
          t2 = sha_S0 a + ((a AND b) XOR (a AND c) XOR (b AND c))
      in [t1 + t2, a, b, c, d + t1, e, f, g])"
| "sha_round st _ = st"

definition sha_block :: "32 word list \<Rightarrow> 32 word list \<Rightarrow> 32 word list" where
  "sha_block st block =
     map2 (+) st (foldl sha_round st (zip sha_k (rev (sha_extend 48 (rev block)))))"

definition sha256_words :: "string \<Rightarrow> 32 word list" where
  "sha256_words s = foldl sha_block sha_iv (chunks16 (words_be (sha_pad (map of_char s))))"

text \<open>The digest as 32 bytes.\<close>

definition sha256 :: "string \<Rightarrow> nat list" where
  "sha256 s = concat (map (\<lambda>w. bytes_be 4 (unat w)) (sha256_words s))"

lemma length_sha_block: "length st = 8 \<Longrightarrow> length (sha_block st b) = 8"
proof -
  assume "length st = 8"
  moreover have "length (sha_round st' kw) = length st'" for st' kw
    by (cases "(st', kw)" rule: sha_round.cases) (simp_all add: Let_def)
  then have "length (foldl sha_round st' kws) = length st'" for st' kws
    by (induction kws arbitrary: st') auto
  ultimately show ?thesis by (simp add: sha_block_def)
qed

lemma length_sha256: "length (sha256 s) = 32"
proof -
  have "length st = 8 \<Longrightarrow> length (foldl sha_block st bs) = 8" for st bs
    by (induction bs arbitrary: st) (simp_all add: length_sha_block)
  then have "length (sha256_words s) = 8" by (simp add: sha256_words_def sha_iv_def)
  then show ?thesis
    by (simp add: sha256_def length_concat bytes_be_def o_def sum_list_triv)
qed

end
