(* ===== verification/Hash_Ring.thy ===== *)
theory Hash_Ring
  imports Go_Strings Go_Sha256
begin

text \<open>
  The consistent hash ring of \<open>internal/orchestrator/node_manager.go\<close>. The state is the
  source's: a sorted slice of positions and a map from position to node. \<open>ring_lookup\<close> is the
  abstract specification, the owner of the least position at or after the key's hash, else of
  the least position; \<open>Get\<close> is proved to implement it, and the defining property of consistent
  hashing (a key moves only to an added node, or away from a removed one) is proved of the
  specification and carried over.
\<close>

section \<open>Positions\<close>

text \<open>\<open>uint32(h[0])<<24 | uint32(h[1])<<16 | uint32(h[2])<<8 | uint32(h[3])\<close>\<close>

definition hashKey :: "string \<Rightarrow> 32 word" where
  "hashKey key =
     (let h = sha256 key
      in push_bit 24 (word_of_nat (h ! 0)) OR push_bit 16 (word_of_nat (h ! 1))
         OR push_bit 8 (word_of_nat (h ! 2)) OR word_of_nat (h ! 3))"

text \<open>\<open>sort.Search\<close>: the binary search of the standard library.\<close>

function search_loop :: "(nat \<Rightarrow> bool) \<Rightarrow> nat \<Rightarrow> nat \<Rightarrow> nat" where
  "search_loop f i j =
     (if i < j then let h = (i + j) div 2 in if \<not> f h then search_loop f (h + 1) j else search_loop f i h
      else i)"
  by pat_completeness auto
termination by (relation "measure (\<lambda>(f, i, j). j - i)") auto

declare search_loop.simps [simp del]

definition sort_search :: "nat \<Rightarrow> (nat \<Rightarrow> bool) \<Rightarrow> nat" where
  "sort_search n f = search_loop f 0 n"

section \<open>The ring and its operations\<close>

record hash_ring =
  ring_keys :: "32 word list"
  ring_hashMap :: "(32 word, string) gomap"

definition NewConsistentHashRing :: hash_ring where
  "NewConsistentHashRing = \<lparr>ring_keys = [], ring_hashMap = []\<rparr>"

definition vnode_hash :: "string \<Rightarrow> nat \<Rightarrow> 32 word" where
  "vnode_hash nodeID i = hashKey (nodeID @ '':'' @ nat_string i)"

text \<open>The loop over the virtual nodes, then the sort of the keys.\<close>

fun add_vnodes :: "string \<Rightarrow> nat list \<Rightarrow> hash_ring \<Rightarrow> hash_ring" where
  "add_vnodes nodeID [] ring = ring"
| "add_vnodes nodeID (i # is) ring =
     add_vnodes nodeID is
       (ring\<lparr>ring_hashMap := AList.update (vnode_hash nodeID i) nodeID (ring_hashMap ring),
             ring_keys := ring_keys ring @ [vnode_hash nodeID i]\<rparr>)"

definition ring_Add :: "string \<Rightarrow> hash_ring \<Rightarrow> hash_ring" where
  "ring_Add nodeID ring =
     (let ring' = add_vnodes nodeID [0..<100] ring in ring'\<lparr>ring_keys := sort (ring_keys ring')\<rparr>)"

text \<open>The loop over the hash map, in the order \<open>ord\<close>, deletes while it iterates.\<close>

fun remove_vnodes ::
  "string \<Rightarrow> (32 word \<times> string) list \<Rightarrow> (32 word, string) gomap \<times> 32 word list \<Rightarrow>
   (32 word, string) gomap \<times> 32 word list" where
  "remove_vnodes nodeID [] (m, newKeys) = (m, newKeys)"
| "remove_vnodes nodeID ((hash, owner) # es) (m, newKeys) =
     (if owner = nodeID then remove_vnodes nodeID es (AList.delete hash m, newKeys)
      else remove_vnodes nodeID es (m, newKeys @ [hash]))"

definition ring_Remove :: "32 word list \<Rightarrow> string \<Rightarrow> hash_ring \<Rightarrow> hash_ring" where
  "ring_Remove ord nodeID ring =
     (let mk = remove_vnodes nodeID (range_entries ord (ring_hashMap ring)) (ring_hashMap ring, [])
      in \<lparr>ring_keys = sort (snd mk), ring_hashMap = fst mk\<rparr>)"

definition ring_Get :: "string \<Rightarrow> hash_ring \<Rightarrow> string" where
  "ring_Get key ring =
     (let keys = ring_keys ring; n = length keys
      in if n = 0 then ''''
         else let hash = hashKey key;
                  idx = sort_search n (\<lambda>i. hash \<le> keys ! i);
                  idx = (if idx = n then 0 else idx)
              in get0 '''' (ring_hashMap ring) (keys ! idx))"

section \<open>Binary search\<close>

lemma search_loop_spec:
  assumes "i \<le> j" and "\<forall>a b. a \<le> b \<longrightarrow> b < n \<longrightarrow> f a \<longrightarrow> f b" and "j \<le> n"
    and "\<forall>a < i. \<not> f a" and "\<forall>a. j \<le> a \<longrightarrow> a < n \<longrightarrow> f a"
  shows "search_loop f i j \<le> n \<and> (\<forall>a < search_loop f i j. \<not> f a)
     \<and> (\<forall>a. search_loop f i j \<le> a \<longrightarrow> a < n \<longrightarrow> f a)"
  using assms
proof (induction f i j rule: search_loop.induct)
  case (1 f i j)
  show ?case
  proof (cases "i < j")
    case True
    let ?h = "(i + j) div 2"
    have h: "i \<le> ?h" "?h < j" using True by auto
    show ?thesis
    proof (cases "f ?h")
      case fh: True
      have eq: "search_loop f i j = search_loop f i ?h"
        by (subst search_loop.simps) (simp only: Let_def True fh if_True if_False not_True_eq_False)
      have ge: "\<forall>a. ?h \<le> a \<longrightarrow> a < n \<longrightarrow> f a" using fh "1.prems"(2) by blast
      have "\<not> \<not> f ?h" and "?h \<le> n" using fh h "1.prems"(3) by auto
      from "1.IH"(2) [OF True refl this(1) h(1) "1.prems"(2) this(2) "1.prems"(4) ge]
      show ?thesis unfolding eq .
    next
      case fh: False
      have eq: "search_loop f i j = search_loop f (?h + 1) j"
        by (subst search_loop.simps) (simp only: Let_def True fh if_True not_False_eq_True)
      have lt: "\<forall>a < ?h + 1. \<not> f a"
      proof (intro allI impI notI)
        fix a assume "a < ?h + 1" and "f a"
        then have "a \<le> ?h" by simp
        with \<open>f a\<close> h "1.prems"(2,3) have "f ?h" by (meson less_le_trans)
        with fh show False by simp
      qed
      have "?h + 1 \<le> j" using h by simp
      from "1.IH"(1) [OF True refl fh this "1.prems"(2,3) lt "1.prems"(5)]
      show ?thesis unfolding eq .
    qed
  next
    case False
    then have "search_loop f i j = i" by (subst search_loop.simps) simp
    with False "1.prems" show ?thesis by simp
  qed
qed

lemma sort_search_sorted:
  fixes h :: "32 word"
  assumes "sorted ks"
  defines "r \<equiv> sort_search (length ks) (\<lambda>i. h \<le> ks ! i)"
  shows "r \<le> length ks" and "a < r \<Longrightarrow> ks ! a < h" and "r \<le> a \<Longrightarrow> a < length ks \<Longrightarrow> h \<le> ks ! a"
proof -
  have "\<forall>a b. a \<le> b \<longrightarrow> b < length ks \<longrightarrow> h \<le> ks ! a \<longrightarrow> h \<le> ks ! b"
    using assms(1) by (meson order_trans sorted_nth_mono)
  then have "r \<le> length ks \<and> (\<forall>a < r. \<not> h \<le> ks ! a) \<and> (\<forall>a. r \<le> a \<longrightarrow> a < length ks \<longrightarrow> h \<le> ks ! a)"
    unfolding r_def sort_search_def by (intro search_loop_spec) auto
  then show "r \<le> length ks" and "a < r \<Longrightarrow> ks ! a < h" and "r \<le> a \<Longrightarrow> a < length ks \<Longrightarrow> h \<le> ks ! a"
    by auto
qed

section \<open>The abstract specification\<close>

text \<open>The position responsible for a hash among a finite non-empty set of positions.\<close>

definition succ_pos :: "32 word set \<Rightarrow> 32 word \<Rightarrow> 32 word" where
  "succ_pos P h = (if {p \<in> P. h \<le> p} = {} then Min P else Min {p \<in> P. h \<le> p})"

definition ring_lookup :: "(32 word \<Rightarrow> string option) \<Rightarrow> 32 word \<Rightarrow> string option" where
  "ring_lookup m h = (if dom m = {} then None else m (succ_pos (dom m) h))"

lemma succ_pos_ge: "{p \<in> P. h \<le> p} \<noteq> {} \<Longrightarrow> succ_pos P h = Min {p \<in> P. h \<le> p}"
  unfolding succ_pos_def by (rule if_not_P)

lemma succ_pos_mem: "finite P \<Longrightarrow> P \<noteq> {} \<Longrightarrow> succ_pos P h \<in> P"
proof -
  assume "finite P" and "P \<noteq> {}"
  then have "{p \<in> P. h \<le> p} \<noteq> {} \<Longrightarrow> Min {p \<in> P. h \<le> p} \<in> {p \<in> P. h \<le> p}"
    by (intro Min_in) auto
  with \<open>finite P\<close> \<open>P \<noteq> {}\<close> show ?thesis by (auto simp: succ_pos_def)
qed

text \<open>Dropping positions other than the responsible one does not change responsibility.\<close>

lemma succ_pos_subset:
  assumes "finite P" and "Q \<subseteq> P" and "succ_pos P h \<in> Q"
  shows "succ_pos Q h = succ_pos P h"
proof -
  have fin: "finite Q" using assms(1,2) by (rule finite_subset [rotated])
  show ?thesis
  proof (cases "{p \<in> P. h \<le> p} = {}")
    case True
    then have "succ_pos P h = Min P" and "{p \<in> Q. h \<le> p} = {}"
      using assms(2) by (auto simp: succ_pos_def)
    moreover have "Min Q = Min P"
      using assms fin calculation(1) by (intro Min_eqI) auto
    ultimately show ?thesis by (simp add: succ_pos_def)
  next
    case False
    let ?s = "Min {p \<in> P. h \<le> p}"
    have s: "succ_pos P h = ?s" using False by (rule succ_pos_ge)
    have "?s \<in> {p \<in> P. h \<le> p}" using assms(1) False by (intro Min_in) auto
    with assms(3) s have q: "?s \<in> {p \<in> Q. h \<le> p}" by auto
    moreover have "Min {p \<in> Q. h \<le> p} = ?s"
      using fin q assms(1,2) by (intro Min_eqI) auto
    moreover have "succ_pos Q h = Min {p \<in> Q. h \<le> p}" using q by (intro succ_pos_ge) blast
    ultimately show ?thesis using s by simp
  qed
qed

lemma ring_lookup_restrict:
  assumes "finite (dom m)" and "ring_lookup m h = Some n" and "n \<in> N"
  shows "ring_lookup (\<lambda>p. case m p of None \<Rightarrow> None | Some n \<Rightarrow> if n \<in> N then Some n else None) h = Some n"
    (is "ring_lookup ?m' h = _")
proof -
  from assms(2) have ne: "dom m \<noteq> {}" and own: "m (succ_pos (dom m) h) = Some n"
    by (auto simp: ring_lookup_def split: if_splits)
  have sub: "dom ?m' \<subseteq> dom m" by (auto split: option.splits)
  have mem: "succ_pos (dom m) h \<in> dom ?m'" using own assms(3) by (auto split: option.splits)
  have "succ_pos (dom ?m') h = succ_pos (dom m) h"
    using assms(1) sub mem by (rule succ_pos_subset)
  moreover have "dom ?m' \<noteq> {}" using mem by blast
  ultimately show ?thesis using own assms(3) by (simp add: ring_lookup_def)
qed

section \<open>Well-formed rings\<close>

definition ring_ok :: "hash_ring \<Rightarrow> bool" where
  "ring_ok ring \<longleftrightarrow> gomap_ok (ring_hashMap ring) \<and> sorted (ring_keys ring)
     \<and> set (ring_keys ring) = set (map fst (ring_hashMap ring))"

abbreviation ring_map :: "hash_ring \<Rightarrow> 32 word \<Rightarrow> string option" where
  "ring_map ring \<equiv> map_of (ring_hashMap ring)"

lemma ring_ok_New: "ring_ok NewConsistentHashRing"
  by (simp add: ring_ok_def NewConsistentHashRing_def)

lemma add_vnodes_ok:
  assumes "gomap_ok (ring_hashMap ring)" and "set (ring_keys ring) = set (map fst (ring_hashMap ring))"
  shows "gomap_ok (ring_hashMap (add_vnodes n is ring))
    \<and> set (ring_keys (add_vnodes n is ring)) = set (map fst (ring_hashMap (add_vnodes n is ring)))"
  using assms
proof (induction n "is" ring rule: add_vnodes.induct)
  case (2 n i "is" ring)
  then show ?case by (simp add: gomap_ok_update dom_update image_Un insert_commute)
qed simp

lemma ring_ok_Add: "ring_ok ring \<Longrightarrow> ring_ok (ring_Add n ring)"
  using add_vnodes_ok [of ring n "[0..<100]"] by (simp add: ring_ok_def ring_Add_def Let_def)

lemma ring_map_add_vnodes:
  "ring_map (add_vnodes n is ring) p = (if p \<in> vnode_hash n ` set is then Some n else ring_map ring p)"
  by (induction n "is" ring rule: add_vnodes.induct) (auto simp: map_of_put)

lemma ring_map_Add:
  "ring_map (ring_Add n ring) p = (if p \<in> vnode_hash n ` {0..<100} then Some n else ring_map ring p)"
  by (simp add: ring_Add_def Let_def ring_map_add_vnodes)

lemma remove_vnodes_spec:
  "gomap_ok m \<Longrightarrow> distinct (map fst es) \<Longrightarrow>
   gomap_ok (fst (remove_vnodes n es (m, ks)))
   \<and> (\<forall>p. map_of (fst (remove_vnodes n es (m, ks))) p =
        (if (p, n) \<in> set es then None else map_of m p))
   \<and> snd (remove_vnodes n es (m, ks)) = ks @ map fst (filter (\<lambda>e. snd e \<noteq> n) es)"
proof (induction n es "(m, ks)" arbitrary: m ks rule: remove_vnodes.induct)
  case (2 n hash owner es m ks)
  then show ?case by (auto simp: gomap_ok_delete map_of_del)
qed simp

lemma ring_Remove_spec:
  assumes ok: "ring_ok ring" and ord: "range_order ord (ring_hashMap ring)"
  shows "ring_ok (ring_Remove ord n ring)"
    and "ring_map (ring_Remove ord n ring) p =
      (case ring_map ring p of None \<Rightarrow> None | Some n' \<Rightarrow> if n' = n then None else Some n')"
proof -
  let ?m = "ring_hashMap ring"
  let ?es = "range_entries ord ?m"
  have gm: "gomap_ok ?m" using ok by (simp add: ring_ok_def)
  have es: "set ?es = set ?m" using ord gm by (rule set_range_entries)
  have d: "distinct (map fst ?es)" using ord gm gomap_ok_range_entries by (auto simp: gomap_ok_def)
  note r = remove_vnodes_spec [OF gm d, of n "[]"]
  have mem: "(p, n) \<in> set ?es \<longleftrightarrow> map_of ?m p = Some n" for p
    using gomap_ok_mem [OF gm] es by auto
  have m': "map_of (ring_hashMap (ring_Remove ord n ring)) p =
      (case ring_map ring p of None \<Rightarrow> None | Some n' \<Rightarrow> if n' = n then None else Some n')" for p
    using r mem by (auto simp: ring_Remove_def Let_def split: option.splits)
  then show "ring_map (ring_Remove ord n ring) p =
      (case ring_map ring p of None \<Rightarrow> None | Some n' \<Rightarrow> if n' = n then None else Some n')" .
  have "set (ring_keys (ring_Remove ord n ring)) = {p. \<exists>n'. (p, n') \<in> set ?es \<and> n' \<noteq> n}"
    using r by (force simp: ring_Remove_def Let_def)
  also have "\<dots> = {p. \<exists>n'. map_of ?m p = Some n' \<and> n' \<noteq> n}"
    using gomap_ok_mem [OF gm] es by simp
  also have "\<dots> = set (map fst (ring_hashMap (ring_Remove ord n ring)))"
    using m' by (auto simp: dom_map_of_conv_image_fst [symmetric] dom_def split: option.splits if_splits)
  finally show "ring_ok (ring_Remove ord n ring)"
    using r by (simp add: ring_ok_def ring_Remove_def Let_def)
qed

lemma finite_ring_dom: "finite (dom (ring_map ring))"
  by (rule finite_dom_map_of)

section \<open>\<open>Get\<close> implements the specification\<close>

lemma sorted_succ_pos:
  fixes h :: "32 word"
  assumes "sorted ks" and "ks \<noteq> []"
  defines "r \<equiv> sort_search (length ks) (\<lambda>i. h \<le> ks ! i)"
  shows "ks ! (if r = length ks then 0 else r) = succ_pos (set ks) h"
proof -
  note s = sort_search_sorted [OF assms(1), where h = h, folded r_def]
  have min0: "Min (set ks) = ks ! 0"
    using assms(1,2) by (intro Min_eqI) (auto simp: in_set_conv_nth sorted_nth_mono)
  show ?thesis
  proof (cases "r = length ks")
    case True
    then have "{p \<in> set ks. h \<le> p} = {}" using s(2) by (force simp: in_set_conv_nth)
    with True min0 show ?thesis by (simp add: succ_pos_def)
  next
    case False
    with s(1) have r: "r < length ks" by simp
    have "ks ! r \<in> {p \<in> set ks. h \<le> p}" using r s(3) [of r] by simp
    moreover have "Min {p \<in> set ks. h \<le> p} = ks ! r"
    proof (rule Min_eqI)
      fix y assume "y \<in> {p \<in> set ks. h \<le> p}"
      then obtain a where a: "a < length ks" "y = ks ! a" "h \<le> ks ! a" by (auto simp: in_set_conv_nth)
      then have "r \<le> a" using s(2) [of a] by (metis leD not_le)
      then show "ks ! r \<le> y" using a assms(1) by (simp add: sorted_nth_mono)
    qed (use calculation in auto)
    moreover have "succ_pos (set ks) h = Min {p \<in> set ks. h \<le> p}"
      using calculation(1) by (intro succ_pos_ge) blast
    ultimately show ?thesis using False by simp
  qed
qed

lemma ring_Get_lookup:
  assumes "ring_ok ring"
  shows "ring_Get key ring = (case ring_lookup (ring_map ring) (hashKey key) of None \<Rightarrow> '''' | Some n \<Rightarrow> n)"
proof (cases "ring_keys ring = []")
  case True
  with assms have "ring_hashMap ring = []" by (simp add: ring_ok_def)
  with True show ?thesis by (simp add: ring_Get_def ring_lookup_def)
next
  case False
  have dom: "dom (ring_map ring) = set (ring_keys ring)"
    using assms by (simp add: ring_ok_def dom_map_of_conv_image_fst)
  then have ne: "dom (ring_map ring) \<noteq> {}" using False by simp
  have "ring_Get key ring = get0 '''' (ring_hashMap ring) (succ_pos (set (ring_keys ring)) (hashKey key))"
    using assms False by (simp add: ring_Get_def Let_def sorted_succ_pos ring_ok_def)
  then show ?thesis using ne by (simp add: ring_lookup_def dom get0_def)
qed

lemma ring_lookup_Some:
  assumes "ring_hashMap ring \<noteq> []"
  obtains n where "ring_lookup (ring_map ring) h = Some n" and "n \<in> ran (ring_map ring)"
proof -
  have ne: "dom (ring_map ring) \<noteq> {}" using assms by (simp add: dom_map_of_conv_image_fst)
  then have "succ_pos (dom (ring_map ring)) h \<in> dom (ring_map ring)"
    by (intro succ_pos_mem finite_ring_dom)
  with ne that show thesis by (auto simp: ring_lookup_def ran_def)
qed

lemma ring_Get_mem:
  assumes "ring_ok ring" and "ring_hashMap ring \<noteq> []"
  shows "ring_Get key ring \<in> ran (ring_map ring)"
  using ring_lookup_Some [OF assms(2), of "hashKey key"] ring_Get_lookup [OF assms(1), of key]
  by (metis option.simps(5))

lemma ring_Add_nonempty: "ring_hashMap (ring_Add n ring) \<noteq> []"
proof
  assume "ring_hashMap (ring_Add n ring) = []"
  then have "ring_map (ring_Add n ring) (vnode_hash n 0) = None" by simp
  then show False by (simp add: ring_map_Add)
qed

text \<open>A ring with one node assigns every key to it.\<close>

lemma ring_Get_single: "ring_Get key (ring_Add n NewConsistentHashRing) = n"
proof -
  have "ran (ring_map (ring_Add n NewConsistentHashRing)) \<subseteq> {n}"
    by (auto simp: ran_def ring_map_Add NewConsistentHashRing_def split: if_splits)
  with ring_Get_mem [OF ring_ok_Add [OF ring_ok_New] ring_Add_nonempty] show ?thesis by blast
qed

section \<open>Consistency\<close>

text \<open>C19: refinement. \<open>Get\<close> returns the owner of the first ring position at or after the key's
  hash, wrapping around to the first position, and the empty string on an empty ring: the binary
  search over the sorted slice implements that specification on every well-formed ring.\<close>

theorem ring_Get_refines:
  assumes "ring_ok ring"
  shows "ring_Get key ring =
    (case ring_lookup (ring_map ring) (hashKey key) of None \<Rightarrow> '''' | Some n \<Rightarrow> n)"
  using assms by (rule ring_Get_lookup)

theorem ring_Get_refines_witness:
  "ring_Get ''k'' (ring_Add ''w1'' NewConsistentHashRing) =
    (case ring_lookup (ring_map (ring_Add ''w1'' NewConsistentHashRing)) (hashKey ''k'') of
       None \<Rightarrow> '''' | Some n \<Rightarrow> n)"
  by (rule ring_Get_refines [OF ring_ok_Add [OF ring_ok_New]])

text \<open>C18: safety, the point of consistent hashing. Removing a node leaves the assignment of every
  key that the node did not own unchanged.\<close>

theorem ring_Remove_consistent:
  assumes ok: "ring_ok ring" and ord: "range_order ord (ring_hashMap ring)"
    and other: "ring_Get key ring \<noteq> n"
  shows "ring_Get key (ring_Remove ord n ring) = ring_Get key ring"
proof -
  let ?m = "ring_map ring" and ?h = "hashKey key"
  have m': "ring_map (ring_Remove ord n ring) =
      (\<lambda>p. case ?m p of None \<Rightarrow> None | Some n' \<Rightarrow> if n' \<in> - {n} then Some n' else None)"
    by (rule ext) (auto simp: ring_Remove_spec(2) [OF ok ord] split: option.splits)
  note get = ring_Get_lookup [OF ok, of key] ring_Get_lookup [OF ring_Remove_spec(1) [OF ok ord], of key]
  show ?thesis
  proof (cases "ring_lookup ?m ?h")
    case None
    then have "ring_hashMap ring = []" using ring_lookup_Some by (metis option.distinct(1))
    with get m' show ?thesis by (simp add: ring_lookup_def)
  next
    case (Some n')
    then have "n' \<in> - {n}" using other get(1) by simp
    then have "ring_lookup (ring_map (ring_Remove ord n ring)) ?h = Some n'"
      unfolding m' by (rule ring_lookup_restrict [OF finite_ring_dom Some])
    with Some get show ?thesis by simp
  qed
qed

theorem ring_Remove_consistent_witness:
  "ring_Get ''k'' (ring_Remove (map fst (ring_hashMap (ring_Add ''a'' NewConsistentHashRing))) ''b''
     (ring_Add ''a'' NewConsistentHashRing)) = ''a''"
proof -
  let ?r = "ring_Add ''a'' NewConsistentHashRing"
  have ok: "ring_ok ?r" by (rule ring_ok_Add [OF ring_ok_New])
  have "range_order (map fst (ring_hashMap ?r)) (ring_hashMap ?r)"
    using ok by (intro range_order_keys) (simp add: ring_ok_def)
  from ring_Remove_consistent [OF ok this, of "''k''" "''b''"] show ?thesis
    by (simp add: ring_Get_single)
qed

text \<open>Safety. Adding a node moves a key to that node or leaves it where it was; no key moves
  between two nodes that were there before.\<close>

theorem ring_Add_consistent:
  assumes ok: "ring_ok ring"
  shows "ring_Get key (ring_Add n ring) \<in> {n, if ring_hashMap ring = [] then n else ring_Get key ring}"
proof -
  let ?m = "ring_map ring" and ?m' = "ring_map (ring_Add n ring)" and ?h = "hashKey key"
  have get: "ring_Get key ring = (case ring_lookup ?m ?h of None \<Rightarrow> '''' | Some n \<Rightarrow> n)"
    "ring_Get key (ring_Add n ring) = (case ring_lookup ?m' ?h of None \<Rightarrow> '''' | Some n \<Rightarrow> n)"
    using ring_Get_lookup ok ring_ok_Add [OF ok] by blast+
  obtain n' where n': "ring_lookup ?m' ?h = Some n'" using ring_lookup_Some [OF ring_Add_nonempty] by metis
  let ?p = "succ_pos (dom ?m') ?h"
  have own: "?m' ?p = Some n'" using n' by (auto simp: ring_lookup_def split: if_splits)
  show ?thesis
  proof (cases "n' = n")
    case True
    with n' get show ?thesis by simp
  next
    case False
    with own have p: "?m ?p = Some n'" by (simp add: ring_map_Add split: if_splits)
    have "dom ?m \<subseteq> dom ?m'" by (auto simp: ring_map_Add)
    moreover have "?p \<in> dom ?m" using p by blast
    ultimately have "succ_pos (dom ?m) ?h = ?p" by (rule succ_pos_subset [OF finite_ring_dom])
    moreover have "dom ?m \<noteq> {}" using p by blast
    ultimately have "ring_lookup ?m ?h = Some n'" using p by (simp add: ring_lookup_def)
    moreover have "ring_hashMap ring \<noteq> []" using p by auto
    ultimately show ?thesis using n' get by simp
  qed
qed

theorem ring_Add_consistent_witness:
  "ring_Get ''k'' (ring_Add ''b'' (ring_Add ''a'' NewConsistentHashRing)) \<in> {''b'', ''a''}"
  using ring_Add_consistent [OF ring_ok_Add [OF ring_ok_New], of "''k''" "''b''" "''a''"]
  by (simp add: ring_Add_nonempty ring_Get_single)

text \<open>Registering a node again appends its hundred positions to the slice a second time, while the
  map keeps one entry per position: the slice of a ring that has seen re-registrations is longer
  than the ring has positions, and only \<open>Remove\<close> rebuilds it.\<close>

lemma length_keys_Add: "length (ring_keys (ring_Add n ring)) = length (ring_keys ring) + 100"
proof -
  have "length (ring_keys (add_vnodes n is ring)) = length (ring_keys ring) + length is" for "is"
    by (induction n "is" ring rule: add_vnodes.induct) auto
  then show ?thesis by (simp add: ring_Add_def Let_def)
qed

end
