(* ===== verification/Go_Float64.thy ===== *)
theory Go_Float64
  imports GS_Prelude Complex_Main "HOL-Library.Log_Nat"
begin

text \<open>
  Go's \<open>float64\<close>: IEEE 754 binary64 with round-to-nearest-even, executable over the
  rationals. A finite value is the rational it denotes, so the two zeros are one value:
  nothing in the program divides by a float zero or looks at a zero's sign. \<open>frnd\<close> is the
  rounding of an exact result, \<open>f64_round\<close> adds overflow to infinity; the arithmetic
  operations round the exact result once, as IEEE 754 requires.

  The lemmas are what the components need of floating point: rounding never crosses an
  integer below \<open>2 ^ 53\<close>, its relative error is at most \<open>2 ^ -53\<close>, integers are exact, and
  the truncated quotient of two integers is the integer quotient while the dividend is
  below \<open>2 ^ 53\<close>.
\<close>

section \<open>Rounding\<close>

datatype f64 = Fin rat | PInf | NInf | NaN

text \<open>\<open>\<lfloor>log\<^sub>2 x\<rfloor>\<close> of a positive rational, from the bit lengths of its two parts.\<close>

definition ilog2 :: "rat \<Rightarrow> int" where
  "ilog2 x = (let nd = quotient_of x; k = bitlen (fst nd) - bitlen (snd nd)
              in if 2 powi k \<le> x then k else k - 1)"

text \<open>Round to the nearest integer, ties to even.\<close>

definition rne :: "rat \<Rightarrow> int" where
  "rne x = (let f = \<lfloor>x\<rfloor>; r = x - of_int f
            in if r < 1 / 2 then f
               else if 1 / 2 < r then f + 1
               else if even f then f else f + 1)"

text \<open>The exponent of the unit in the last place: 53 significant bits, or the fixed exponent
  of the subnormal numbers.\<close>

definition uexp :: "rat \<Rightarrow> int" where
  "uexp x = max (ilog2 \<bar>x\<bar> - 52) (- 1074)"

definition frnd :: "rat \<Rightarrow> rat" where
  "frnd x = (if x = 0 then 0 else of_int (rne (x / 2 powi uexp x)) * 2 powi uexp x)"

text \<open>A rounded result of magnitude \<open>2 ^ 1024\<close> or more overflows.\<close>

definition f64_round :: "rat \<Rightarrow> f64" where
  "f64_round x =
     (let r = frnd x
      in if r \<noteq> 0 \<and> 1024 \<le> ilog2 \<bar>r\<bar> then (if 0 < r then PInf else NInf) else Fin r)"

section \<open>Arithmetic, comparison, conversion\<close>

definition f64_of_int :: "int \<Rightarrow> f64" where
  "f64_of_int i = f64_round (of_int i)"

fun f64_neg :: "f64 \<Rightarrow> f64" where
  "f64_neg (Fin a) = Fin (- a)"
| "f64_neg PInf = NInf"
| "f64_neg NInf = PInf"
| "f64_neg NaN = NaN"

fun f64_add :: "f64 \<Rightarrow> f64 \<Rightarrow> f64" where
  "f64_add (Fin a) (Fin b) = f64_round (a + b)"
| "f64_add NaN y = NaN"
| "f64_add x NaN = NaN"
| "f64_add PInf NInf = NaN"
| "f64_add NInf PInf = NaN"
| "f64_add PInf y = PInf"
| "f64_add NInf y = NInf"
| "f64_add x PInf = PInf"
| "f64_add x NInf = NInf"

definition f64_sub :: "f64 \<Rightarrow> f64 \<Rightarrow> f64" where
  "f64_sub x y = f64_add x (f64_neg y)"

text \<open>The sign of a product or quotient with an infinite operand; \<open>NaN\<close> for zero times
  infinity.\<close>

definition f64_inf :: "rat \<Rightarrow> f64" where
  "f64_inf s = (if s = 0 then NaN else if 0 < s then PInf else NInf)"

fun f64_sgn :: "f64 \<Rightarrow> rat" where
  "f64_sgn (Fin a) = sgn a"
| "f64_sgn PInf = 1"
| "f64_sgn NInf = - 1"
| "f64_sgn NaN = 0"

fun f64_mul :: "f64 \<Rightarrow> f64 \<Rightarrow> f64" where
  "f64_mul (Fin a) (Fin b) = f64_round (a * b)"
| "f64_mul NaN y = NaN"
| "f64_mul x NaN = NaN"
| "f64_mul x y = f64_inf (f64_sgn x * f64_sgn y)"

fun f64_div :: "f64 \<Rightarrow> f64 \<Rightarrow> f64" where
  "f64_div (Fin a) (Fin b) = (if b = 0 then f64_inf (sgn a) else f64_round (a / b))"
| "f64_div NaN y = NaN"
| "f64_div x NaN = NaN"
| "f64_div (Fin a) y = Fin 0"
| "f64_div x (Fin b) = f64_inf (f64_sgn x * (if b < 0 then - 1 else 1))"
| "f64_div x y = NaN"

fun f64_less :: "f64 \<Rightarrow> f64 \<Rightarrow> bool" where
  "f64_less (Fin a) (Fin b) = (a < b)"
| "f64_less NaN y = False"
| "f64_less x NaN = False"
| "f64_less PInf y = False"
| "f64_less x NInf = False"
| "f64_less x y = True"

text \<open>
  \<open>int32(x)\<close> truncates towards zero. Outside the range of \<open>int32\<close> the language leaves the
  result to the implementation; the model takes the value of the amd64 instruction.
\<close>

definition rat_trunc :: "rat \<Rightarrow> int" where
  "rat_trunc a = (if 0 \<le> a then \<lfloor>a\<rfloor> else \<lceil>a\<rceil>)"

fun f64_to_int32 :: "f64 \<Rightarrow> int32" where
  "f64_to_int32 (Fin a) = (if in32 (rat_trunc a) then rat_trunc a else - (2 ^ 31))"
| "f64_to_int32 _ = - (2 ^ 31)"

section \<open>Facts about rounding\<close>

lemma rne_ge: "of_int k \<le> x \<Longrightarrow> k \<le> rne x"
proof -
  assume "of_int k \<le> x"
  then have "k \<le> \<lfloor>x\<rfloor>" by (simp add: le_floor_iff)
  then show ?thesis by (auto simp: rne_def Let_def)
qed

lemma rne_le: "x \<le> of_int k \<Longrightarrow> rne x \<le> k"
proof -
  assume le: "x \<le> of_int k"
  show ?thesis
  proof (cases "x = of_int k")
    case True
    then show ?thesis by (simp add: rne_def)
  next
    case False
    with le have "\<lfloor>x\<rfloor> < k" by (simp add: floor_less_iff)
    then show ?thesis by (auto simp: rne_def Let_def)
  qed
qed

lemma rne_near: "\<bar>of_int (rne x) - x\<bar> \<le> 1 / 2"
proof -
  define f where "f = \<lfloor>x\<rfloor>"
  have b: "of_int f \<le> x" "x < of_int f + 1" unfolding f_def by linarith+
  consider "x - of_int f < 1 / 2" | "1 / 2 < x - of_int f" | "x - of_int f = 1 / 2" by linarith
  then show ?thesis using b by cases (auto simp: rne_def Let_def f_def [symmetric] abs_if)
qed

lemma ilog2_bounds:
  assumes "0 < x"
  shows "2 powi ilog2 x \<le> x" and "x < 2 powi (ilog2 x + 1)"
proof -
  obtain n d where nd: "quotient_of x = (n, d)" by fastforce
  have d: "0 < d" using nd by (rule quotient_of_denom_pos)
  have x: "x = of_int n / of_int d" using nd by (rule quotient_of_div)
  with assms d have n: "0 < n" by (simp add: zero_less_divide_iff)
  have powi: "(of_int m :: rat) < 2 powi bitlen m \<and> 2 powi (bitlen m - 1) \<le> (of_int m :: rat)"
    if m: "0 < m" for m
  proof -
    have b: "0 < bitlen m" using m bitlen_nonneg [of m] bitlen_eq_zero_iff [of m] by linarith
    have "2 ^ nat (bitlen m - 1) \<le> m" and "m < 2 ^ nat (bitlen m)"
      using bitlen_bounds [OF m] by auto
    then have "(2 :: rat) ^ nat (bitlen m - 1) \<le> of_int m" and "of_int m < (2 :: rat) ^ nat (bitlen m)"
      by (metis of_int_le_iff of_int_numeral of_int_power, metis of_int_less_iff of_int_numeral of_int_power)
    with b show ?thesis by (simp add: power_int_def)
  qed
  let ?k = "bitlen n - bitlen d"
  have "x < 2 powi bitlen n / 2 powi (bitlen d - 1)"
    unfolding x using powi [OF n] powi [OF d] d n
    by (intro frac_less) auto
  also have "\<dots> = 2 powi (?k + 1)"
    by (simp add: power_int_diff power_int_add)
  finally have up: "x < 2 powi (?k + 1)" .
  have "2 powi (?k - 1) = 2 powi (bitlen n - 1) / (2 :: rat) powi bitlen d"
    by (simp add: power_int_diff)
  also have "\<dots> \<le> x"
    unfolding x using powi [OF n] powi [OF d] d n by (intro frac_le) auto
  finally have lo: "2 powi (?k - 1) \<le> x" .
  show "2 powi ilog2 x \<le> x" and "x < 2 powi (ilog2 x + 1)"
    using up lo by (auto simp: ilog2_def nd Let_def)
qed

lemma ilog2_le:
  assumes "0 < x" and "x < 2 ^ n"
  shows "ilog2 x < int n"
proof (rule ccontr)
  assume "\<not> ilog2 x < int n"
  then have "(2 :: rat) powi int n \<le> 2 powi ilog2 x"
    by (intro power_int_increasing) auto
  with ilog2_bounds(1) [OF assms(1)] assms(2) show False by simp
qed

lemma ilog2_ge:
  assumes "0 < x" and "2 powi k \<le> x"
  shows "k \<le> ilog2 x"
proof (rule ccontr)
  assume "\<not> k \<le> ilog2 x"
  then have "(2 :: rat) powi (ilog2 x + 1) \<le> 2 powi k"
    by (intro power_int_increasing) auto
  with ilog2_bounds(2) [OF assms(1)] assms(2) show False by simp
qed

lemma frnd_0 [simp]: "frnd 0 = 0"
  by (simp add: frnd_def)

text \<open>Rounding does not cross an integer.\<close>

lemma uexp_nonpos: "0 < x \<Longrightarrow> x < 2 ^ 53 \<Longrightarrow> uexp x \<le> 0"
  using ilog2_le [of x 53] by (simp add: uexp_def)

lemma int_in_ulps: "e \<le> 0 \<Longrightarrow> (of_int k :: rat) = of_int (k * 2 ^ nat (- e)) * 2 powi e"
proof -
  assume "e \<le> 0"
  then obtain n where n: "e = - int n" by (metis minus_minus neg_0_le_iff_le nonneg_int_cases)
  then have "(2 :: rat) powi e = inverse (2 ^ n)" by (simp add: power_int_minus)
  with n show ?thesis by simp
qed

lemma frnd_ge_int:
  assumes "0 \<le> x" and "x < 2 ^ 53" and "of_int k \<le> x"
  shows "of_int k \<le> frnd x"
proof (cases "x = 0")
  case False
  with assms(1,2) have e: "uexp x \<le> 0" by (intro uexp_nonpos) auto
  have p: "(0 :: rat) < 2 powi uexp x" by (simp add: zero_less_power_int)
  have "of_int (k * 2 ^ nat (- uexp x)) \<le> x / 2 powi uexp x"
    using assms(3) unfolding pos_le_divide_eq [OF p] int_in_ulps [OF e, of k, symmetric] .
  then have "k * 2 ^ nat (- uexp x) \<le> rne (x / 2 powi uexp x)" by (rule rne_ge)
  then have "(of_int (k * 2 ^ nat (- uexp x)) :: rat) * 2 powi uexp x
      \<le> of_int (rne (x / 2 powi uexp x)) * 2 powi uexp x"
    using p by (intro mult_right_mono) (simp_all only: of_int_le_iff less_imp_le)
  then show ?thesis using False unfolding int_in_ulps [OF e, of k, symmetric] by (simp add: frnd_def)
qed (use assms in simp)

lemma frnd_le_int:
  assumes "0 \<le> x" and "x < 2 ^ 53" and "x \<le> of_int k"
  shows "frnd x \<le> of_int k"
proof (cases "x = 0")
  case False
  with assms(1,2) have e: "uexp x \<le> 0" by (intro uexp_nonpos) auto
  have p: "(0 :: rat) < 2 powi uexp x" by (simp add: zero_less_power_int)
  have "x / 2 powi uexp x \<le> of_int (k * 2 ^ nat (- uexp x))"
    using assms(3) unfolding pos_divide_le_eq [OF p] int_in_ulps [OF e, of k, symmetric] .
  then have "rne (x / 2 powi uexp x) \<le> k * 2 ^ nat (- uexp x)" by (rule rne_le)
  then have "of_int (rne (x / 2 powi uexp x)) * 2 powi uexp x
      \<le> (of_int (k * 2 ^ nat (- uexp x)) :: rat) * 2 powi uexp x"
    using p by (intro mult_right_mono) (simp_all only: of_int_le_iff less_imp_le)
  then show ?thesis using False unfolding int_in_ulps [OF e, of k, symmetric] by (simp add: frnd_def)
qed (use assms in simp)

lemma frnd_nonneg: "0 \<le> x \<Longrightarrow> x < 2 ^ 53 \<Longrightarrow> 0 \<le> frnd x"
  using frnd_ge_int [of x 0] by simp

lemma frnd_int: "0 \<le> k \<Longrightarrow> k < 2 ^ 53 \<Longrightarrow> frnd (of_int k) = of_int k"
proof -
  assume "0 \<le> k" and "k < 2 ^ 53"
  moreover from \<open>k < 2 ^ 53\<close> have "(of_int k :: rat) < 2 ^ 53"
    by (metis of_int_less_iff of_int_numeral of_int_power)
  ultimately show ?thesis
    using frnd_ge_int [of "of_int k" k] frnd_le_int [of "of_int k" k] by simp
qed

text \<open>Relative error of a normal number.\<close>

lemma frnd_err:
  assumes "0 < x" and "2 powi (- 1022) \<le> x"
  shows "\<bar>frnd x - x\<bar> \<le> x / 2 ^ 53"
proof -
  have e: "uexp x = ilog2 x - 52"
    using ilog2_ge [OF assms] assms(1) by (simp add: uexp_def)
  let ?u = "2 powi uexp x :: rat"
  have p: "0 < ?u" by (simp add: zero_less_power_int)
  have "frnd x - x = (of_int (rne (x / ?u)) - x / ?u) * ?u"
    using assms(1) p by (simp add: frnd_def left_diff_distrib)
  then have "\<bar>frnd x - x\<bar> = \<bar>of_int (rne (x / ?u)) - x / ?u\<bar> * ?u"
    using p by (simp add: abs_mult)
  also have "\<dots> \<le> 1 / 2 * ?u"
    using rne_near [of "x / ?u"] p by (intro mult_right_mono) auto
  also have "\<dots> = 2 powi ilog2 x / 2 ^ 53"
    by (simp add: e power_int_diff)
  also have "\<dots> \<le> x / 2 ^ 53"
    using ilog2_bounds(1) [OF assms(1)] by (intro divide_right_mono) auto
  finally show ?thesis .
qed

section \<open>Facts about the operations\<close>

lemma f64_round_small: "0 \<le> x \<Longrightarrow> x < 2 ^ 53 \<Longrightarrow> f64_round x = Fin (frnd x)"
proof -
  assume x: "0 \<le> x" "x < 2 ^ 53"
  then have "0 \<le> frnd x" and le: "frnd x \<le> 2 ^ 53"
    using frnd_nonneg frnd_le_int [of x "2 ^ 53"] by simp_all
  have "frnd x < 2 ^ 54" using le by (rule le_less_trans) simp
  then have "frnd x \<noteq> 0 \<Longrightarrow> ilog2 \<bar>frnd x\<bar> < int 54"
    using \<open>0 \<le> frnd x\<close> by (intro ilog2_le) auto
  then show ?thesis by (auto simp: f64_round_def Let_def)
qed

lemma f64_of_int_small: "0 \<le> k \<Longrightarrow> k < 2 ^ 53 \<Longrightarrow> f64_of_int k = Fin (of_int k)"
proof -
  assume k: "0 \<le> k" "k < 2 ^ 53"
  then have "(of_int k :: rat) < 2 ^ 53" by (metis of_int_less_iff of_int_numeral of_int_power)
  with k show ?thesis by (simp add: f64_of_int_def f64_round_small frnd_int)
qed

text \<open>
  The truncated float quotient of two integers is their integer quotient while the dividend
  is below \<open>2 ^ 53\<close>: the quotient is at least \<open>1 / s\<close> away from the next integer, and the
  rounding error is smaller than that.
\<close>

lemma floor_frnd_quotient:
  assumes "0 \<le> p" and "p < 2 ^ 53" and "0 < s" and "s < 2 ^ 53"
  shows "\<lfloor>frnd (of_int p / of_int s)\<rfloor> = p div s"
proof (cases "p = 0")
  case False
  with assms have p: "1 \<le> p" by simp
  let ?x = "of_int p / of_int s :: rat"
  have s0: "(0 :: rat) < of_int s" using assms(3) by simp
  have p53: "(of_int p :: rat) < 2 ^ 53" and s53: "(of_int s :: rat) < 2 ^ 53"
    using assms(2,4) by (metis of_int_less_iff of_int_numeral of_int_power)+
  have x0: "0 < ?x" using p assms(3) by simp
  have xp: "?x \<le> of_int p"
  proof -
    have "p * 1 \<le> p * s" using p assms(3) by (intro mult_left_mono) auto
    then have "(of_int p :: rat) \<le> of_int p * of_int s" by (metis mult_1_right of_int_le_iff of_int_mult)
    then show ?thesis using s0 by (simp add: pos_divide_le_eq)
  qed
  have x53: "?x < 2 ^ 53" using xp p53 by (rule le_less_trans)
  have fl: "\<lfloor>?x\<rfloor> = p div s" by (simp add: floor_divide_of_int_eq)
  have lo: "of_int (p div s) \<le> frnd ?x"
    using x0 x53 by (intro frnd_ge_int) (simp_all add: fl [symmetric])
  have "(2 :: rat) powi (- 1022) \<le> 1 / 2 ^ 53"
    by (simp add: power_int_def power_inverse field_simps)
  also have "\<dots> \<le> 1 / of_int s" using s53 s0 by (intro divide_left_mono) auto
  also have "\<dots> \<le> ?x" using p s0 by (intro divide_right_mono) auto
  finally have "\<bar>frnd ?x - ?x\<bar> \<le> ?x / 2 ^ 53" by (intro frnd_err x0)
  moreover have "?x / 2 ^ 53 < 1 / of_int s"
    using p53 s0 by (simp add: divide_simps)
  ultimately have "frnd ?x < ?x + 1 / of_int s" by linarith
  also have "\<dots> \<le> of_int (p div s) + 1"
  proof -
    have "p + 1 \<le> (p div s + 1) * s"
    proof -
      have "p = p div s * s + p mod s" by (rule div_mult_mod_eq [symmetric])
      moreover have "p mod s + 1 \<le> s" using assms(3) by (simp add: pos_mod_bound add1_zle_eq)
      ultimately have "p + 1 \<le> p div s * s + s" by linarith
      then show ?thesis by (simp add: distrib_right)
    qed
    then have "of_int (p + 1) \<le> (of_int ((p div s + 1) * s) :: rat)" by (simp only: of_int_le_iff)
    then show ?thesis using s0 by (simp add: divide_simps)
  qed
  finally have "frnd ?x < of_int (p div s) + 1" .
  with lo show ?thesis by (simp add: floor_eq_iff)
qed (use assms in simp)

end
