(* ===== verification/Models.thy ===== *)
theory Models
  imports GS_Prelude Go_Float64
begin

text \<open>
  The shared data model of \<open>pkg/models/models.go\<close>. A struct is a record whose fields carry a
  short prefix and the source's name. \<open>time.Time\<close> is a count of nanoseconds since the Unix
  epoch, \<open>time.Duration\<close> a count of nanoseconds, \<open>[]byte\<close> a string. An \<open>interface{}\<close> that
  holds one of a few dynamic types is a value of \<open>go_any\<close>, one constructor per type.
\<close>

section \<open>Enumerations\<close>

datatype test_status =
    TestStatusPending
  | TestStatusRunning
  | TestStatusCompleted
  | TestStatusFailed
  | TestStatusStopped
  | TestStatusOther string

datatype worker_status =
    WorkerStatusIdle
  | WorkerStatusRunning
  | WorkerStatusStopping
  | WorkerStatusError
  | WorkerStatusOther string

fun worker_status_string :: "worker_status \<Rightarrow> string" where
  "worker_status_string WorkerStatusIdle = ''idle''"
| "worker_status_string WorkerStatusRunning = ''running''"
| "worker_status_string WorkerStatusStopping = ''stopping''"
| "worker_status_string WorkerStatusError = ''error''"
| "worker_status_string (WorkerStatusOther s) = s"

datatype assertion_type =
    AssertionTypeUnset
  | AssertionTypeStatusCode
  | AssertionTypeResponseTime
  | AssertionTypeBodyContains

datatype go_any = AnyNil | AnyInt int | AnyInt32 int32 | AnyString string | AnyDuration int64

section \<open>Time\<close>

type_synonym go_time = int
type_synonym duration = int64

definition nanosecond :: duration where "nanosecond = 1"
definition microsecond :: duration where "microsecond = 1000"
definition millisecond :: duration where "millisecond = 1000000"
definition second :: duration where "second = 1000000000"

text \<open>The zero \<open>time.Time\<close> is the first of January of the year 1.\<close>

definition zero_time :: go_time where
  "zero_time = - 62135596800 * 1000000000"

definition unix_milli :: "go_time \<Rightarrow> int64" where
  "unix_milli t = t div 1000000"

definition time_unix_milli :: "int64 \<Rightarrow> go_time" where
  "time_unix_milli ms = ms * 1000000"

lemma unix_milli_inverse [simp]: "unix_milli (time_unix_milli ms) = ms"
  by (simp add: unix_milli_def time_unix_milli_def)

text \<open>\<open>int64(d / time.Millisecond)\<close> and \<open>time.Duration(ms) * time.Millisecond\<close>.\<close>

definition to_ms :: "duration \<Rightarrow> int64" where
  "to_ms d = go_div d millisecond"

definition from_ms :: "int64 \<Rightarrow> duration" where
  "from_ms ms = i64 (ms * millisecond)"

lemma go_div_mult_cancel: "0 < b \<Longrightarrow> go_div (a * b) b = a"
  by (cases "a = 0") (simp_all add: go_div_def sgn_mult abs_mult mult.commute abs_mult_sgn)

lemma to_ms_from_ms: "in64 (ms * millisecond) \<Longrightarrow> to_ms (from_ms ms) = ms"
  by (simp add: to_ms_def from_ms_def i64_id go_div_mult_cancel millisecond_def)

section \<open>Plans\<close>

record stage =
  st_Duration :: duration
  st_TargetVUs :: int32
  st_RampUp :: duration

record assertion =
  as_Type :: assertion_type
  as_Value :: go_any
  as_Threshold :: go_any

record request =
  rq_Method :: string
  rq_Path :: string
  rq_Headers :: "(string, string) gomap"
  rq_Body :: string
  rq_Assertions :: "assertion list"
  rq_ThinkTime :: duration

record http_config =
  hc_BaseURL :: string
  hc_Requests :: "request list"
  hc_Headers :: "(string, string) gomap"
  hc_Timeout :: duration

record test_plan =
  tp_ID :: string
  tp_Name :: string
  tp_Stages :: "stage list"
  tp_HTTP :: http_config
  tp_Variables :: "(string, string) gomap"
  tp_TotalVirtualUsers :: int32

record worker_node =
  wn_ID :: string
  wn_Address :: string
  wn_MaxVUs :: int32
  wn_Status :: worker_status
  wn_Metadata :: "(string, string) gomap"
  wn_LastSeen :: go_time

text \<open>Zero values, as a composite literal that names only some fields leaves the others.\<close>

definition zero_stage :: stage where
  "zero_stage = \<lparr>st_Duration = 0, st_TargetVUs = 0, st_RampUp = 0\<rparr>"

definition zero_http_config :: http_config where
  "zero_http_config = \<lparr>hc_BaseURL = '''', hc_Requests = [], hc_Headers = [], hc_Timeout = 0\<rparr>"

definition zero_test_plan :: test_plan where
  "zero_test_plan = \<lparr>tp_ID = '''', tp_Name = '''', tp_Stages = [], tp_HTTP = zero_http_config,
     tp_Variables = [], tp_TotalVirtualUsers = 0\<rparr>"

section \<open>Metrics\<close>

record rps_snapshot =
  rps_Current :: f64
  rps_Average :: f64
  rps_Peak :: f64
  rps_WindowSeconds :: int64

record latency_histogram =
  lat_Min :: duration
  lat_Max :: duration
  lat_Mean :: duration
  lat_P50 :: duration
  lat_P95 :: duration
  lat_P99 :: duration
  lat_P999 :: duration
  lat_Count :: int64

record error_rate =
  er_Rate :: f64
  er_Percentage :: f64
  er_StatusCodeCounts :: "(int, int64) gomap"
  er_ErrorMessages :: "string list"

record metric_snapshot =
  ms_RPS :: rps_snapshot
  ms_Latency :: latency_histogram
  ms_ErrorRate :: error_rate
  ms_TotalRequests :: int64
  ms_TotalErrors :: int64
  ms_Timestamp :: go_time
  ms_WorkerID :: string

text \<open>The zero values of the metric structs.\<close>

definition zero_rps :: rps_snapshot where
  "zero_rps = \<lparr>rps_Current = Fin 0, rps_Average = Fin 0, rps_Peak = Fin 0, rps_WindowSeconds = 0\<rparr>"

definition zero_latency :: latency_histogram where
  "zero_latency = \<lparr>lat_Min = 0, lat_Max = 0, lat_Mean = 0, lat_P50 = 0, lat_P95 = 0,
     lat_P99 = 0, lat_P999 = 0, lat_Count = 0\<rparr>"

definition zero_error_rate :: error_rate where
  "zero_error_rate = \<lparr>er_Rate = Fin 0, er_Percentage = Fin 0, er_StatusCodeCounts = [],
     er_ErrorMessages = []\<rparr>"

definition zero_snapshot :: metric_snapshot where
  "zero_snapshot = \<lparr>ms_RPS = zero_rps, ms_Latency = zero_latency, ms_ErrorRate = zero_error_rate,
     ms_TotalRequests = 0, ms_TotalErrors = 0, ms_Timestamp = zero_time, ms_WorkerID = ''''\<rparr>"

end
