(* ===== verification/Interfaces.thy ===== *)
theory Interfaces
  imports Models
begin

text \<open>
  The interfaces through which components use one another, as locales: the operations the
  client calls and the laws the provider promises. A client's lemmas are proved in the locale;
  the provider's theory interprets the locale on its own definitions.

  \<^item> \<open>node_registry\<close>: what the plan distributor and the server rely on from the node manager.
  \<^item> \<open>session_store\<close>: what authentication relies on from the store.
  \<^item> \<open>run_table\<close>: what the queue and the recorder rely on from the store.
\<close>

section \<open>The node registry\<close>

text \<open>
  \<open>nodes m o\<close> is the slice of registered nodes in one of the orders \<open>o\<close> a Go map can be
  iterated in; \<open>lookup m\<close> finds a node by its identifier.
\<close>

locale node_registry =
  fixes valid :: "'m \<Rightarrow> bool"
    and order_ok :: "'o \<Rightarrow> 'm \<Rightarrow> bool"
    and nodes :: "'o \<Rightarrow> 'm \<Rightarrow> worker_node list"
    and lookup :: "string \<Rightarrow> 'm \<Rightarrow> worker_node option"
  assumes distinct_ids: "valid m \<Longrightarrow> order_ok ord m \<Longrightarrow> distinct (map wn_ID (nodes ord m))"
    and lookup_iff: "valid m \<Longrightarrow> order_ok ord m \<Longrightarrow>
      lookup i m = Some n \<longleftrightarrow> n \<in> set (nodes ord m) \<and> wn_ID n = i"
begin

lemma nodes_same_set: "valid m \<Longrightarrow> order_ok o1 m \<Longrightarrow> order_ok o2 m \<Longrightarrow> set (nodes o1 m) = set (nodes o2 m)"
  using lookup_iff by blast

lemma lookup_id: "valid m \<Longrightarrow> order_ok ord m \<Longrightarrow> lookup i m = Some n \<Longrightarrow> wn_ID n = i"
  using lookup_iff by blast

lemma distinct_nodes: "valid m \<Longrightarrow> order_ok ord m \<Longrightarrow> distinct (nodes ord m)"
  using distinct_ids by (simp add: distinct_map)

text \<open>The number of nodes and any sum over them do not depend on the iteration order.\<close>

lemma mset_nodes: "valid m \<Longrightarrow> order_ok o1 m \<Longrightarrow> order_ok o2 m \<Longrightarrow> mset (nodes o1 m) = mset (nodes o2 m)"
  using nodes_same_set distinct_nodes by (metis set_eq_iff_mset_eq_distinct)

lemma sum_nodes: "valid m \<Longrightarrow> order_ok o1 m \<Longrightarrow> order_ok o2 m \<Longrightarrow>
    sum_list (map f (nodes o1 m)) = (sum_list (map f (nodes o2 m)) :: int)"
  using mset_nodes by (metis mset_map sum_mset_sum_list)

end

section \<open>The session store\<close>

text \<open>
  \<open>resolve tok now d\<close> is the user a token stands for at a time. A session ends by revocation, by
  its expiry or with its user; none of the operations that end sessions brings one back.
\<close>

locale session_store =
  fixes valid :: "'d \<Rightarrow> bool"
    and resolve :: "string \<Rightarrow> int \<Rightarrow> 'd \<Rightarrow> 'u option"
    and user_id :: "'u \<Rightarrow> int"
    and revoke :: "string \<Rightarrow> 'd \<Rightarrow> 'd"
    and purge :: "int \<Rightarrow> 'd \<Rightarrow> 'd"
    and remove_user :: "int \<Rightarrow> 'd \<Rightarrow> 'd"
  assumes valid_ops: "valid d \<Longrightarrow> valid (revoke tok d)" "valid d \<Longrightarrow> valid (purge now d)" "valid d \<Longrightarrow> valid (remove_user i d)"
    and resolve_earlier: "valid d \<Longrightarrow> resolve tok now d = Some u \<Longrightarrow> now' \<le> now \<Longrightarrow> resolve tok now' d = Some u"
    and resolve_revoke: "valid d \<Longrightarrow> resolve tok now (revoke tok' d) = (if tok = tok' then None else resolve tok now d)"
    and resolve_purge: "valid d \<Longrightarrow> t \<le> now \<Longrightarrow> resolve tok now (purge t d) = resolve tok now d"
    and resolve_remove: "valid d \<Longrightarrow> resolve tok now (remove_user i d) =
      (case resolve tok now d of None \<Rightarrow> None | Some u \<Rightarrow> if user_id u = i then None else Some u)"
begin

text \<open>The operations that end sessions, at times that do not go back.\<close>

inductive ended_later :: "int \<Rightarrow> 'd \<Rightarrow> int \<Rightarrow> 'd \<Rightarrow> bool" where
  same: "ended_later t d t d"
| wait: "ended_later t d t' d' \<Longrightarrow> t' \<le> t'' \<Longrightarrow> ended_later t d t'' d'"
| revoked: "ended_later t d t' d' \<Longrightarrow> ended_later t d t' (revoke tok d')"
| purged: "ended_later t d t' d' \<Longrightarrow> ended_later t d t' (purge t' d')"
| removed: "ended_later t d t' d' \<Longrightarrow> ended_later t d t' (remove_user i d')"

lemma ended_valid: "ended_later t d t' d' \<Longrightarrow> valid d \<Longrightarrow> valid d' \<and> t \<le> t'"
  by (induction rule: ended_later.induct) (auto intro: valid_ops)

lemma resolve_antimono: "ended_later t d t' d' \<Longrightarrow> valid d \<Longrightarrow> resolve tok t' d' = Some u \<Longrightarrow> resolve tok t d = Some u"
proof (induction rule: ended_later.induct)
  case (wait t d t' d' t'')
  then show ?case using resolve_earlier ended_valid by blast
next
  case (revoked t d t' d' tok')
  then show ?case using ended_valid [OF revoked(1)] by (auto simp: resolve_revoke split: if_splits)
next
  case (purged t d t' d')
  then show ?case using ended_valid [OF purged(1)] by (simp add: resolve_purge)
next
  case (removed t d t' d' i)
  then show ?case using ended_valid [OF removed(1)] by (auto simp: resolve_remove split: option.splits if_splits)
qed simp

lemma dead_stays_dead: "ended_later t d t' d' \<Longrightarrow> valid d \<Longrightarrow> resolve tok t d = None \<Longrightarrow> resolve tok t' d' = None"
  using resolve_antimono by (metis not_Some_eq)

lemma removed_user_gone:
  assumes "valid d" and "ended_later t (remove_user i d) t' d'" and "resolve tok t' d' = Some u"
  shows "user_id u \<noteq> i"
  using resolve_antimono [OF assms(2) valid_ops(3) [OF assms(1)] assms(3)] assms(1)
  by (auto simp: resolve_remove split: option.splits if_splits)

end

section \<open>The table of runs\<close>

text \<open>What the queue and the recorder use: the status of a run and the statements that change it.\<close>

locale run_table =
  fixes valid :: "'d \<Rightarrow> bool"
    and status :: "string \<Rightarrow> 'd \<Rightarrow> string option"
    and next_queued :: "'d \<Rightarrow> string option"
    and dispatched :: "string \<Rightarrow> 'd \<Rightarrow> bool \<times> 'd"
    and set_status :: "string \<Rightarrow> string \<Rightarrow> 'd \<Rightarrow> 'd"
  assumes valid_dispatched: "valid d \<Longrightarrow> valid (snd (dispatched i d))"
    and valid_set_status: "valid d \<Longrightarrow> valid (set_status i st d)"
    and next_is_queued: "valid d \<Longrightarrow> next_queued d = Some i \<Longrightarrow> status i d = Some ''QUEUED''"
    and no_next: "valid d \<Longrightarrow> next_queued d = None \<Longrightarrow> status i d \<noteq> Some ''QUEUED''"
    and dispatched_ok: "valid d \<Longrightarrow> fst (dispatched i d) \<longleftrightarrow> status i d = Some ''QUEUED''"
    and dispatched_status: "valid d \<Longrightarrow> status j (snd (dispatched i d)) =
      (if j = i \<and> status i d = Some ''QUEUED'' then Some ''RUNNING'' else status j d)"
    and set_status_status: "valid d \<Longrightarrow> status j (set_status i st d) = (if j = i \<and> status i d \<noteq> None then Some st else status j d)"
begin

lemma dispatched_once: "valid d \<Longrightarrow> fst (dispatched i d) \<Longrightarrow> \<not> fst (dispatched i (snd (dispatched i d)))"
  by (simp add: dispatched_ok valid_dispatched dispatched_status)

lemma next_dispatches: "valid d \<Longrightarrow> next_queued d = Some i \<Longrightarrow> fst (dispatched i d) \<and> next_queued (snd (dispatched i d)) \<noteq> Some i"
proof -
  assume v: "valid d" and n: "next_queued d = Some i"
  then have q: "status i d = Some ''QUEUED''" by (rule next_is_queued)
  moreover have "status i (snd (dispatched i d)) = Some ''RUNNING''" by (simp add: dispatched_status q v)
  ultimately show ?thesis
    using next_is_queued [OF valid_dispatched [OF v], of i i] v by (auto simp: dispatched_ok)
qed

lemma cancelled_not_next: "valid d \<Longrightarrow> st \<noteq> ''QUEUED'' \<Longrightarrow> next_queued (set_status i st d) \<noteq> Some i"
  using next_is_queued [OF valid_set_status, of d i st i] set_status_status [of d i i st] by (auto split: if_splits)

text \<open>A run that left the queue does not come back through dispatches and other settled statuses.\<close>

inductive served :: "'d \<Rightarrow> 'd \<Rightarrow> bool" where
  served_refl: "served d d"
| served_dispatch: "served d d' \<Longrightarrow> served d (snd (dispatched i d'))"
| served_status: "served d d' \<Longrightarrow> st \<noteq> ''QUEUED'' \<Longrightarrow> served d (set_status i st d')"

lemma served_valid: "served d d' \<Longrightarrow> valid d \<Longrightarrow> valid d'"
  by (induction rule: served.induct) (auto intro: valid_dispatched valid_set_status)

lemma served_not_queued: "served d d' \<Longrightarrow> valid d \<Longrightarrow> status i d \<noteq> Some ''QUEUED'' \<Longrightarrow> status i d' \<noteq> Some ''QUEUED''"
  by (induction rule: served.induct) (auto simp: dispatched_status set_status_status served_valid)

lemma never_dispatched_again: "valid d \<Longrightarrow> fst (dispatched i d) \<Longrightarrow> served (snd (dispatched i d)) d' \<Longrightarrow> \<not> fst (dispatched i d')"
proof -
  assume v: "valid d" and f: "fst (dispatched i d)" and s: "served (snd (dispatched i d)) d'"
  have "status i (snd (dispatched i d)) \<noteq> Some ''QUEUED''" using v f by (simp add: dispatched_ok dispatched_status)
  then have "status i d' \<noteq> Some ''QUEUED''" by (rule served_not_queued [OF s valid_dispatched [OF v]])
  then show ?thesis by (simp add: dispatched_ok served_valid [OF s valid_dispatched [OF v]])
qed

end

end
