(* ===== verification/Node_Manager.thy ===== *)
theory Node_Manager
  imports Hash_Ring Interfaces
begin

text \<open>
  \<open>NodeManager\<close> of \<open>internal/orchestrator/node_manager.go\<close>: the registered workers, the hash
  ring, and the mirror in etcd. The etcd client is not part of the repository: it is the
  argument \<open>etcd\<close>, which says for each request whether it fails and with what error; the
  requests issued are recorded in order in \<open>nm_etcd\<close>. Each method runs under the node manager's
  lock and is one function. The node structs are reached through the map only, so an update
  through a stored pointer is an update of the map's entry.
\<close>

section \<open>State\<close>

datatype etcd_op = EtcdPut string string | EtcdDelete string

type_synonym etcd_client = "etcd_op \<Rightarrow> string option"

datatype nm_error =
    RegisterEtcdFailed string
  | UnregisterEtcdFailed string
  | NoNodesAvailable
  | NodeNotFound string

record node_manager =
  nm_nodes :: "(string, worker_node) gomap"
  nm_ring :: hash_ring
  nm_prefix :: string
  nm_etcd :: "etcd_op list"

definition NewNodeManager :: "string \<Rightarrow> node_manager" where
  "NewNodeManager prefix =
     \<lparr>nm_nodes = [], nm_ring = NewConsistentHashRing, nm_prefix = prefix, nm_etcd = []\<rparr>"

section \<open>Operations\<close>

definition etcd_key :: "node_manager \<Rightarrow> string \<Rightarrow> string" where
  "etcd_key nm nodeID = nm_prefix nm @ ''/nodes/'' @ nodeID"

definition RegisterNode :: "etcd_client \<Rightarrow> worker_node \<Rightarrow> node_manager \<Rightarrow> nm_error option \<times> node_manager" where
  "RegisterNode etcd node nm =
     (let nm1 = nm\<lparr>nm_nodes := AList.update (wn_ID node) node (nm_nodes nm),
                   nm_ring := ring_Add (wn_ID node) (nm_ring nm)\<rparr>;
          oper = EtcdPut (etcd_key nm (wn_ID node)) (wn_Address node @ ''|'' @ int_string (wn_MaxVUs node));
          nm2 = nm1\<lparr>nm_etcd := nm_etcd nm1 @ [oper]\<rparr>
      in case etcd oper of Some err \<Rightarrow> (Some (RegisterEtcdFailed err), nm2) | None \<Rightarrow> (None, nm2))"

definition UnregisterNode ::
  "etcd_client \<Rightarrow> 32 word list \<Rightarrow> string \<Rightarrow> node_manager \<Rightarrow> nm_error option \<times> node_manager" where
  "UnregisterNode etcd ord nodeID nm =
     (let nm1 = nm\<lparr>nm_nodes := AList.delete nodeID (nm_nodes nm),
                   nm_ring := ring_Remove ord nodeID (nm_ring nm)\<rparr>;
          oper = EtcdDelete (etcd_key nm nodeID);
          nm2 = nm1\<lparr>nm_etcd := nm_etcd nm1 @ [oper]\<rparr>
      in case etcd oper of Some err \<Rightarrow> (Some (UnregisterEtcdFailed err), nm2) | None \<Rightarrow> (None, nm2))"

definition GetNode :: "string \<Rightarrow> node_manager \<Rightarrow> worker_node option" where
  "GetNode nodeID nm = map_of (nm_nodes nm) nodeID"

definition GetNodes :: "string list \<Rightarrow> node_manager \<Rightarrow> worker_node list" where
  "GetNodes ord nm = map snd (range_entries ord (nm_nodes nm))"

definition GetNodeForKey :: "string \<Rightarrow> node_manager \<Rightarrow> nm_error + worker_node" where
  "GetNodeForKey key nm =
     (let nodeID = ring_Get key (nm_ring nm)
      in if nodeID = '''' then Inl NoNodesAvailable
         else (case map_of (nm_nodes nm) nodeID of
                 None \<Rightarrow> Inl (NodeNotFound nodeID)
               | Some node \<Rightarrow> Inr node))"

text \<open>\<open>time.Since\<close> saturates at the bounds of \<open>time.Duration\<close>.\<close>

definition time_since :: "go_time \<Rightarrow> go_time \<Rightarrow> duration" where
  "time_since now t = max (- (2 ^ 63)) (min (2 ^ 63 - 1) (now - t))"

text \<open>The health check only warns: its result is the list of nodes it logs.\<close>

definition checkNodeHealth :: "string list \<Rightarrow> duration \<Rightarrow> go_time \<Rightarrow> node_manager \<Rightarrow> string list" where
  "checkNodeHealth ord timeout now nm =
     map wn_ID (filter (\<lambda>n. timeout < time_since now (wn_LastSeen n)) (GetNodes ord nm))"

definition UpdateLastSeen :: "string \<Rightarrow> go_time \<Rightarrow> node_manager \<Rightarrow> node_manager" where
  "UpdateLastSeen nodeID now nm =
     (case map_of (nm_nodes nm) nodeID of
        None \<Rightarrow> nm
      | Some node \<Rightarrow> nm\<lparr>nm_nodes := AList.update nodeID (node\<lparr>wn_LastSeen := now\<rparr>) (nm_nodes nm)\<rparr>)"

definition UpdateStatus :: "string \<Rightarrow> worker_status \<Rightarrow> node_manager \<Rightarrow> node_manager" where
  "UpdateStatus nodeID status nm =
     (case map_of (nm_nodes nm) nodeID of
        None \<Rightarrow> nm
      | Some node \<Rightarrow> nm\<lparr>nm_nodes := AList.update nodeID (node\<lparr>wn_Status := status\<rparr>) (nm_nodes nm)\<rparr>)"

section \<open>Well-formedness\<close>

text \<open>Every node is stored under its own identifier, the ring is well formed, and every ring
  position belongs to a registered node.\<close>

definition nm_ok :: "node_manager \<Rightarrow> bool" where
  "nm_ok nm \<longleftrightarrow> gomap_ok (nm_nodes nm)
     \<and> (\<forall>e \<in> set (nm_nodes nm). wn_ID (snd e) = fst e)
     \<and> ring_ok (nm_ring nm)
     \<and> (\<forall>e \<in> set (ring_hashMap (nm_ring nm)). has_key (nm_nodes nm) (snd e))"

lemma nm_okD:
  assumes "nm_ok nm"
  shows "gomap_ok (nm_nodes nm)" and "ring_ok (nm_ring nm)"
    and "map_of (nm_nodes nm) i = Some n \<Longrightarrow> wn_ID n = i"
    and "ring_map (nm_ring nm) p = Some i \<Longrightarrow> has_key (nm_nodes nm) i"
  using assms by (auto simp: nm_ok_def dest!: map_of_SomeD)

lemma nm_okI:
  assumes "gomap_ok (nm_nodes nm)" and "ring_ok (nm_ring nm)"
    and "\<And>i n. map_of (nm_nodes nm) i = Some n \<Longrightarrow> wn_ID n = i"
    and "\<And>p i. ring_map (nm_ring nm) p = Some i \<Longrightarrow> has_key (nm_nodes nm) i"
  shows "nm_ok nm"
proof -
  have "gomap_ok (ring_hashMap (nm_ring nm))" using assms(2) by (simp add: ring_ok_def)
  with assms show ?thesis by (auto simp: nm_ok_def gomap_ok_mem)
qed

lemma nm_ok_New: "nm_ok (NewNodeManager prefix)"
  by (simp add: nm_ok_def NewNodeManager_def ring_ok_New) (simp add: NewConsistentHashRing_def)

lemma snd_RegisterNode:
  "snd (RegisterNode etcd node nm) =
     nm\<lparr>nm_nodes := AList.update (wn_ID node) node (nm_nodes nm),
        nm_ring := ring_Add (wn_ID node) (nm_ring nm),
        nm_etcd := nm_etcd nm @ [EtcdPut (etcd_key nm (wn_ID node))
                                   (wn_Address node @ ''|'' @ int_string (wn_MaxVUs node))]\<rparr>"
  by (simp add: RegisterNode_def Let_def split: option.split)

lemma snd_UnregisterNode:
  "snd (UnregisterNode etcd ord nodeID nm) =
     nm\<lparr>nm_nodes := AList.delete nodeID (nm_nodes nm),
        nm_ring := ring_Remove ord nodeID (nm_ring nm),
        nm_etcd := nm_etcd nm @ [EtcdDelete (etcd_key nm nodeID)]\<rparr>"
  by (simp add: UnregisterNode_def Let_def split: option.split)

lemma nm_ok_RegisterNode: "nm_ok nm \<Longrightarrow> nm_ok (snd (RegisterNode etcd node nm))"
  by (rule nm_okI)
     (auto simp: snd_RegisterNode map_of_put has_key_put ring_map_Add gomap_ok_update ring_ok_Add
        dest: nm_okD split: if_splits)

lemma nm_ok_UnregisterNode:
  assumes "nm_ok nm" and "range_order ord (ring_hashMap (nm_ring nm))"
  shows "nm_ok (snd (UnregisterNode etcd ord nodeID nm))"
  using assms ring_Remove_spec [OF nm_okD(2) [OF assms(1)] assms(2)]
  by (intro nm_okI)
     (auto simp: snd_UnregisterNode map_of_del has_key_del gomap_ok_delete
        dest: nm_okD split: if_splits option.splits)

text \<open>An update of the fields of a stored node keeps the identifiers.\<close>

lemma nm_ok_node_update:
  assumes "nm_ok nm" and "map_of (nm_nodes nm) i = Some n" and "wn_ID n' = wn_ID n"
  shows "nm_ok (nm\<lparr>nm_nodes := AList.update i n' (nm_nodes nm)\<rparr>)"
  using assms
  by (intro nm_okI) (auto simp: map_of_put has_key_put gomap_ok_update dest: nm_okD split: if_splits)

lemma nm_ok_UpdateLastSeen: "nm_ok nm \<Longrightarrow> nm_ok (UpdateLastSeen i now nm)"
  by (auto simp: UpdateLastSeen_def intro: nm_ok_node_update split: option.split)

lemma nm_ok_UpdateStatus: "nm_ok nm \<Longrightarrow> nm_ok (UpdateStatus i st nm)"
  by (auto simp: UpdateStatus_def intro: nm_ok_node_update split: option.split)

lemmas nm_ok_intros = nm_ok_New nm_ok_RegisterNode nm_ok_UnregisterNode
  nm_ok_UpdateLastSeen nm_ok_UpdateStatus

section \<open>The registry interface\<close>

abbreviation nm_order :: "string list \<Rightarrow> node_manager \<Rightarrow> bool" where
  "nm_order ord nm \<equiv> range_order ord (nm_nodes nm)"

lemma set_GetNodes:
  "nm_ok nm \<Longrightarrow> nm_order ord nm \<Longrightarrow> set (GetNodes ord nm) = snd ` set (nm_nodes nm)"
  by (simp add: GetNodes_def set_range_entries nm_okD)

lemma ids_GetNodes: "nm_ok nm \<Longrightarrow> nm_order ord nm \<Longrightarrow> map wn_ID (GetNodes ord nm) = ord"
proof -
  assume ok: "nm_ok nm" and ord: "nm_order ord nm"
  have "set (range_entries ord (nm_nodes nm)) = set (nm_nodes nm)"
    using ord nm_okD(1) [OF ok] by (rule set_range_entries)
  then have "map (\<lambda>e. wn_ID (snd e)) (range_entries ord (nm_nodes nm)) = map fst (range_entries ord (nm_nodes nm))"
    using ok by (simp add: nm_ok_def)
  also have "\<dots> = ord" using ord by (simp add: fst_range_entries range_order_def)
  finally show ?thesis by (simp add: GetNodes_def o_def)
qed

interpretation nm_registry: node_registry nm_ok nm_order GetNodes GetNode
proof
  fix m ord assume m: "nm_ok m" "nm_order ord m"
  show "distinct (map wn_ID (GetNodes ord m))" using m by (simp add: ids_GetNodes range_order_def)
  fix i n
  have "GetNode i m = Some n \<longleftrightarrow> (i, n) \<in> set (nm_nodes m)"
    using gomap_ok_mem [OF nm_okD(1) [OF m(1)]] by (simp add: GetNode_def)
  moreover have "(k, n) \<in> set (nm_nodes m) \<Longrightarrow> wn_ID n = k" for k
    using m(1) by (auto simp: nm_ok_def)
  ultimately show "GetNode i m = Some n \<longleftrightarrow> n \<in> set (GetNodes ord m) \<and> wn_ID n = i"
    by (force simp: set_GetNodes [OF m])
qed

section \<open>Properties\<close>

text \<open>C34: type. Every operation of the node manager keeps it well formed: nodes stored under their
  own identifiers, a sorted ring whose positions all belong to registered nodes. This holds
  whether or not the etcd request of a registration or removal fails.\<close>

theorem node_manager_ok:
  assumes "nm_ok nm"
  shows "nm_ok (snd (RegisterNode etcd node nm))
    \<and> nm_ok (UpdateLastSeen i now nm) \<and> nm_ok (UpdateStatus i st nm)
    \<and> (\<forall>ord. range_order ord (ring_hashMap (nm_ring nm)) \<longrightarrow> nm_ok (snd (UnregisterNode etcd ord i nm)))"
  using assms by (simp add: nm_ok_intros)

theorem node_manager_ok_witness:
  "nm_ok (snd (RegisterNode (\<lambda>_. Some ''down'')
     \<lparr>wn_ID = ''w1'', wn_Address = ''h:1'', wn_MaxVUs = 10, wn_Status = WorkerStatusIdle,
      wn_Metadata = [], wn_LastSeen = 0\<rparr> (NewNodeManager ''/gosentinel'')))"
  using node_manager_ok [OF nm_ok_New] by blast

text \<open>On a well-formed node manager \<open>GetNodeForKey\<close> never reports an unknown node:
  it returns the registered node that owns the key's position on the ring, or reports that no node
  is available, and the latter only when the ring's answer is the empty identifier.\<close>

theorem GetNodeForKey_registered:
  assumes "nm_ok nm"
  shows "GetNodeForKey key nm =
    (case GetNode (ring_Get key (nm_ring nm)) nm of
       Some node \<Rightarrow> if ring_Get key (nm_ring nm) = '''' then Inl NoNodesAvailable else Inr node
     | None \<Rightarrow> Inl NoNodesAvailable)"
proof (cases "ring_Get key (nm_ring nm) = ''''")
  case False
  have ring: "ring_ok (nm_ring nm)" using assms by (rule nm_okD(2))
  have "ring_hashMap (nm_ring nm) \<noteq> []"
  proof
    assume "ring_hashMap (nm_ring nm) = []"
    with False ring show False by (simp add: ring_Get_lookup ring_lookup_def)
  qed
  with ring have "ring_Get key (nm_ring nm) \<in> ran (ring_map (nm_ring nm))" by (rule ring_Get_mem)
  then have "has_key (nm_nodes nm) (ring_Get key (nm_ring nm))"
    using nm_okD(4) [OF assms] by (auto simp: ran_def)
  with False show ?thesis by (auto simp: GetNodeForKey_def GetNode_def has_key_def Let_def)
qed (simp add: GetNodeForKey_def split: option.split)

theorem GetNodeForKey_registered_witness:
  "GetNodeForKey ''k'' (snd (RegisterNode (\<lambda>_. None)
     \<lparr>wn_ID = ''w1'', wn_Address = ''h:1'', wn_MaxVUs = 10, wn_Status = WorkerStatusIdle,
      wn_Metadata = [], wn_LastSeen = 0\<rparr> (NewNodeManager ''/gosentinel''))) =
   Inr \<lparr>wn_ID = ''w1'', wn_Address = ''h:1'', wn_MaxVUs = 10, wn_Status = WorkerStatusIdle,
      wn_Metadata = [], wn_LastSeen = 0\<rparr>"
  by (subst GetNodeForKey_registered [OF nm_ok_RegisterNode [OF nm_ok_New]])
     (simp add: snd_RegisterNode GetNode_def NewNodeManager_def ring_Get_single)

end
