(* ===== verification/Plan_Distributor.thy ===== *)
theory Plan_Distributor
  imports Node_Manager "HOL-Library.Char_ord" "HOL-Library.List_Lexorder"
begin

text \<open>
  \<open>PlanDistributor\<close> of \<open>internal/orchestrator/plan_distributor.go\<close>: the split of a plan's peak
  load over the registered workers, the split of each stage's target over the workers of a
  test, and the life of an active test. An \<open>*ActiveTest\<close> is reached through the distributor's
  map, so a method that locks the test and updates a field is an update of the map's entry.
  Every loop over a Go map takes the iteration order as an argument.
\<close>

section \<open>State\<close>

record active_test =
  at_TestID :: string
  at_Plan :: test_plan
  at_Workers :: "(string, int32) gomap"
  at_Status :: test_status
  at_done :: "(string, bool) gomap"

record plan_distributor =
  pd_activeTests :: "(string, active_test) gomap"

definition NewPlanDistributor :: plan_distributor where
  "NewPlanDistributor = \<lparr>pd_activeTests = []\<rparr>"

datatype dist_error =
    NoWorkerNodes
  | InsufficientCapacity int32 int32
  | TestNotFound string
  | NoWorkersForRebalancing

section \<open>Splitting the peak load over the workers\<close>

text \<open>The total is the largest stage target, as a running maximum from zero.\<close>

fun peak_target :: "int32 \<Rightarrow> stage list \<Rightarrow> int32" where
  "peak_target totalVUs [] = totalVUs"
| "peak_target totalVUs (st # sts) =
     peak_target (if totalVUs < st_TargetVUs st then st_TargetVUs st else totalVUs) sts"

fun total_capacity :: "int32 \<Rightarrow> worker_node list \<Rightarrow> int32" where
  "total_capacity c [] = c"
| "total_capacity c (n # ns) = total_capacity (i32 (c + wn_MaxVUs n)) ns"

text \<open>\<open>int32((float64(MaxVUs) / float64(totalCapacity)) * float64(totalVUs))\<close>\<close>

definition proportional_share :: "int32 \<Rightarrow> int32 \<Rightarrow> int32 \<Rightarrow> int32" where
  "proportional_share maxVUs totalCapacity totalVUs =
     f64_to_int32 (f64_mul (f64_div (f64_of_int maxVUs) (f64_of_int totalCapacity)) (f64_of_int totalVUs))"

fun share_pass ::
  "int32 \<Rightarrow> int32 \<Rightarrow> worker_node list \<Rightarrow> (string, int32) gomap \<Rightarrow> int32 \<Rightarrow> (string, int32) gomap \<times> int32" where
  "share_pass totalCapacity totalVUs [] distribution remaining = (distribution, remaining)"
| "share_pass totalCapacity totalVUs (node # nodes) distribution remaining =
     (if remaining \<le> 0 then (distribution, remaining)
      else
        let assigned = proportional_share (wn_MaxVUs node) totalCapacity totalVUs;
            assigned = (if wn_MaxVUs node < assigned then wn_MaxVUs node else assigned);
            assigned = (if remaining < assigned then remaining else assigned)
        in if 0 < assigned
           then share_pass totalCapacity totalVUs nodes
                  (AList.update (wn_ID node) assigned distribution) (i32 (remaining - assigned))
           else share_pass totalCapacity totalVUs nodes distribution remaining)"

text \<open>The loop that tops workers up to their capacity; rebalancing uses the same loop.\<close>

fun fill_pass ::
  "worker_node list \<Rightarrow> (string, int32) gomap \<Rightarrow> int32 \<Rightarrow> (string, int32) gomap \<times> int32" where
  "fill_pass [] distribution remaining = (distribution, remaining)"
| "fill_pass (node # nodes) distribution remaining =
     (if remaining \<le> 0 then (distribution, remaining)
      else
        let available = i32 (wn_MaxVUs node - get0 0 distribution (wn_ID node))
        in if 0 < available
           then let assigned = (if available < remaining then available else remaining)
                in fill_pass nodes
                     (AList.update (wn_ID node) (i32 (get0 0 distribution (wn_ID node) + assigned)) distribution)
                     (i32 (remaining - assigned))
           else fill_pass nodes distribution remaining)"

definition DistributePlan ::
  "string list \<Rightarrow> node_manager \<Rightarrow> string \<Rightarrow> test_plan \<Rightarrow> plan_distributor \<Rightarrow>
   (dist_error + (string, int32) gomap) \<times> plan_distributor" where
  "DistributePlan ord nm testID plan pd =
     (let nodes = GetNodes ord nm
      in if nodes = [] then (Inl NoWorkerNodes, pd)
         else
           let totalVUs = peak_target 0 (tp_Stages plan);
               totalCapacity = total_capacity 0 nodes
           in if totalCapacity < totalVUs then (Inl (InsufficientCapacity totalVUs totalCapacity), pd)
              else
                let dr = share_pass totalCapacity totalVUs nodes [] totalVUs;
                    dr = (if 0 < snd dr then fill_pass nodes (fst dr) (snd dr) else dr);
                    distribution = fst dr
                in (Inr distribution,
                    pd\<lparr>pd_activeTests := AList.update testID
                         \<lparr>at_TestID = testID, at_Plan = plan, at_Workers = distribution,
                          at_Status = TestStatusRunning, at_done = []\<rparr> (pd_activeTests pd)\<rparr>))"

section \<open>Splitting a stage's target over a test's workers\<close>

fun share_total :: "int32 \<Rightarrow> (string \<times> int32) list \<Rightarrow> int32" where
  "share_total t [] = t"
| "share_total t ((w, share) # es) = share_total (i32 (t + share)) es"

definition exact_share :: "int32 \<Rightarrow> int32 \<Rightarrow> int32 \<Rightarrow> f64" where
  "exact_share targetVUs share totalShare =
     f64_div (f64_mul (f64_of_int targetVUs) (f64_of_int share)) (f64_of_int totalShare)"

text \<open>The first loop: whole parts, their sum, and the fractional remainders in worker order.\<close>

fun whole_pass ::
  "(string, int32) gomap \<Rightarrow> int32 \<Rightarrow> int32 \<Rightarrow> string list \<Rightarrow>
   (string, int32) gomap \<Rightarrow> int32 \<Rightarrow> (string \<times> f64) list \<Rightarrow>
   (string, int32) gomap \<times> int32 \<times> (string \<times> f64) list" where
  "whole_pass distribution targetVUs totalShare [] allocation assigned remainders = (allocation, assigned, remainders)"
| "whole_pass distribution targetVUs totalShare (w # ws) allocation assigned remainders =
     (let exact = exact_share targetVUs (get0 0 distribution w) totalShare;
          whole = f64_to_int32 exact
      in whole_pass distribution targetVUs totalShare ws (AList.update w whole allocation) (i32 (assigned + whole))
           (remainders @ [(w, f64_sub exact (f64_of_int whole))]))"

text \<open>\<open>sort.SliceStable\<close> by decreasing remainder.\<close>

fun insert_frac :: "string \<times> f64 \<Rightarrow> (string \<times> f64) list \<Rightarrow> (string \<times> f64) list" where
  "insert_frac x [] = [x]"
| "insert_frac x (y # ys) = (if f64_less (snd x) (snd y) then y # insert_frac x ys else x # y # ys)"

fun sort_frac :: "(string \<times> f64) list \<Rightarrow> (string \<times> f64) list" where
  "sort_frac [] = []"
| "sort_frac (x # xs) = insert_frac x (sort_frac xs)"

fun hand_out ::
  "(string, int32) gomap \<Rightarrow> int32 \<Rightarrow> (string \<times> f64) list \<Rightarrow> (string, int32) gomap \<Rightarrow> int32 \<Rightarrow>
   (string, int32) gomap" where
  "hand_out distribution targetVUs [] allocation assigned = allocation"
| "hand_out distribution targetVUs ((w, fr) # rs) allocation assigned =
     (if assigned < targetVUs
      then if get0 0 distribution w \<le> get0 0 allocation w then hand_out distribution targetVUs rs allocation assigned
           else hand_out distribution targetVUs rs (AList.update w (i32 (get0 0 allocation w + 1)) allocation)
                  (i32 (assigned + 1))
      else allocation)"

definition allocateStageVUs ::
  "string list \<Rightarrow> (string, int32) gomap \<Rightarrow> int32 \<Rightarrow> (string, int32) gomap" where
  "allocateStageVUs ord distribution targetVUs =
     (if targetVUs \<le> 0 \<or> distribution = [] then []
      else
        let es = range_entries ord distribution;
            totalShare = share_total 0 es
        in if totalShare \<le> 0 then []
           else
             let awr = whole_pass distribution targetVUs totalShare (sort (map fst es)) [] 0 []
             in hand_out distribution targetVUs (sort_frac (snd (snd awr))) (fst awr) (fst (snd awr)))"

section \<open>Active tests\<close>

definition GetActiveTest :: "string \<Rightarrow> plan_distributor \<Rightarrow> active_test option" where
  "GetActiveTest testID pd = map_of (pd_activeTests pd) testID"

text \<open>\<open>Snapshot\<close> copies the worker map entry by entry, in the order of iteration.\<close>

fun copy_map :: "('k \<times> 'v) list \<Rightarrow> ('k, 'v) gomap \<Rightarrow> ('k, 'v) gomap" where
  "copy_map [] m = m"
| "copy_map ((k, v) # es) m = copy_map es (AList.update k v m)"

definition Snapshot :: "string list \<Rightarrow> active_test \<Rightarrow> test_status \<times> (string, int32) gomap" where
  "Snapshot ord t = (at_Status t, copy_map (range_entries ord (at_Workers t)) [])"

definition SetStatus :: "string \<Rightarrow> test_status \<Rightarrow> plan_distributor \<Rightarrow> plan_distributor" where
  "SetStatus testID status pd =
     (case map_of (pd_activeTests pd) testID of
        None \<Rightarrow> pd
      | Some test \<Rightarrow> pd\<lparr>pd_activeTests :=
          AList.update testID (test\<lparr>at_Status := status\<rparr>) (pd_activeTests pd)\<rparr>)"

definition MarkWorkerDone :: "string \<Rightarrow> string \<Rightarrow> plan_distributor \<Rightarrow> bool \<times> plan_distributor" where
  "MarkWorkerDone testID workerID pd =
     (case map_of (pd_activeTests pd) testID of
        None \<Rightarrow> (False, pd)
      | Some test \<Rightarrow>
          if \<not> has_key (at_Workers test) workerID then (False, pd)
          else
            let test' = test\<lparr>at_done := AList.update workerID True (at_done test)\<rparr>;
                pd' = pd\<lparr>pd_activeTests := AList.update testID test' (pd_activeTests pd)\<rparr>
            in if at_Status test' \<noteq> TestStatusRunning then (False, pd')
               else (length (at_Workers test') \<le> length (at_done test'), pd'))"

definition RemoveActiveTest :: "string \<Rightarrow> plan_distributor \<Rightarrow> plan_distributor" where
  "RemoveActiveTest testID pd = pd\<lparr>pd_activeTests := AList.delete testID (pd_activeTests pd)\<rparr>"

definition RebalanceTest ::
  "string list \<Rightarrow> node_manager \<Rightarrow> string \<Rightarrow> string \<Rightarrow> plan_distributor \<Rightarrow> dist_error option \<times> plan_distributor" where
  "RebalanceTest ord nm testID failedWorkerID pd =
     (case map_of (pd_activeTests pd) testID of
        None \<Rightarrow> (Some (TestNotFound testID), pd)
      | Some test \<Rightarrow>
          let reassigned = get0 0 (at_Workers test) failedWorkerID;
              workers = AList.delete failedWorkerID (at_Workers test);
              store = (\<lambda>ws. pd\<lparr>pd_activeTests :=
                 AList.update testID (test\<lparr>at_Workers := ws\<rparr>) (pd_activeTests pd)\<rparr>);
              availableNodes = filter (\<lambda>n. wn_ID n \<noteq> failedWorkerID) (GetNodes ord nm)
          in if availableNodes = [] then (Some NoWorkersForRebalancing, store workers)
             else (None, store (fst (fill_pass availableNodes workers reassigned))))"

section \<open>The peak load\<close>

lemma peak_target_spec:
  "t \<le> peak_target t sts \<and> (\<forall>st \<in> set sts. st_TargetVUs st \<le> peak_target t sts)
   \<and> (peak_target t sts = t \<or> peak_target t sts \<in> st_TargetVUs ` set sts)"
proof (induction sts arbitrary: t)
  case (Cons st sts)
  show ?case using Cons.IH [of "if t < st_TargetVUs st then st_TargetVUs st else t"]
    by (auto split: if_splits)
qed simp

lemma peak_target_ge: "st \<in> set sts \<Longrightarrow> st_TargetVUs st \<le> peak_target t sts"
  using peak_target_spec by blast

lemma peak_target_nonneg [simp]: "0 \<le> peak_target 0 sts"
  using peak_target_spec [of 0] by blast

lemma peak_target_le:
  "t \<le> b \<Longrightarrow> \<forall>st \<in> set sts. st_TargetVUs st \<le> b \<Longrightarrow> peak_target t sts \<le> b"
  by (induction sts arbitrary: t) auto

section \<open>Capacity\<close>

definition caps_ok :: "worker_node list \<Rightarrow> bool" where
  "caps_ok ns \<longleftrightarrow> (\<forall>n \<in> set ns. 0 \<le> wn_MaxVUs n \<and> in32 (wn_MaxVUs n))"

abbreviation cap_sum :: "worker_node list \<Rightarrow> int" where
  "cap_sum ns \<equiv> sum_list (map wn_MaxVUs ns)"

lemma caps_ok_simps [simp]:
  "caps_ok []"
  "caps_ok (n # ns) \<longleftrightarrow> 0 \<le> wn_MaxVUs n \<and> in32 (wn_MaxVUs n) \<and> caps_ok ns"
  by (auto simp: caps_ok_def)

text \<open>A wrapped capacity never exceeds the true one, and is exact while that fits.\<close>

lemma total_capacity_le: "caps_ok ns \<Longrightarrow> - (2 ^ 31) \<le> c \<Longrightarrow> total_capacity c ns \<le> c + cap_sum ns"
proof (induction ns arbitrary: c)
  case (Cons n ns)
  have "- (2 ^ 31) \<le> i32 (c + wn_MaxVUs n)" using in32_i32 by (simp add: in32_def)
  moreover have "i32 (c + wn_MaxVUs n) \<le> c + wn_MaxVUs n"
    using Cons.prems by (intro i32_le_of_ge) simp
  ultimately show ?case using Cons.IH [of "i32 (c + wn_MaxVUs n)"] Cons.prems(1) by simp
qed simp

lemma cap_sum_nonneg: "caps_ok ns \<Longrightarrow> 0 \<le> cap_sum ns"
  by (induction ns) auto

lemma total_capacity_exact:
  "caps_ok ns \<Longrightarrow> 0 \<le> c \<Longrightarrow> c + cap_sum ns < 2 ^ 31 \<Longrightarrow> total_capacity c ns = c + cap_sum ns"
proof (induction ns arbitrary: c)
  case (Cons n ns)
  have "0 \<le> cap_sum ns" using Cons.prems(1) by (simp add: cap_sum_nonneg)
  then have "in32 (c + wn_MaxVUs n)" using Cons.prems by (simp add: in32_def)
  with Cons show ?case by (simp add: i32_id)
qed simp

section \<open>The two passes\<close>

text \<open>
  What both passes keep: distinct keys, the conservation law (assigned plus remaining is the
  peak), and every assignment positive and within the capacity of a node with that identifier.
\<close>

definition split_ok :: "worker_node list \<Rightarrow> int \<Rightarrow> (string, int32) gomap \<Rightarrow> int \<Rightarrow> bool" where
  "split_ok ns peak d r \<longleftrightarrow> gomap_ok d \<and> 0 \<le> r \<and> r \<le> peak \<and> vsum d + r = peak
     \<and> (\<forall>w v. map_of d w = Some v \<longrightarrow> 0 < v \<and> (\<exists>n \<in> set ns. wn_ID n = w \<and> v \<le> wn_MaxVUs n))"

lemma split_okD:
  assumes "split_ok ns peak d r"
  shows "gomap_ok d" and "0 \<le> r" and "r \<le> peak" and "vsum d + r = peak"
    and "map_of d w = Some v \<Longrightarrow> 0 < v \<and> (\<exists>n \<in> set ns. wn_ID n = w \<and> v \<le> wn_MaxVUs n)"
  using assms by (auto simp: split_ok_def)

lemma get0_nonneg: "split_ok ns peak d r \<Longrightarrow> 0 \<le> get0 0 d w"
  by (auto simp: get0_def dest!: split_okD(5) split: option.split)

text \<open>One assignment step of either pass.\<close>

lemma split_ok_assign:
  assumes ok: "split_ok ns peak d r" and t: "in32 peak" and n: "n \<in> set ns"
    and a: "0 < a" "a \<le> r" "get0 0 d (wn_ID n) + a \<le> wn_MaxVUs n" and c: "in32 (wn_MaxVUs n)"
  shows "split_ok ns peak (AList.update (wn_ID n) (i32 (get0 0 d (wn_ID n) + a)) d) (i32 (r - a))"
proof -
  have g: "0 \<le> get0 0 d (wn_ID n)" using ok by (rule get0_nonneg)
  have "i32 (get0 0 d (wn_ID n) + a) = get0 0 d (wn_ID n) + a"
    using g a c by (intro i32_id) (simp add: in32_def)
  moreover have "i32 (r - a) = r - a"
    using a t split_okD(2,3) [OF ok] by (intro i32_id) (simp add: in32_def)
  ultimately show ?thesis
    using ok n a g by (auto simp: split_ok_def gomap_ok_update vsum_update map_of_put)
qed

lemma share_pass_ok:
  assumes "set nodes \<subseteq> set ns" and "distinct (map wn_ID nodes)" and "caps_ok ns" and "in32 peak"
    and "split_ok ns peak d r" and "\<forall>n \<in> set nodes. \<not> has_key d (wn_ID n)"
  shows "case share_pass cap tot nodes d r of (d', r') \<Rightarrow> split_ok ns peak d' r'"
  using assms
proof (induction nodes arbitrary: d r)
  case (Cons n nodes)
  have n: "n \<in> set ns" and ns: "0 \<le> wn_MaxVUs n" "in32 (wn_MaxVUs n)"
    using Cons.prems(1,3) by (auto simp: caps_ok_def)
  have g0: "get0 0 d (wn_ID n) = 0" using Cons.prems(6) by (simp add: get0_def has_key_def)
  have rest: "set nodes \<subseteq> set ns" "distinct (map wn_ID nodes)" using Cons.prems by auto
  have neq: "wn_ID m \<noteq> wn_ID n" if "m \<in> set nodes" for m
    using Cons.prems(2) that by (metis distinct.simps(2) image_eqI list.map(2) list.set_map)
  define a where "a = (let a = proportional_share (wn_MaxVUs n) cap tot;
       a = (if wn_MaxVUs n < a then wn_MaxVUs n else a) in if r < a then r else a)"
  have a: "a \<le> r" "a \<le> wn_MaxVUs n" by (auto simp: a_def Let_def)
  have step: "share_pass cap tot (n # nodes) d r = (if r \<le> 0 then (d, r) else
      if 0 < a then share_pass cap tot nodes (AList.update (wn_ID n) a d) (i32 (r - a))
      else share_pass cap tot nodes d r)"
    by (simp add: a_def Let_def)
  show ?case
  proof (cases "r \<le> 0 \<or> a \<le> 0")
    case True
    then show ?thesis using Cons.IH [OF rest Cons.prems(3,4,5)] Cons.prems(5,6) unfolding step by auto
  next
    case False
    have "in32 a" using a ns(2) False by (simp add: in32_def)
    then have "split_ok ns peak (AList.update (wn_ID n) a d) (i32 (r - a))"
      using split_ok_assign [OF Cons.prems(5,4) n _ a(1) _ ns(2)] g0 a(2) False by (simp add: i32_id)
    moreover have "\<forall>m \<in> set nodes. \<not> has_key (AList.update (wn_ID n) a d) (wn_ID m)"
      using Cons.prems(2,6) neq by (auto simp: has_key_put)
    ultimately show ?thesis using Cons.IH [OF rest Cons.prems(3,4)] False unfolding step by simp
  qed
qed simp

text \<open>The fill pass ends with nothing remaining or every visited worker at its capacity.\<close>

lemma fill_pass_ok:
  assumes "set nodes \<subseteq> set ns" and "distinct (map wn_ID nodes)" and "caps_ok ns" and "in32 peak"
    and "split_ok ns peak d r" and "\<forall>n \<in> set nodes. get0 0 d (wn_ID n) \<le> wn_MaxVUs n"
  shows "case fill_pass nodes d r of (d', r') \<Rightarrow>
    split_ok ns peak d' r' \<and> (r' = 0 \<or> (\<forall>n \<in> set nodes. get0 0 d' (wn_ID n) = wn_MaxVUs n))
    \<and> (\<forall>w. w \<notin> wn_ID ` set nodes \<longrightarrow> get0 0 d' w = get0 0 d w)"
  using assms
proof (induction nodes arbitrary: d r)
  case (Cons n nodes)
  have n: "n \<in> set ns" and ns: "0 \<le> wn_MaxVUs n" "in32 (wn_MaxVUs n)"
    using Cons.prems(1,3) by (auto simp: caps_ok_def)
  have rest: "set nodes \<subseteq> set ns" "distinct (map wn_ID nodes)" using Cons.prems by auto
  have neq: "wn_ID m \<noteq> wn_ID n" if "m \<in> set nodes" for m
    using Cons.prems(2) that by (metis distinct.simps(2) image_eqI list.map(2) list.set_map)
  have fresh: "wn_ID n \<notin> wn_ID ` set nodes" using Cons.prems(2) by auto
  have g: "0 \<le> get0 0 d (wn_ID n)" "get0 0 d (wn_ID n) \<le> wn_MaxVUs n"
    using Cons.prems(5,6) get0_nonneg by auto
  have av: "i32 (wn_MaxVUs n - get0 0 d (wn_ID n)) = wn_MaxVUs n - get0 0 d (wn_ID n)"
    using g ns by (intro i32_id) (simp add: in32_def)
  have r0: "0 \<le> r" using Cons.prems(5) by (rule split_okD)
  show ?case
  proof (cases "r \<le> 0")
    case True
    with r0 Cons.prems(5) show ?thesis by simp
  next
    case r: False
    show ?thesis
    proof (cases "get0 0 d (wn_ID n) < wn_MaxVUs n")
      case True
      define a where "a = (if wn_MaxVUs n - get0 0 d (wn_ID n) < r then wn_MaxVUs n - get0 0 d (wn_ID n) else r)"
      have a: "0 < a" "a \<le> r" "get0 0 d (wn_ID n) + a \<le> wn_MaxVUs n" using True r by (auto simp: a_def)
      have eq: "i32 (get0 0 d (wn_ID n) + a) = get0 0 d (wn_ID n) + a" "i32 (r - a) = r - a"
        using a g ns Cons.prems(4) split_okD(2,3) [OF Cons.prems(5)]
        by (auto intro!: i32_id simp: in32_def)
      let ?d = "AList.update (wn_ID n) (i32 (get0 0 d (wn_ID n) + a)) d" and ?r = "i32 (r - a)"
      have step: "fill_pass (n # nodes) d r = fill_pass nodes ?d ?r"
        using r True av by (simp add: a_def Let_def)
      have ok: "split_ok ns peak ?d ?r"
        by (rule split_ok_assign [OF Cons.prems(5,4) n a ns(2)])
      have "\<forall>m \<in> set nodes. get0 0 ?d (wn_ID m) \<le> wn_MaxVUs m"
        using Cons.prems(6) neq by (auto simp: get0_put)
      note IH = Cons.IH [OF rest Cons.prems(3,4) ok this]
      obtain d' r' where dr: "fill_pass nodes ?d ?r = (d', r')" by fastforce
      have keep: "get0 0 d' (wn_ID n) = get0 0 d (wn_ID n) + a"
        using IH fresh unfolding dr by (simp add: get0_put eq)
      have "r' = 0 \<or> get0 0 d' (wn_ID n) = wn_MaxVUs n"
      proof (cases "a = r")
        case True
        then have "?r = 0" by (simp add: i32_def)
        then have "r' = 0" using dr by (cases nodes) auto
        then show ?thesis ..
      next
        case False
        with a_def keep show ?thesis by (auto split: if_splits)
      qed
      with IH show ?thesis unfolding step dr by (auto simp: get0_put)
    next
      case False
      with g have full: "get0 0 d (wn_ID n) = wn_MaxVUs n" by simp
      then have "fill_pass (n # nodes) d r = fill_pass nodes d r" using r av by simp
      then show ?thesis
        using Cons.IH [OF rest Cons.prems(3,4,5)] Cons.prems(6) full fresh
        by (auto split: prod.splits)
    qed
  qed
qed simp

text \<open>Every key of a split belongs to a node, so its sum is the sum over the nodes.\<close>

lemma vsum_over_ids:
  assumes "gomap_ok d" and "distinct ids" and "\<forall>w v. map_of d w = Some v \<longrightarrow> w \<in> set ids"
  shows "vsum d = sum_list (map (get0 0 d) ids)"
  using assms
proof (induction ids arbitrary: d)
  case Nil
  then have "d = []" by (cases d) (auto split: if_splits)
  then show ?case by simp
next
  case (Cons i ids)
  let ?d = "AList.delete i d"
  have "gomap_ok ?d" using Cons.prems(1) by (rule gomap_ok_delete)
  moreover have "\<forall>w v. map_of ?d w = Some v \<longrightarrow> w \<in> set ids"
    using Cons.prems(3) by (auto simp: map_of_del split: if_splits)
  ultimately have "vsum ?d = sum_list (map (get0 0 ?d) ids)" using Cons by simp
  moreover have "map (get0 0 ?d) ids = map (get0 0 d) ids"
    using Cons.prems(2) by (auto simp: get0_def map_of_del)
  ultimately show ?case using vsum_delete [OF Cons.prems(1), of i] by simp
qed

lemma fill_pass_total:
  assumes "distinct (map wn_ID ns)" and "caps_ok ns" and "in32 peak" and "peak \<le> cap_sum ns"
    and "split_ok ns peak d r"
  shows "split_ok ns peak (fst (fill_pass ns d r)) 0"
proof -
  have "\<forall>n \<in> set ns. get0 0 d (wn_ID n) \<le> wn_MaxVUs n"
  proof
    fix n assume n: "n \<in> set ns"
    show "get0 0 d (wn_ID n) \<le> wn_MaxVUs n"
    proof (cases "map_of d (wn_ID n)")
      case None
      with n assms(2) show ?thesis by (simp add: get0_def caps_ok_def)
    next
      case (Some v)
      then obtain m where "m \<in> set ns" "wn_ID m = wn_ID n" "v \<le> wn_MaxVUs m"
        using split_okD(5) [OF assms(5)] by blast
      moreover from this(1,2) n assms(1) have "m = n" by (auto simp: distinct_map inj_on_def)
      ultimately show ?thesis using Some by (simp add: get0_def)
    qed
  qed
  from fill_pass_ok [OF subset_refl assms(1,2,3,5) this]
  obtain d' r' where dr: "fill_pass ns d r = (d', r')" and ok: "split_ok ns peak d' r'"
    and full: "r' = 0 \<or> (\<forall>n \<in> set ns. get0 0 d' (wn_ID n) = wn_MaxVUs n)"
    by (auto split: prod.splits)
  have "r' = 0"
  proof (rule ccontr)
    assume "r' \<noteq> 0"
    with full have "map (get0 0 d') (map wn_ID ns) = map wn_MaxVUs ns" by simp
    moreover have "vsum d' = sum_list (map (get0 0 d') (map wn_ID ns))"
      using split_okD(1,5) [OF ok] by (intro vsum_over_ids [OF _ assms(1)]) auto
    ultimately have "vsum d' = cap_sum ns" by (simp only:)
    with split_okD(2,4) [OF ok] \<open>r' \<noteq> 0\<close> assms(4) show False by simp
  qed
  with dr ok show ?thesis by simp
qed

section \<open>Distributing a plan\<close>

context node_registry
begin

text \<open>The two passes over a registry's nodes hand out exactly the peak, to registered nodes only.\<close>

lemma passes_split:
  fixes m :: 'm and ord :: 'o and cap peak :: int32
  assumes "valid m" and "order_ok ord m" and "caps_ok (nodes ord m)"
    and "0 \<le> peak" and "in32 peak" and "peak \<le> cap_sum (nodes ord m)"
  defines "dr \<equiv> share_pass cap peak (nodes ord m) [] peak"
  defines "dr' \<equiv> (if 0 < snd dr then fill_pass (nodes ord m) (fst dr) (snd dr) else dr)"
  shows "gomap_ok (fst dr')" and "vsum (fst dr') = peak"
    and "map_of (fst dr') w = Some v \<Longrightarrow> 0 < v \<and> (\<exists>n. lookup w m = Some n \<and> v \<le> wn_MaxVUs n)"
proof -
  have dist: "distinct (map wn_ID (nodes ord m))" using assms(1,2) by (rule distinct_ids)
  have "split_ok (nodes ord m) peak [] peak" using assms(4) by (simp add: split_ok_def)
  then have ok: "split_ok (nodes ord m) peak (fst dr) (snd dr)"
    using share_pass_ok [OF subset_refl dist assms(3,5)]
    by (simp add: dr_def has_key_def case_prod_unfold)
  have ok': "split_ok (nodes ord m) peak (fst dr') 0"
  proof (cases "0 < snd dr")
    case True
    then show ?thesis using fill_pass_total [OF dist assms(3,5,6) ok] by (simp add: dr'_def)
  next
    case False
    with split_okD(2) [OF ok] have "snd dr = 0" by simp
    with ok show ?thesis by (simp add: dr'_def)
  qed
  show "gomap_ok (fst dr')" and "vsum (fst dr') = peak" using split_okD(1,4) [OF ok'] by simp_all
  show "map_of (fst dr') w = Some v \<Longrightarrow> 0 < v \<and> (\<exists>n. lookup w m = Some n \<and> v \<le> wn_MaxVUs n)"
    using split_okD(5) [OF ok'] lookup_iff [OF assms(1,2)] by blast
qed

lemma cap_sum_order: "valid m \<Longrightarrow> order_ok o1 m \<Longrightarrow> order_ok o2 m \<Longrightarrow> cap_sum (nodes o1 m) = cap_sum (nodes o2 m)"
  by (rule sum_nodes)

end

text \<open>Every registered node has a capacity of type \<open>int32\<close> that is not negative.\<close>

definition nm_caps_ok :: "node_manager \<Rightarrow> bool" where
  "nm_caps_ok nm \<longleftrightarrow> (\<forall>e \<in> set (nm_nodes nm). 0 \<le> wn_MaxVUs (snd e) \<and> in32 (wn_MaxVUs (snd e)))"

definition nm_capacity :: "node_manager \<Rightarrow> int" where
  "nm_capacity nm = sum_list (map (\<lambda>e. wn_MaxVUs (snd e)) (nm_nodes nm))"

definition plan_ok :: "test_plan \<Rightarrow> bool" where
  "plan_ok plan \<longleftrightarrow> (\<forall>st \<in> set (tp_Stages plan). in32 (st_TargetVUs st))"

abbreviation plan_peak :: "test_plan \<Rightarrow> int32" where
  "plan_peak plan \<equiv> peak_target 0 (tp_Stages plan)"

lemma caps_ok_GetNodes:
  assumes "nm_ok nm" and "nm_order ord nm" and "nm_caps_ok nm"
  shows "caps_ok (GetNodes ord nm)"
  using assms(3) unfolding caps_ok_def nm_caps_ok_def set_GetNodes [OF assms(1,2)] by blast

lemma cap_sum_GetNodes:
  assumes "nm_ok nm" and "nm_order ord nm"
  shows "cap_sum (GetNodes ord nm) = nm_capacity nm"
proof -
  have "mset (range_entries ord (nm_nodes nm)) = mset (nm_nodes nm)"
    using assms(2) nm_okD(1) [OF assms(1)] by (rule mset_range_entries)
  then have "image_mset (\<lambda>e. wn_MaxVUs (snd e)) (mset (range_entries ord (nm_nodes nm))) =
      image_mset (\<lambda>e. wn_MaxVUs (snd e)) (mset (nm_nodes nm))" by (rule arg_cong)
  then have "sum_mset (mset (map (\<lambda>e. wn_MaxVUs (snd e)) (range_entries ord (nm_nodes nm)))) =
      sum_mset (mset (map (\<lambda>e. wn_MaxVUs (snd e)) (nm_nodes nm)))" by (simp only: mset_map)
  then show ?thesis unfolding GetNodes_def nm_capacity_def sum_mset_sum_list map_map o_def .
qed

lemma GetNodes_Nil: "nm_ok nm \<Longrightarrow> nm_order ord nm \<Longrightarrow> GetNodes ord nm = [] \<longleftrightarrow> nm_nodes nm = []"
  using set_GetNodes [of nm ord] by auto

lemma in32_plan_peak: "plan_ok plan \<Longrightarrow> in32 (plan_peak plan)"
proof -
  assume "plan_ok plan"
  then have "plan_peak plan \<le> 2 ^ 31 - 1"
    by (intro peak_target_le) (auto simp: plan_ok_def in32_def)
  then show ?thesis using peak_target_nonneg [of "tp_Stages plan"] unfolding in32_def by linarith
qed

text \<open>The active test a successful distribution stores.\<close>

definition fresh_test :: "string \<Rightarrow> test_plan \<Rightarrow> (string, int32) gomap \<Rightarrow> active_test" where
  "fresh_test testID plan d = \<lparr>at_TestID = testID, at_Plan = plan, at_Workers = d,
     at_Status = TestStatusRunning, at_done = []\<rparr>"

definition split_of_plan :: "node_manager \<Rightarrow> test_plan \<Rightarrow> (string, int32) gomap \<Rightarrow> bool" where
  "split_of_plan nm plan d \<longleftrightarrow> gomap_ok d \<and> vsum d = plan_peak plan
     \<and> (\<forall>w v. map_of d w = Some v \<longrightarrow> 0 < v \<and> (\<exists>n. GetNode w nm = Some n \<and> v \<le> wn_MaxVUs n))"

lemma DistributePlan_cases:
  assumes "nm_ok nm" and "nm_order ord nm" and "nm_caps_ok nm" and "plan_ok plan"
  obtains (nodes) "nm_nodes nm = []" "DistributePlan ord nm testID plan pd = (Inl NoWorkerNodes, pd)"
    | (capacity) "nm_nodes nm \<noteq> []" "total_capacity 0 (GetNodes ord nm) < plan_peak plan"
        "DistributePlan ord nm testID plan pd =
           (Inl (InsufficientCapacity (plan_peak plan) (total_capacity 0 (GetNodes ord nm))), pd)"
    | (split) d where "nm_nodes nm \<noteq> []" "plan_peak plan \<le> total_capacity 0 (GetNodes ord nm)"
        "split_of_plan nm plan d"
        "DistributePlan ord nm testID plan pd =
           (Inr d, pd\<lparr>pd_activeTests := AList.update testID (fresh_test testID plan d) (pd_activeTests pd)\<rparr>)"
proof (cases "GetNodes ord nm = []")
  case True
  then show ?thesis using nodes GetNodes_Nil [OF assms(1,2)] by (simp add: DistributePlan_def)
next
  case False
  then have ne: "nm_nodes nm \<noteq> []" using GetNodes_Nil [OF assms(1,2)] by simp
  let ?cap = "total_capacity 0 (GetNodes ord nm)"
  show ?thesis
  proof (cases "?cap < plan_peak plan")
    case True
    then show ?thesis using capacity [OF ne] False by (simp add: DistributePlan_def)
  next
    case enough: False
    note caps = caps_ok_GetNodes [OF assms(1,2,3)]
    have "?cap \<le> cap_sum (GetNodes ord nm)" using total_capacity_le [OF caps, of 0] by simp
    with enough have le: "plan_peak plan \<le> cap_sum (GetNodes ord nm)" by simp
    note P = nm_registry.passes_split [OF assms(1,2) caps peak_target_nonneg in32_plan_peak [OF assms(4)] le,
      where cap = ?cap]
    define dr where "dr = share_pass ?cap (plan_peak plan) (GetNodes ord nm) [] (plan_peak plan)"
    define dr' where "dr' = (if 0 < snd dr then fill_pass (GetNodes ord nm) (fst dr) (snd dr) else dr)"
    have "split_of_plan nm plan (fst dr')"
      using P unfolding split_of_plan_def dr'_def dr_def by blast
    moreover have "DistributePlan ord nm testID plan pd =
        (Inr (fst dr'), pd\<lparr>pd_activeTests := AList.update testID (fresh_test testID plan (fst dr')) (pd_activeTests pd)\<rparr>)"
      unfolding DistributePlan_def Let_def using False enough
      by (simp only: if_False fresh_test_def dr_def [symmetric] dr'_def [symmetric])
    ultimately show ?thesis using split ne enough by (meson not_less)
  qed
qed

section \<open>The stage split\<close>

lemma share_total_eq: "in32 t \<Longrightarrow> share_total t es = i32 (t + vsum es)"
proof (induction es arbitrary: t)
  case (Cons e es)
  then show ?case by (cases e) (simp add: i32_i32_add add.assoc)
qed (simp add: i32_id)

lemma if_if_or: "(if a then x else if b then x else y) = (if a \<or> b then x else y)"
  by simp

text \<open>The order in which the map is iterated does not matter: the sum commutes and the keys are
  sorted.\<close>

lemma allocateStageVUs_alt:
  assumes "gomap_ok d" and "range_order ord d"
  shows "allocateStageVUs ord d target =
    (if target \<le> 0 \<or> d = [] \<or> i32 (vsum d) \<le> 0 then []
     else let awr = whole_pass d target (i32 (vsum d)) (sort (map fst d)) [] 0 []
          in hand_out d target (sort_frac (snd (snd awr))) (fst awr) (fst (snd awr)))"
proof -
  have "vsum (range_entries ord d) = vsum d" using assms(2,1) by (intro vsum_perm mset_range_entries)
  then have total: "share_total 0 (range_entries ord d) = i32 (vsum d)"
    by (simp add: share_total_eq in32_def)
  have "map fst (range_entries ord d) = ord"
    using assms(2) by (intro fst_range_entries) (simp add: range_order_def)
  then have "sort (map fst (range_entries ord d)) = sort (map fst d)"
    using assms by (intro sorted_distinct_set_unique) (simp_all add: range_order_def gomap_ok_def)
  then show ?thesis unfolding allocateStageVUs_def Let_def total by (simp only: if_if_or disj_assoc)
qed

text \<open>One worker's whole part is the integer quotient.\<close>

lemma exact_share_floor:
  assumes "0 \<le> t" and "0 \<le> c" and "c \<le> S" and "0 < S" and "S < 2 ^ 31" and "t \<le> S" and "t * S < 2 ^ 53"
  shows "f64_to_int32 (exact_share t c S) = t * c div S"
proof -
  define p where "p = t * c"
  have p: "0 \<le> p" "p < 2 ^ 53"
    using assms mult_left_mono [of c S t] by (simp_all add: p_def)
  have "f64_mul (f64_of_int t) (f64_of_int c) = f64_round (of_int p)"
    using assms by (simp add: f64_of_int_small p_def)
  also have "\<dots> = Fin (of_int p)"
    using f64_of_int_small [OF p] by (simp add: f64_of_int_def)
  finally have num: "f64_mul (f64_of_int t) (f64_of_int c) = Fin (of_int p)" .
  have S: "f64_of_int S = Fin (of_int S)" using assms by (simp add: f64_of_int_small)
  let ?x = "of_int p / of_int S :: rat"
  have x0: "0 \<le> ?x" using p(1) assms(4) by simp
  have "of_int p * 1 \<le> (of_int p * of_int S :: rat)"
    using p(1) assms(4) by (intro mult_left_mono) simp_all
  then have "?x \<le> of_int p" using assms(4) by (simp add: pos_divide_le_eq)
  moreover have "(of_int p :: rat) < 2 ^ 53"
    using p(2) by (metis of_int_less_iff of_int_numeral of_int_power)
  ultimately have x53: "?x < 2 ^ 53" by (rule le_less_trans)
  have "exact_share t c S = f64_round ?x" using assms(4) by (simp add: exact_share_def num S)
  then have e: "exact_share t c S = Fin (frnd ?x)" using f64_round_small [OF x0 x53] by (simp only:)
  have "\<lfloor>frnd ?x\<rfloor> = p div S" using p assms by (intro floor_frnd_quotient) simp_all
  moreover have "0 \<le> frnd ?x" using x0 x53 by (rule frnd_nonneg)
  ultimately have "rat_trunc (frnd ?x) = p div S" by (simp add: rat_trunc_def)
  moreover have "0 \<le> p div S" using p(1) assms(4) by (simp add: pos_imp_zdiv_nonneg_iff)
  moreover have "p div S \<le> t"
    using assms mult_left_mono [of c S t] zdiv_mono1 [of p "t * S" S] by (simp add: p_def)
  ultimately show ?thesis using assms by (simp add: e in32_def p_def [symmetric])
qed

definition whole_part :: "(string, int32) gomap \<Rightarrow> int32 \<Rightarrow> string \<Rightarrow> int" where
  "whole_part d t w = t * get0 0 d w div vsum d"

text \<open>The shares the split is defined on: positive, and their sum in the range of \<open>int32\<close>.\<close>

definition shares_ok :: "(string, int32) gomap \<Rightarrow> int32 \<Rightarrow> bool" where
  "shares_ok d t \<longleftrightarrow> gomap_ok d \<and> (\<forall>w v. map_of d w = Some v \<longrightarrow> 0 < v) \<and> vsum d < 2 ^ 31
     \<and> 0 < t \<and> t \<le> vsum d \<and> t * vsum d < 2 ^ 53"

lemma shares_pos: "shares_ok d t \<Longrightarrow> 0 < vsum d"
  by (auto simp: shares_ok_def)

lemma vsum_nonneg: "gomap_ok d \<Longrightarrow> \<forall>w v. map_of d w = Some v \<longrightarrow> 0 < v \<Longrightarrow> 0 \<le> vsum d"
  unfolding vsum_def by (rule sum_list_nonneg) (auto simp: gomap_ok_mem less_imp_le)

lemma share_bounds:
  assumes "shares_ok d t"
  shows "0 \<le> get0 0 d w" and "get0 0 d w \<le> vsum d"
proof -
  have ok: "gomap_ok d" and pos: "\<forall>w v. map_of d w = Some v \<longrightarrow> 0 < v"
    using assms by (auto simp: shares_ok_def)
  show "0 \<le> get0 0 d w" using pos by (auto simp: get0_def less_imp_le split: option.split)
  have "0 \<le> vsum (AList.delete w d)"
    using ok pos by (intro vsum_nonneg) (auto simp: map_of_del split: if_splits)
  then show "get0 0 d w \<le> vsum d" using vsum_delete [OF ok, of w] by simp
qed

lemma whole_part_eq: "shares_ok d t \<Longrightarrow> f64_to_int32 (exact_share t (get0 0 d w) (vsum d)) = whole_part d t w"
  unfolding whole_part_def
  by (rule exact_share_floor) (use share_bounds [of d t w] in \<open>auto simp: shares_ok_def\<close>)

text \<open>The first pass stores the whole parts, in worker order, and counts what it handed out.\<close>

lemma whole_pass_ok:
  assumes "shares_ok d t" and "distinct ws" and "\<forall>w \<in> set ws. w \<notin> set (map fst a)"
    and "gomap_ok a" and "n = vsum a" and "0 \<le> n" and "n + sum_list (map (whole_part d t) ws) \<le> t"
  shows "case whole_pass d t (vsum d) ws a n rs of (a', n', rs') \<Rightarrow>
    a' = a @ map (\<lambda>w. (w, whole_part d t w)) ws \<and> n' = n + sum_list (map (whole_part d t) ws)
    \<and> map fst rs' = map fst rs @ ws"
  using assms
proof (induction ws arbitrary: a n rs)
  case (Cons w ws)
  have t: "0 < t" "t < 2 ^ 31" using Cons.prems(1) by (auto simp: shares_ok_def)
  have nn: "0 \<le> whole_part d t v" for v
    using share_bounds(1) [OF Cons.prems(1), of v] shares_pos [OF Cons.prems(1)] t
    by (simp add: whole_part_def pos_imp_zdiv_nonneg_iff)
  then have "0 \<le> sum_list (map (whole_part d t) ws)" by (intro sum_list_nonneg) auto
  then have n: "i32 (n + whole_part d t w) = n + whole_part d t w"
    using Cons.prems(6,7) t nn [of w] by (intro i32_id) (simp add: in32_def)
  have upd: "AList.update w v a = a @ [(w, v)]" for v
    using Cons.prems(3) by (simp add: update_triv AList.update_nonempty) (induction a; auto)
  have ne: "\<forall>v \<in> set ws. v \<noteq> w" using Cons.prems(2) by auto
  have "vsum (a @ [(w, whole_part d t w)]) = vsum a + whole_part d t w" by (simp add: vsum_def)
  moreover have "gomap_ok (a @ [(w, whole_part d t w)])"
    using Cons.prems(3,4) by (auto simp: gomap_ok_def)
  ultimately show ?case
    using Cons.IH [of "a @ [(w, whole_part d t w)]" "n + whole_part d t w"
        "rs @ [(w, f64_sub (exact_share t (get0 0 d w) (vsum d)) (f64_of_int (whole_part d t w)))]"]
      Cons.prems nn [of w] n ne
    by (auto simp: whole_part_eq upd Let_def split: prod.splits)
qed simp

text \<open>The second pass gives one more to workers below their share, in any order of visits, until
  the target is met; it meets it when enough workers are below their share.\<close>

definition below :: "(string, int32) gomap \<Rightarrow> (string, int32) gomap \<Rightarrow> string \<Rightarrow> bool" where
  "below d a w \<longleftrightarrow> get0 0 a w < get0 0 d w"

lemma hand_out_ok:
  assumes "distinct (map fst rs)" and "gomap_ok a" and "\<forall>w \<in> set (map fst rs). has_key a w"
    and "\<forall>w. 0 \<le> get0 0 a w \<and> get0 0 d w < 2 ^ 31" and "t < 2 ^ 31" and "0 \<le> n" and "n \<le> t"
    and "t - n \<le> int (length (filter (below d a) (map fst rs)))"
  shows "gomap_ok (hand_out d t rs a n) \<and> vsum (hand_out d t rs a n) = vsum a + (t - n)
    \<and> (\<forall>w. has_key (hand_out d t rs a n) w = has_key a w)
    \<and> (\<forall>w. get0 0 (hand_out d t rs a n) w = get0 0 a w \<or>
          below d a w \<and> get0 0 (hand_out d t rs a n) w = get0 0 a w + 1)
    \<and> (\<forall>w. w \<notin> set (map fst rs) \<longrightarrow> get0 0 (hand_out d t rs a n) w = get0 0 a w)"
  using assms
proof (induction rs arbitrary: a n)
  case (Cons e rs)
  obtain w x where e [simp]: "e = (w, x)" by (cases e)
  have fresh: "w \<notin> fst ` set rs" using Cons.prems(1) by simp
  have rest: "distinct (map fst rs)" using Cons.prems(1) by simp
  show ?case
  proof (cases "n < t")
    case False
    with Cons.prems show ?thesis by simp
  next
    case nt: True
    show ?thesis
    proof (cases "below d a w")
      case False
      then show ?thesis
        using Cons.IH [OF rest Cons.prems(2) _ Cons.prems(4-7)] Cons.prems(3,8) nt
        by (auto simp: below_def)
    next
      case True
      let ?g = "get0 0 a w"
      let ?a = "AList.update w (?g + 1) a"
      have g: "i32 (?g + 1) = ?g + 1" and n1: "i32 (n + 1) = n + 1"
        using Cons.prems(4) [rule_format, of w] Cons.prems(5,6) True nt
        by (auto intro!: i32_id simp: in32_def below_def)
      have step: "hand_out d t (e # rs) a n = hand_out d t rs ?a (n + 1)"
        using nt True by (simp add: g n1 below_def)
      have same: "below d ?a v = below d a v" if "v \<in> set (map fst rs)" for v
        using that fresh by (auto simp: below_def get0_put)
      then have "filter (below d ?a) (map fst rs) = filter (below d a) (map fst rs)"
        by (intro filter_cong) auto
      then have enough: "t - (n + 1) \<le> int (length (filter (below d ?a) (map fst rs)))"
        using Cons.prems(8) True by simp
      have nn: "\<forall>v. 0 \<le> get0 0 ?a v \<and> get0 0 d v < 2 ^ 31"
        using Cons.prems(4) by (simp add: get0_put add_nonneg_nonneg)
      have hk: "\<forall>v \<in> set (map fst rs). has_key ?a v" using Cons.prems(3) by (simp add: has_key_put)
      have IH: "gomap_ok (hand_out d t rs ?a (n + 1))"
        "vsum (hand_out d t rs ?a (n + 1)) = vsum ?a + (t - (n + 1))"
        "\<And>v. has_key (hand_out d t rs ?a (n + 1)) v = has_key ?a v"
        "\<And>v. get0 0 (hand_out d t rs ?a (n + 1)) v = get0 0 ?a v \<or>
             below d ?a v \<and> get0 0 (hand_out d t rs ?a (n + 1)) v = get0 0 ?a v + 1"
        "\<And>v. v \<notin> set (map fst rs) \<Longrightarrow> get0 0 (hand_out d t rs ?a (n + 1)) v = get0 0 ?a v"
        using Cons.IH [OF rest gomap_ok_update [OF Cons.prems(2)] hk nn Cons.prems(5) _ _ enough]
          Cons.prems(6) nt by auto
      have hw: "has_key a w" using Cons.prems(3) by simp
      have w: "get0 0 (hand_out d t rs ?a (n + 1)) w = ?g + 1" using IH(5) fresh by (simp add: get0_put)
      have other: "below d ?a v = below d a v" if "v \<noteq> w" for v
        using that by (simp add: below_def get0_put)
      have G: "get0 0 (hand_out d t rs ?a (n + 1)) v = get0 0 a v \<or>
          below d a v \<and> get0 0 (hand_out d t rs ?a (n + 1)) v = get0 0 a v + 1" for v
        using IH(4) [of v] w True other [of v] by (cases "v = w") (auto simp: get0_put)
      show ?thesis unfolding step
        using IH(1,2,3,5) G hw by (auto simp: vsum_update [OF Cons.prems(2)] has_key_put get0_put)
    qed
  qed
qed simp

lemma insert_frac_perm: "mset (insert_frac x xs) = add_mset x (mset xs)"
  by (induction xs) auto

lemma sort_frac_perm: "mset (sort_frac xs) = mset xs"
  by (induction xs) (auto simp: insert_frac_perm)

text \<open>The remainders of the whole parts add up to less than one per worker below its share.\<close>

lemma leftover_bound:
  assumes "shares_ok d t"
  shows "sum_list (map (\<lambda>w. t * get0 0 d w) ws) \<le> vsum d * (sum_list (map (whole_part d t) ws)
        + int (length (filter (\<lambda>w. whole_part d t w < get0 0 d w) ws)))"
    and "vsum d * sum_list (map (whole_part d t) ws) \<le> sum_list (map (\<lambda>w. t * get0 0 d w) ws)"
proof -
  have S: "0 < vsum d" using assms by (rule shares_pos)
  have one: "vsum d * whole_part d t w \<le> t * get0 0 d w
      \<and> t * get0 0 d w \<le> vsum d * (whole_part d t w + (if whole_part d t w < get0 0 d w then 1 else 0))" for w
  proof -
    let ?p = "t * get0 0 d w"
    have eq: "?p = vsum d * whole_part d t w + ?p mod vsum d" by (simp add: whole_part_def)
    have m: "0 \<le> ?p mod vsum d" "?p mod vsum d < vsum d" using S by simp_all
    have "?p mod vsum d = 0" if "\<not> whole_part d t w < get0 0 d w"
    proof -
      have "?p \<le> vsum d * get0 0 d w"
        using assms share_bounds(1) [OF assms, of w] by (auto simp: shares_ok_def intro: mult_right_mono)
      also have "\<dots> \<le> vsum d * whole_part d t w" using that S by (intro mult_left_mono) auto
      finally show ?thesis using eq m by linarith
    qed
    then show ?thesis using eq m by (auto simp: distrib_left)
  qed
  show "sum_list (map (\<lambda>w. t * get0 0 d w) ws) \<le> vsum d * (sum_list (map (whole_part d t) ws)
        + int (length (filter (\<lambda>w. whole_part d t w < get0 0 d w) ws)))"
  proof (induction ws)
    case (Cons w ws)
    then show ?case using one [of w] by (auto simp: distrib_left)
  qed simp
  show "vsum d * sum_list (map (whole_part d t) ws) \<le> sum_list (map (\<lambda>w. t * get0 0 d w) ws)"
  proof (induction ws)
    case (Cons w ws)
    then show ?case using one [of w] by (auto simp: distrib_left)
  qed simp
qed

lemma get0_graph: "get0 0 (map (\<lambda>w. (w, f w)) ws) v = (if v \<in> set ws then f v else (0 :: int))"
  by (induction ws) (auto simp: get0_def)

lemma has_key_graph: "has_key (map (\<lambda>w. (w, f w)) ws) v \<longleftrightarrow> v \<in> set ws"
  by (simp add: has_key_set image_image o_def)

lemma vsum_graph: "vsum (map (\<lambda>w. (w, f w)) ws) = sum_list (map f ws)"
  by (simp add: vsum_def o_def)

lemma whole_part_le_share: "shares_ok d t \<Longrightarrow> whole_part d t w \<le> get0 0 d w"
proof -
  assume ok: "shares_ok d t"
  then have "t * get0 0 d w div vsum d \<le> vsum d * get0 0 d w div vsum d"
    using share_bounds(1) [OF ok, of w] shares_pos [OF ok]
    by (intro zdiv_mono1 mult_right_mono) (auto simp: shares_ok_def)
  then show ?thesis using shares_pos [OF ok] by (simp add: whole_part_def)
qed

lemma whole_part_nonneg: "shares_ok d t \<Longrightarrow> 0 \<le> whole_part d t w"
  using share_bounds(1) [of d t w] shares_pos [of d t]
  by (auto simp: whole_part_def shares_ok_def pos_imp_zdiv_nonneg_iff)

lemma allocateStageVUs_ok:
  assumes ok: "shares_ok d t" and ord: "range_order ord d"
  defines "a \<equiv> allocateStageVUs ord d t"
  shows "gomap_ok a" and "vsum a = t" and "has_key a w = has_key d w"
    and "whole_part d t w \<le> get0 0 a w" and "get0 0 a w \<le> whole_part d t w + 1"
    and "get0 0 a w \<le> get0 0 d w"
proof -
  let ?ws = "sort (map fst d)"
  let ?a0 = "map (\<lambda>w. (w, whole_part d t w)) ?ws" and ?n = "sum_list (map (whole_part d t) ?ws)"
  have g: "gomap_ok d" and t: "0 < t" "t < 2 ^ 31" and S: "0 < vsum d" "vsum d < 2 ^ 31"
    using ok shares_pos [OF ok] by (auto simp: shares_ok_def)
  have ws: "distinct ?ws" "set ?ws = set (map fst d)" using g by (simp_all add: gomap_ok_def)
  have ne: "d \<noteq> []" using S(1) by auto
  have "vsum d = sum_list (map (get0 0 d) ?ws)"
    using g ws by (intro vsum_over_ids) (force dest: map_of_SomeD)+
  then have prods: "sum_list (map (\<lambda>w. t * get0 0 d w) ?ws) = t * vsum d"
    by (simp add: sum_list_const_mult)
  have "vsum d * ?n \<le> vsum d * t" using leftover_bound(2) [OF ok, of ?ws] prods by (simp add: mult.commute)
  then have n: "?n \<le> t" using S(1) by simp
  let ?c = "int (length (filter (\<lambda>w. whole_part d t w < get0 0 d w) ?ws))"
  have "vsum d * t \<le> vsum d * (?n + ?c)" using leftover_bound(1) [OF ok, of ?ws] prods by (simp add: mult.commute)
  then have c: "t - ?n \<le> ?c" using S(1) by simp
  have n0: "0 \<le> ?n" using whole_part_nonneg [OF ok] by (intro sum_list_nonneg) auto
  obtain a' n' rs where wp: "whole_pass d t (vsum d) ?ws [] 0 [] = (a', n', rs)"
    by (metis prod.exhaust)
  have pass: "a' = ?a0" "n' = ?n" "map fst rs = ?ws"
    using whole_pass_ok [OF ok ws(1), of "[]" 0 "[]"] n wp by simp_all
  let ?rs = "sort_frac rs"
  have "mset (map fst ?rs) = mset ?ws" 
    unfolding mset_map sort_frac_perm by (simp only: pass(3) flip: mset_map)
  then have rs: "distinct (map fst ?rs)" "set (map fst ?rs) = set ?ws"
    and cnt: "length (filter P (map fst ?rs)) = length (filter P ?ws)" for P
    using ws(1) by (metis mset_eq_imp_distinct_iff, metis mset_eq_setD, metis mset_filter size_mset)
  have vd: "i32 (vsum d) = vsum d" using S by (intro i32_id) (simp add: in32_def)
  have a: "a = hand_out d t ?rs ?a0 ?n"
    unfolding a_def allocateStageVUs_alt [OF g ord] using ne t S by (simp add: vd wp pass)
  have "filter (below d ?a0) ?ws = filter (\<lambda>w. whole_part d t w < get0 0 d w) ?ws"
    by (rule filter_cong) (auto simp: below_def get0_graph)
  then have enough: "t - ?n \<le> int (length (filter (below d ?a0) (map fst ?rs)))"
    using c unfolding cnt by (simp only:)
  have bounds: "\<forall>w. 0 \<le> get0 0 ?a0 w \<and> get0 0 d w < 2 ^ 31"
    using whole_part_nonneg [OF ok] share_bounds(2) [OF ok] S(2)
    by (auto simp: get0_graph intro: le_less_trans)
  have H: "gomap_ok a" "vsum a = vsum ?a0 + (t - ?n)" "\<forall>w. has_key a w = has_key ?a0 w"
    "\<forall>w. get0 0 a w = get0 0 ?a0 w \<or> below d ?a0 w \<and> get0 0 a w = get0 0 ?a0 w + 1"
    using hand_out_ok [OF rs(1) _ _ bounds t(2) n0 n enough] ws(1) rs(2)
    unfolding a [symmetric] by (simp_all add: gomap_ok_def o_def has_key_graph del: set_map)
  show "gomap_ok a" and "vsum a = t" using H(1,2) by (simp_all add: vsum_graph)
  show "has_key a w = has_key d w" using H(3) ws(2) by (simp add: has_key_graph has_key_set)
  have missing: "w \<notin> set ?ws \<Longrightarrow> get0 0 d w = 0" using ws(2) by (simp add: get0_def map_of_eq_None_iff split: option.split) (metis map_of_eq_None_iff option.distinct(1))
  then have "get0 0 ?a0 w = whole_part d t w" by (auto simp: get0_graph whole_part_def)
  then show "whole_part d t w \<le> get0 0 a w" and "get0 0 a w \<le> whole_part d t w + 1"
    and "get0 0 a w \<le> get0 0 d w"
    using H(4) [rule_format, of w] whole_part_le_share [OF ok, of w] by (auto simp: below_def)
qed

text \<open>The shares a successful distribution stored satisfy the split's preconditions.\<close>

lemma shares_of_split:
  assumes "split_of_plan nm plan d" and "plan_ok plan" and "st \<in> set (tp_Stages plan)"
    and "0 < st_TargetVUs st" and "st_TargetVUs st * plan_peak plan < 2 ^ 53"
  shows "shares_ok d (st_TargetVUs st)"
  using assms in32_plan_peak [OF assms(2)] peak_target_ge [OF assms(3)]
  by (auto simp: shares_ok_def split_of_plan_def in32_def)

section \<open>The life of an active test\<close>

text \<open>An active test is well formed when its maps are and only assigned workers are marked done.\<close>

definition at_ok :: "active_test \<Rightarrow> bool" where
  "at_ok t \<longleftrightarrow> gomap_ok (at_Workers t) \<and> gomap_ok (at_done t)
     \<and> set (map fst (at_done t)) \<subseteq> set (map fst (at_Workers t))"

definition pd_ok :: "plan_distributor \<Rightarrow> bool" where
  "pd_ok pd \<longleftrightarrow> gomap_ok (pd_activeTests pd)
     \<and> (\<forall>i t. map_of (pd_activeTests pd) i = Some t \<longrightarrow> at_ok t \<and> at_TestID t = i)"

lemma pd_okD: "pd_ok pd \<Longrightarrow> map_of (pd_activeTests pd) i = Some t \<Longrightarrow> at_ok t \<and> at_TestID t = i"
  by (simp add: pd_ok_def)

lemma pd_ok_New: "pd_ok NewPlanDistributor"
  by (simp add: pd_ok_def NewPlanDistributor_def)

lemma pd_ok_put:
  "pd_ok pd \<Longrightarrow> at_ok t \<Longrightarrow> at_TestID t = i \<Longrightarrow> pd_ok (pd\<lparr>pd_activeTests := AList.update i t (pd_activeTests pd)\<rparr>)"
  by (auto simp: pd_ok_def map_of_put gomap_ok_update)

lemma at_ok_done: "at_ok t \<Longrightarrow> has_key (at_Workers t) w \<Longrightarrow> at_ok (t\<lparr>at_done := AList.update w True (at_done t)\<rparr>)"
  by (auto simp: at_ok_def has_key_set gomap_ok_update update_keys)

lemma pd_ok_SetStatus: "pd_ok pd \<Longrightarrow> pd_ok (SetStatus i st pd)"
  by (auto simp: SetStatus_def at_ok_def dest: pd_okD intro!: pd_ok_put split: option.split)

lemma pd_ok_MarkWorkerDone: "pd_ok pd \<Longrightarrow> pd_ok (snd (MarkWorkerDone i w pd))"
  by (auto simp: MarkWorkerDone_def Let_def dest: pd_okD intro!: pd_ok_put at_ok_done split: option.split)

lemma pd_ok_RemoveActiveTest: "pd_ok pd \<Longrightarrow> pd_ok (RemoveActiveTest i pd)"
  by (auto simp: RemoveActiveTest_def pd_ok_def map_of_del gomap_ok_delete)

lemma at_ok_fresh: "gomap_ok d \<Longrightarrow> at_ok (fresh_test i plan d)"
  by (simp add: at_ok_def fresh_test_def)

lemma pd_ok_DistributePlan:
  assumes "nm_ok nm" and "nm_order ord nm" and "nm_caps_ok nm" and "plan_ok plan" and "pd_ok pd"
  shows "pd_ok (snd (DistributePlan ord nm i plan pd))"
  using assms(1-4)
proof (cases rule: DistributePlan_cases [of nm ord plan i pd])
  case (split d)
  then have "at_ok (fresh_test i plan d)" by (intro at_ok_fresh) (simp add: split_of_plan_def)
  moreover have "at_TestID (fresh_test i plan d) = i" by (simp add: fresh_test_def)
  ultimately show ?thesis using split assms(5) by (simp add: pd_ok_put)
qed (simp_all add: assms(5))

text \<open>The counting test of \<open>MarkWorkerDone\<close> is the inclusion of the two key sets.\<close>

lemma done_count:
  assumes "at_ok t"
  shows "length (at_Workers t) \<le> length (at_done t) \<longleftrightarrow> set (map fst (at_Workers t)) \<subseteq> set (map fst (at_done t))"
proof -
  have "length (at_Workers t) = card (set (map fst (at_Workers t)))"
    and "length (at_done t) = card (set (map fst (at_done t)))"
    using assms unfolding at_ok_def by (blast intro: length_keys_card)+
  then show ?thesis
    using assms card_seteq [of "set (map fst (at_Workers t))" "set (map fst (at_done t))"]
    by (auto simp: at_ok_def intro: card_mono simp del: set_map)
qed

lemma MarkWorkerDone_result:
  assumes "pd_ok pd"
  shows "fst (MarkWorkerDone i w pd) \<longleftrightarrow>
    (\<exists>t. GetActiveTest i pd = Some t \<and> has_key (at_Workers t) w \<and> at_Status t = TestStatusRunning
      \<and> (\<forall>v. has_key (at_Workers t) v \<longrightarrow> v = w \<or> has_key (at_done t) v))"
proof (cases "GetActiveTest i pd")
  case (Some t)
  then have t: "map_of (pd_activeTests pd) i = Some t" by (simp add: GetActiveTest_def)
  show ?thesis
  proof (cases "has_key (at_Workers t) w")
    case True
    let ?t = "t\<lparr>at_done := AList.update w True (at_done t)\<rparr>"
    have "at_ok ?t" using pd_okD [OF assms t] True by (intro at_ok_done) auto
    from done_count [OF this]
    have "length (at_Workers t) \<le> length (AList.update w True (at_done t)) \<longleftrightarrow>
        (\<forall>v. has_key (at_Workers t) v \<longrightarrow> v = w \<or> has_key (at_done t) v)"
      by (auto simp: has_key_set update_keys)
    with t True show ?thesis by (auto simp: MarkWorkerDone_def GetActiveTest_def Let_def)
  qed (simp add: MarkWorkerDone_def t GetActiveTest_def)
qed (simp add: MarkWorkerDone_def GetActiveTest_def)

text \<open>A sequence of completion reports of one test.\<close>

primrec reports :: "string \<Rightarrow> string list \<Rightarrow> plan_distributor \<Rightarrow> plan_distributor" where
  "reports testID [] pd = pd"
| "reports testID (w # ws) pd = reports testID ws (snd (MarkWorkerDone testID w pd))"

lemma MarkWorkerDone_state:
  assumes "map_of (pd_activeTests pd) i = Some t"
  shows "\<exists>t'. map_of (pd_activeTests (snd (MarkWorkerDone i w pd))) i = Some t'
    \<and> at_Workers t' = at_Workers t \<and> at_Status t' = at_Status t
    \<and> (\<forall>v. has_key (at_done t') v \<longleftrightarrow> has_key (at_done t) v \<or> v = w \<and> has_key (at_Workers t) w)"
  using assms by (auto simp: MarkWorkerDone_def Let_def map_of_put has_key_put)

lemma reports_state:
  assumes "pd_ok pd" and "map_of (pd_activeTests pd) i = Some t"
  shows "pd_ok (reports i ws pd) \<and> (\<exists>t'. map_of (pd_activeTests (reports i ws pd)) i = Some t'
    \<and> at_Workers t' = at_Workers t \<and> at_Status t' = at_Status t
    \<and> (\<forall>v. has_key (at_done t') v \<longleftrightarrow> has_key (at_done t) v \<or> v \<in> set ws \<and> has_key (at_Workers t) v))"
  using assms
proof (induction ws arbitrary: pd t)
  case (Cons w ws)
  obtain t1 where t1: "map_of (pd_activeTests (snd (MarkWorkerDone i w pd))) i = Some t1"
    "at_Workers t1 = at_Workers t" "at_Status t1 = at_Status t"
    "\<forall>v. has_key (at_done t1) v \<longleftrightarrow> has_key (at_done t) v \<or> v = w \<and> has_key (at_Workers t) w"
    using MarkWorkerDone_state [OF Cons.prems(2)] by blast
  from Cons.IH [OF pd_ok_MarkWorkerDone [OF Cons.prems(1)] t1(1)] t1(2-4) show ?case by auto
qed simp

section \<open>Rebalancing\<close>

text \<open>Without the failed worker the remaining shares and the share to reassign are a split over
  the other nodes.\<close>

lemma split_ok_without:
  assumes "split_of_plan nm plan d" and "nm_ok nm" and "nm_order ord nm"
  shows "split_ok (filter (\<lambda>n. wn_ID n \<noteq> w) (GetNodes ord nm)) (plan_peak plan) (AList.delete w d) (get0 0 d w)"
proof -
  have g: "gomap_ok d" and s: "vsum d = plan_peak plan"
    and v: "\<And>u v. map_of d u = Some v \<Longrightarrow> 0 < v \<and> (\<exists>n. GetNode u nm = Some n \<and> v \<le> wn_MaxVUs n)"
    using assms(1) by (auto simp: split_of_plan_def)
  have "0 \<le> vsum (AList.delete w d)"
    using v g by (intro vsum_nonneg gomap_ok_delete) (auto simp: map_of_del)
  moreover have "0 \<le> get0 0 d w" using v [of w] by (auto simp: get0_def split: option.split)
  moreover have "\<exists>n \<in> set (filter (\<lambda>n. wn_ID n \<noteq> w) (GetNodes ord nm)). wn_ID n = u \<and> x \<le> wn_MaxVUs n"
    if "map_of (AList.delete w d) u = Some x" for u x
    using that v [of u x] nm_registry.lookup_iff [OF assms(2,3), of u] by (auto simp: map_of_del split: if_splits)
  moreover have "0 < x" if "map_of (AList.delete w d) u = Some x" for u x
    using that v [of u x] by (auto simp: map_of_del split: if_splits)
  ultimately show ?thesis
    using g s vsum_delete [OF g, of w] by (auto simp: split_ok_def gomap_ok_delete)
qed

lemma RebalanceTest_eq:
  assumes "map_of (pd_activeTests pd) i = Some t"
    and "filter (\<lambda>n. wn_ID n \<noteq> w) (GetNodes ord nm) \<noteq> []"
  shows "RebalanceTest ord nm i w pd = (None, pd\<lparr>pd_activeTests := AList.update i
     (t\<lparr>at_Workers := fst (fill_pass (filter (\<lambda>n. wn_ID n \<noteq> w) (GetNodes ord nm))
        (AList.delete w (at_Workers t)) (get0 0 (at_Workers t) w))\<rparr>) (pd_activeTests pd)\<rparr>)"
  using assms by (simp add: RebalanceTest_def Let_def)

section \<open>Properties\<close>

text \<open>Concrete values the properties are applied to: a node manager with one or two workers and a
  plan with one stage.\<close>

definition demo_node :: "string \<Rightarrow> int32 \<Rightarrow> worker_node" where
  "demo_node i cap = \<lparr>wn_ID = i, wn_Address = i @ '':50052'', wn_MaxVUs = cap,
     wn_Status = WorkerStatusIdle, wn_Metadata = [], wn_LastSeen = 0\<rparr>"

definition demo_nm :: "int32 \<Rightarrow> int32 \<Rightarrow> node_manager" where
  "demo_nm a b = (NewNodeManager ''/gosentinel'')\<lparr>nm_nodes := [(''w1'', demo_node ''w1'' a), (''w2'', demo_node ''w2'' b)]\<rparr>"

definition demo_plan :: "int32 \<Rightarrow> test_plan" where
  "demo_plan target = zero_test_plan\<lparr>tp_ID := ''p'', tp_Stages := [zero_stage\<lparr>st_TargetVUs := target\<rparr>]\<rparr>"

abbreviation demo_ord :: "string list" where
  "demo_ord \<equiv> [''w1'', ''w2'']"

lemma demo_nm_ok: "nm_ok (demo_nm a b)" "nm_order demo_ord (demo_nm a b)"
  using nm_ok_New [of "''/gosentinel''"]
  by (simp_all add: nm_ok_def demo_nm_def demo_node_def NewNodeManager_def NewConsistentHashRing_def
        gomap_ok_def range_order_def)

lemma demo_caps: "0 \<le> a \<Longrightarrow> a < 2 ^ 31 \<Longrightarrow> 0 \<le> b \<Longrightarrow> b < 2 ^ 31 \<Longrightarrow>
    nm_caps_ok (demo_nm a b) \<and> nm_capacity (demo_nm a b) = a + b \<and> nm_nodes (demo_nm a b) \<noteq> []"
  by (simp add: nm_caps_ok_def nm_capacity_def demo_nm_def demo_node_def in32_def)

lemma demo_plan_ok: "0 \<le> t \<Longrightarrow> t < 2 ^ 31 \<Longrightarrow> plan_ok (demo_plan t) \<and> plan_peak (demo_plan t) = t"
  by (simp add: plan_ok_def demo_plan_def zero_test_plan_def zero_stage_def in32_def)

text \<open>C3: safety. \<open>DistributePlan\<close> never over-commits and never loses load, whatever order the
  node map is iterated in and even when the sum of the capacities wraps around: when it answers
  with a distribution, the shares add up exactly to the largest stage target, every share is
  positive and within the capacity of a registered worker, and the test is stored as running with
  that distribution; when it answers with an error, no state changes, and the error is "no worker
  nodes" exactly when none is registered.\<close>

theorem DistributePlan_exact:
  assumes "nm_ok nm" and "nm_order ord nm" and "nm_caps_ok nm" and "plan_ok plan"
  shows "case DistributePlan ord nm testID plan pd of
      (Inl e, pd') \<Rightarrow> pd' = pd \<and> (e = NoWorkerNodes \<longleftrightarrow> nm_nodes nm = [])
    | (Inr d, pd') \<Rightarrow> nm_nodes nm \<noteq> [] \<and> gomap_ok d \<and> vsum d = plan_peak plan
        \<and> (\<forall>w v. map_of d w = Some v \<longrightarrow> 0 < v \<and> (\<exists>n. GetNode w nm = Some n \<and> v \<le> wn_MaxVUs n))
        \<and> GetActiveTest testID pd' = Some (fresh_test testID plan d)"
  using assms
  by (cases rule: DistributePlan_cases [of nm ord plan testID pd])
     (auto simp: split_of_plan_def GetActiveTest_def map_of_put)

theorem DistributePlan_exact_witness:
  "fst (DistributePlan demo_ord (demo_nm 10 10) ''t'' (demo_plan 7) NewPlanDistributor) \<noteq> Inl NoWorkerNodes"
  using DistributePlan_exact [OF demo_nm_ok, of 10 10 "demo_plan 7" NewPlanDistributor "''t''"]
    demo_caps [of 10 10] demo_plan_ok [of 7]
  by (auto split: prod.splits sum.splits)

text \<open>Functional. \<open>DistributePlan\<close> succeeds whenever a worker is registered, the capacities
  add up to a value of \<open>int32\<close>, and the peak of the plan is within that sum; so rounding in the
  proportional pass never makes it fail.\<close>

theorem DistributePlan_succeeds:
  assumes "nm_ok nm" and "nm_order ord nm" and "nm_caps_ok nm" and "plan_ok plan"
    and "nm_nodes nm \<noteq> []" and "nm_capacity nm < 2 ^ 31" and "plan_peak plan \<le> nm_capacity nm"
  shows "\<exists>d pd'. DistributePlan ord nm testID plan pd = (Inr d, pd')"
proof -
  have "total_capacity 0 (GetNodes ord nm) = nm_capacity nm"
    using total_capacity_exact [OF caps_ok_GetNodes [OF assms(1-3)], of 0] assms(6)
    by (simp add: cap_sum_GetNodes [OF assms(1,2)])
  then show ?thesis using assms(5,7)
    by (cases rule: DistributePlan_cases [OF assms(1-4), of testID pd]) auto
qed

theorem DistributePlan_succeeds_witness:
  "\<exists>d pd'. DistributePlan demo_ord (demo_nm 10 10) ''t'' (demo_plan 17) NewPlanDistributor = (Inr d, pd')"
  using DistributePlan_succeeds [OF demo_nm_ok, of 10 10 "demo_plan 17"] demo_caps [of 10 10] demo_plan_ok [of 17]
  by simp

text \<open>Functional. The split of a stage's target over a test's workers is exact: the per-worker
  targets add up to the stage's target, exactly the test's workers get one, and each worker gets
  its proportional share rounded down or up, never more than its share of the peak. The floating
  point arithmetic is exact enough for this while target times peak is below \<open>2 ^ 53\<close>.\<close>

theorem allocateStageVUs_exact:
  assumes "gomap_ok d" and "range_order ord d" and "\<forall>w v. map_of d w = Some v \<longrightarrow> 0 < v"
    and "vsum d < 2 ^ 31" and "0 < target" and "target \<le> vsum d" and "target * vsum d < 2 ^ 53"
  shows "vsum (allocateStageVUs ord d target) = target
    \<and> gomap_ok (allocateStageVUs ord d target)
    \<and> (\<forall>w. has_key (allocateStageVUs ord d target) w = has_key d w)
    \<and> (\<forall>w. get0 0 (allocateStageVUs ord d target) w \<le> get0 0 d w
        \<and> get0 0 (allocateStageVUs ord d target) w
            \<in> {target * get0 0 d w div vsum d, target * get0 0 d w div vsum d + 1})"
proof -
  have "shares_ok d target" using assms by (simp add: shares_ok_def)
  note A = allocateStageVUs_ok [OF this assms(2)]
  have "get0 0 (allocateStageVUs ord d target) w
      \<in> {target * get0 0 d w div vsum d, target * get0 0 d w div vsum d + 1}" for w
    using A(4,5) [of w] by (auto simp: whole_part_def)
  with A(1-3,6) show ?thesis by blast
qed

theorem allocateStageVUs_exact_witness:
  "vsum (allocateStageVUs [''b'', ''a''] [(''a'', 3), (''b'', 4)] 5) = 5"
  using allocateStageVUs_exact [of "[(''a'', 3), (''b'', 4)]" "[''b'', ''a'']" 5]
  by (simp add: gomap_ok_def range_order_def insert_commute)

text \<open>The stage split is deterministic: it does not depend on the order in which
  Go iterates the worker map, for any shares and any target.\<close>

theorem allocateStageVUs_deterministic:
  assumes "gomap_ok d" and "range_order ord1 d" and "range_order ord2 d"
  shows "allocateStageVUs ord1 d target = allocateStageVUs ord2 d target"
  by (simp only: allocateStageVUs_alt [OF assms(1,2)] allocateStageVUs_alt [OF assms(1,3)])

theorem allocateStageVUs_deterministic_witness:
  "allocateStageVUs [''b'', ''a''] [(''a'', 3), (''b'', 4)] 5 = allocateStageVUs [''a'', ''b''] [(''a'', 3), (''b'', 4)] 5"
  by (rule allocateStageVUs_deterministic) (simp_all add: gomap_ok_def range_order_def insert_commute)

text \<open>Invariant. Every operation on the active tests keeps them well formed: stored under their
  own identifiers, with proper maps, and with only assigned workers marked as done.\<close>

theorem plan_distributor_ok:
  assumes "pd_ok pd" and "nm_ok nm" and "nm_order ord nm" and "nm_caps_ok nm" and "plan_ok plan"
  shows "pd_ok (snd (DistributePlan ord nm testID plan pd)) \<and> pd_ok (SetStatus testID st pd)
    \<and> pd_ok (snd (MarkWorkerDone testID w pd)) \<and> pd_ok (RemoveActiveTest testID pd)"
  using assms by (simp add: pd_ok_DistributePlan pd_ok_SetStatus pd_ok_MarkWorkerDone pd_ok_RemoveActiveTest)

theorem plan_distributor_ok_witness:
  "pd_ok (snd (DistributePlan demo_ord (demo_nm 10 10) ''t'' (demo_plan 17) NewPlanDistributor))"
  using plan_distributor_ok [OF pd_ok_New demo_nm_ok, of 10 10 "demo_plan 17"] demo_caps [of 10 10] demo_plan_ok [of 17]
  by simp

text \<open>Functional. A test completes exactly with its last missing report: after any sequence of
  earlier reports (in any order, with duplicates and strangers), \<open>MarkWorkerDone\<close> answers true for
  an assigned worker's report exactly when every other assigned worker has already reported and
  the test is still running.\<close>

theorem completion_by_last_report:
  assumes "pd_ok pd" and "GetActiveTest testID pd = Some t" and "at_done t = []"
  shows "fst (MarkWorkerDone testID w (reports testID ws pd)) \<longleftrightarrow>
    at_Status t = TestStatusRunning \<and> has_key (at_Workers t) w
    \<and> (\<forall>v. has_key (at_Workers t) v \<longrightarrow> v = w \<or> v \<in> set ws)"
proof -
  have t: "map_of (pd_activeTests pd) testID = Some t" using assms(2) by (simp add: GetActiveTest_def)
  from reports_state [OF assms(1) t, of ws] obtain t' where ok: "pd_ok (reports testID ws pd)"
    and t': "map_of (pd_activeTests (reports testID ws pd)) testID = Some t'"
      "at_Workers t' = at_Workers t" "at_Status t' = at_Status t"
      "\<forall>v. has_key (at_done t') v \<longleftrightarrow> v \<in> set ws \<and> has_key (at_Workers t) v"
    using assms(3) by (auto simp: has_key_def)
  have "fst (MarkWorkerDone testID w (reports testID ws pd)) \<longleftrightarrow>
      has_key (at_Workers t') w \<and> at_Status t' = TestStatusRunning
        \<and> (\<forall>v. has_key (at_Workers t') v \<longrightarrow> v = w \<or> has_key (at_done t') v)"
    using t'(1) by (simp add: MarkWorkerDone_result [OF ok] GetActiveTest_def)
  then show ?thesis unfolding t'(2,3) using t'(4) by blast
qed

theorem completion_by_last_report_witness:
  "fst (MarkWorkerDone ''t'' ''w2'' (reports ''t'' [''w9'', ''w1'', ''w1'']
     \<lparr>pd_activeTests = [(''t'', fresh_test ''t'' (demo_plan 7) [(''w1'', 4), (''w2'', 3)])]\<rparr>))"
proof -
  let ?t = "fresh_test ''t'' (demo_plan 7) [(''w1'', 4), (''w2'', 3)]"
  have "pd_ok \<lparr>pd_activeTests = [(''t'', ?t)]\<rparr>"
    by (simp add: pd_ok_def at_ok_def fresh_test_def gomap_ok_def)
  from completion_by_last_report [OF this, of "''t''" ?t "''w2''" "[''w9'', ''w1'', ''w1'']"]
  show ?thesis by (simp add: GetActiveTest_def fresh_test_def has_key_def)
qed

text \<open>Functional. Rebalancing after a worker failure moves the failed worker's load to the
  remaining workers without loss, as long as their capacities hold the whole peak: the new shares
  still add up to the peak, stay within the capacities, and the failed worker has none.\<close>

theorem RebalanceTest_preserves_load:
  assumes "nm_ok nm" and "nm_order ord nm" and "nm_caps_ok nm" and "plan_ok plan"
    and "GetActiveTest testID pd = Some t" and "split_of_plan nm plan (at_Workers t)"
    and "0 < plan_peak plan"
    and "plan_peak plan \<le> sum_list (map wn_MaxVUs (filter (\<lambda>n. wn_ID n \<noteq> failed) (GetNodes ord nm)))"
  shows "\<exists>pd' t'. RebalanceTest ord nm testID failed pd = (None, pd') \<and> GetActiveTest testID pd' = Some t'
    \<and> split_of_plan nm plan (at_Workers t') \<and> \<not> has_key (at_Workers t') failed"
proof -
  let ?ns = "filter (\<lambda>n. wn_ID n \<noteq> failed) (GetNodes ord nm)"
  let ?fp = "fill_pass ?ns (AList.delete failed (at_Workers t)) (get0 0 (at_Workers t) failed)"
  have t: "map_of (pd_activeTests pd) testID = Some t" using assms(5) by (simp add: GetActiveTest_def)
  have ne: "?ns \<noteq> []" using assms(7,8) by auto
  have dist: "distinct (map wn_ID ?ns)"
    using nm_registry.distinct_ids [OF assms(1,2)] by (rule distinct_map_filter)
  have caps: "caps_ok ?ns" using caps_ok_GetNodes [OF assms(1-3)] by (simp add: caps_ok_def)
  have ok: "split_ok ?ns (plan_peak plan) (fst ?fp) 0"
    using fill_pass_total [OF dist caps in32_plan_peak [OF assms(4)] assms(8) split_ok_without [OF assms(6,1,2)]] .
  have reg: "\<exists>n. GetNode w nm = Some n \<and> v \<le> wn_MaxVUs n \<and> w \<noteq> failed" "0 < v"
    if "map_of (fst ?fp) w = Some v" for w v
    using split_okD(5) [OF ok that] nm_registry.lookup_iff [OF assms(1,2), of w] by auto
  then have "split_of_plan nm plan (fst ?fp)"
    using split_okD(1,4) [OF ok] unfolding split_of_plan_def add_0_right by blast
  moreover have "\<not> has_key (fst ?fp) failed" using reg(1) unfolding has_key_def by blast
  ultimately show ?thesis by (simp add: RebalanceTest_eq [OF t ne] GetActiveTest_def map_of_put)
qed

theorem RebalanceTest_preserves_load_witness:
  "\<exists>pd' t'. RebalanceTest demo_ord (demo_nm 10 10) ''t'' ''w1''
      \<lparr>pd_activeTests = [(''t'', fresh_test ''t'' (demo_plan 7) [(''w1'', 4), (''w2'', 3)])]\<rparr> = (None, pd')
    \<and> GetActiveTest ''t'' pd' = Some t'
    \<and> split_of_plan (demo_nm 10 10) (demo_plan 7) (at_Workers t') \<and> \<not> has_key (at_Workers t') ''w1''"
proof (rule RebalanceTest_preserves_load [OF demo_nm_ok, where t = "fresh_test ''t'' (demo_plan 7) [(''w1'', 4), (''w2'', 3)]"])
  show "nm_caps_ok (demo_nm 10 10)" and "plan_ok (demo_plan 7)" and "0 < plan_peak (demo_plan 7)"
    using demo_caps [of 10 10] demo_plan_ok [of 7] by simp_all
qed (simp_all add: GetActiveTest_def fresh_test_def split_of_plan_def gomap_ok_def GetNode_def demo_nm_def
      demo_node_def demo_plan_def zero_test_plan_def zero_stage_def GetNodes_def)

text \<open>Rebalancing reports success but drops load when the remaining workers have no
  room for it: with two workers filled to their capacity, the failure of one leaves half of the
  virtual users, and no error.\<close>

theorem RebalanceTest_drops_load:
  "RebalanceTest demo_ord (demo_nm 5 5) ''t'' ''w1''
      \<lparr>pd_activeTests = [(''t'', fresh_test ''t'' (demo_plan 10) [(''w1'', 5), (''w2'', 5)])]\<rparr>
   = (None, \<lparr>pd_activeTests = [(''t'', fresh_test ''t'' (demo_plan 10) [(''w2'', 5)])]\<rparr>)"
  by (simp add: RebalanceTest_def GetNodes_def demo_nm_def demo_node_def fresh_test_def get0_def i32_def)

text \<open>The capacity check is done on a wrapped sum: two workers of \<open>2 ^ 30\<close> virtual users
  each are refused a plan of ten, with a negative total capacity in the message.\<close>

theorem DistributePlan_capacity_wraps:
  "DistributePlan demo_ord (demo_nm (2 ^ 30) (2 ^ 30)) ''t'' (demo_plan 10) pd
   = (Inl (InsufficientCapacity 10 (- (2 ^ 31))), pd)"
  by (simp add: DistributePlan_def GetNodes_def demo_nm_def demo_node_def demo_plan_def zero_test_plan_def zero_stage_def i32_def)

end
