(* ===== verification/Proto_Messages.thy ===== *)
theory Proto_Messages
  imports Models
begin

text \<open>
  The messages of the gRPC interface (\<open>proto/*.proto\<close>, generated into \<open>proto/*.pb.go\<close>). A
  message-typed field is a pointer in Go and may be \<open>nil\<close>: it is an \<open>option\<close> here. The oneof
  of an assertion is a datatype with one constructor per alternative and one for the unset
  oneof. Serialisation itself is the protobuf library's; a message arrives with the fields it
  was sent with.
\<close>

section \<open>Plans\<close>

record pb_stage =
  pst_Duration :: string
  pst_TargetVus :: int32
  pst_RampUp :: string

datatype pb_assertion =
    PbStatusCode int32
  | PbResponseTime string int32
  | PbBodyContains string
  | PbAssertionUnset

record pb_request =
  prq_Method :: string
  prq_Path :: string
  prq_Headers :: "(string, string) gomap"
  prq_Body :: string
  prq_Assertions :: "pb_assertion list"
  prq_ThinkTimeMs :: int32

record pb_http_config =
  phc_BaseUrl :: string
  phc_Requests :: "pb_request list"
  phc_Headers :: "(string, string) gomap"
  phc_TimeoutMs :: int32

record pb_test_plan =
  ptp_Id :: string
  ptp_Name :: string
  ptp_Stages :: "pb_stage list"
  ptp_Http :: "pb_http_config option"
  ptp_Variables :: "(string, string) gomap"
  ptp_TotalVirtualUsers :: int32

section \<open>Metrics\<close>

record pb_rps =
  prps_Current :: f64
  prps_Average :: f64
  prps_Peak :: f64
  prps_WindowSeconds :: int64

record pb_latency =
  plat_MinMs :: int64
  plat_MaxMs :: int64
  plat_MeanMs :: int64
  plat_P50Ms :: int64
  plat_P95Ms :: int64
  plat_P99Ms :: int64
  plat_P999Ms :: int64
  plat_Count :: int64

record pb_error_rate =
  per_Rate :: f64
  per_Percentage :: f64
  per_ErrorMessages :: "string list"

record pb_snapshot =
  psn_Rps :: "pb_rps option"
  psn_Latency :: "pb_latency option"
  psn_ErrorRate :: "pb_error_rate option"
  psn_TotalRequests :: int64
  psn_TotalErrors :: int64
  psn_TimestampMs :: int64

record pb_batch =
  pb_WorkerId :: string
  pb_LatencyHistogram :: "pb_latency option"
  pb_RpsSnapshot :: "pb_rps option"
  pb_ErrorRate :: "pb_error_rate option"
  pb_BatchTimestampMs :: int64
  pb_TotalRequests :: int64
  pb_TotalErrors :: int64
  pb_TestId :: string
  pb_TestActive :: bool

definition zero_pb_rps :: pb_rps where
  "zero_pb_rps = \<lparr>prps_Current = Fin 0, prps_Average = Fin 0, prps_Peak = Fin 0,
     prps_WindowSeconds = 0\<rparr>"

definition zero_pb_latency :: pb_latency where
  "zero_pb_latency = \<lparr>plat_MinMs = 0, plat_MaxMs = 0, plat_MeanMs = 0, plat_P50Ms = 0,
     plat_P95Ms = 0, plat_P99Ms = 0, plat_P999Ms = 0, plat_Count = 0\<rparr>"

definition zero_pb_error_rate :: pb_error_rate where
  "zero_pb_error_rate = \<lparr>per_Rate = Fin 0, per_Percentage = Fin 0, per_ErrorMessages = []\<rparr>"

section \<open>Orchestrator service\<close>

datatype pb_status = UNKNOWN | PENDING | RUNNING | COMPLETED | FAILED | STOPPED

text \<open>\<open>Status.String()\<close> of the generated enum.\<close>

fun pb_status_string :: "pb_status \<Rightarrow> string" where
  "pb_status_string UNKNOWN = ''UNKNOWN''"
| "pb_status_string PENDING = ''PENDING''"
| "pb_status_string RUNNING = ''RUNNING''"
| "pb_status_string COMPLETED = ''COMPLETED''"
| "pb_status_string FAILED = ''FAILED''"
| "pb_status_string STOPPED = ''STOPPED''"

record distribute_response =
  dr_TestId :: string
  dr_WorkersAssigned :: int32
  dr_WorkerVuDistribution :: "(string, int32) gomap"

record register_request =
  rr_WorkerId :: string
  rr_Address :: string
  rr_MaxVus :: int32
  rr_Metadata :: "(string, string) gomap"

record test_status_response =
  tsr_Status :: pb_status
  tsr_ActiveWorkers :: int32
  tsr_TotalVus :: int32
  tsr_CurrentMetrics :: "pb_snapshot option"

record stop_response =
  sr_Success :: bool
  sr_Message :: string

record worker_info =
  wi_WorkerId :: string
  wi_Address :: string
  wi_MaxVus :: int32
  wi_Status :: string
  wi_LastSeenMs :: int64

section \<open>Worker service\<close>

record run_request =
  rn_TestId :: string
  rn_Plan :: "pb_test_plan option"
  rn_AssignedVus :: int32
  rn_WorkerId :: string

record run_response =
  rnr_Success :: bool
  rnr_Message :: string

end
