(* ===== verification/Metrics_Aggregator.thy ===== *)
theory Metrics_Aggregator
  imports Proto_Messages
begin

text \<open>
  \<open>MetricsAggregator\<close> of \<open>internal/orchestrator/metrics_aggregator.go\<close>: the latest snapshot of
  every worker of every test, and the fleet rollup that is computed from them at each report.
  The three loops of \<open>recalculate\<close> may each iterate the worker map in another order, so each
  takes its own. Reading a field through a nil message pointer panics: \<open>None\<close>.
\<close>

section \<open>State\<close>

record worker_metrics =
  wm_Snapshot :: metric_snapshot
  wm_LastUpdate :: go_time

record metrics_aggregator =
  ma_workerMetrics :: "(string, (string, worker_metrics) gomap) gomap"
  ma_aggregated :: "(string, metric_snapshot) gomap"

definition NewMetricsAggregator :: metrics_aggregator where
  "NewMetricsAggregator = \<lparr>ma_workerMetrics = [], ma_aggregated = []\<rparr>"

section \<open>The rollup\<close>

text \<open>The accumulators of the first loop.\<close>

record traffic_acc =
  ta_RPS :: f64
  ta_AvgRPS :: f64
  ta_PeakRPS :: f64
  ta_ErrorRate :: f64
  ta_Requests :: int64
  ta_Errors :: int64

definition traffic_step :: "traffic_acc \<Rightarrow> metric_snapshot \<Rightarrow> traffic_acc" where
  "traffic_step a s =
     \<lparr>ta_RPS = f64_add (ta_RPS a) (rps_Current (ms_RPS s)),
      ta_AvgRPS = f64_add (ta_AvgRPS a) (rps_Average (ms_RPS s)),
      ta_PeakRPS = (if f64_less (ta_PeakRPS a) (rps_Peak (ms_RPS s)) then rps_Peak (ms_RPS s) else ta_PeakRPS a),
      ta_ErrorRate = f64_add (ta_ErrorRate a) (er_Rate (ms_ErrorRate s)),
      ta_Requests = i64 (ta_Requests a + ms_TotalRequests s),
      ta_Errors = i64 (ta_Errors a + ms_TotalErrors s)\<rparr>"

definition traffic_loop :: "metric_snapshot list \<Rightarrow> traffic_acc" where
  "traffic_loop = foldl traffic_step
     \<lparr>ta_RPS = Fin 0, ta_AvgRPS = Fin 0, ta_PeakRPS = Fin 0, ta_ErrorRate = Fin 0, ta_Requests = 0, ta_Errors = 0\<rparr>"

text \<open>The second loop: minimum (zero means unset), maximum, weighted sum and count.\<close>

record latency_acc =
  la_Min :: duration
  la_Max :: duration
  la_Total :: duration
  la_Count :: int64

definition latency_step :: "latency_acc \<Rightarrow> metric_snapshot \<Rightarrow> latency_acc" where
  "latency_step a s =
     (let l = ms_Latency s
      in if 0 < lat_Count l
         then \<lparr>la_Min = (if la_Min a = 0 \<or> lat_Min l < la_Min a then lat_Min l else la_Min a),
               la_Max = (if la_Max a < lat_Max l then lat_Max l else la_Max a),
               la_Total = i64 (la_Total a + i64 (lat_Mean l * lat_Count l)),
               la_Count = i64 (la_Count a + lat_Count l)\<rparr>
         else a)"

definition latency_loop :: "metric_snapshot list \<Rightarrow> latency_acc" where
  "latency_loop = foldl latency_step \<lparr>la_Min = 0, la_Max = 0, la_Total = 0, la_Count = 0\<rparr>"

text \<open>The third loop: sums of the percentiles.\<close>

record percentile_acc =
  pa_P50 :: duration
  pa_P95 :: duration
  pa_P99 :: duration
  pa_P999 :: duration
  pa_count :: int

definition percentile_step :: "percentile_acc \<Rightarrow> metric_snapshot \<Rightarrow> percentile_acc" where
  "percentile_step a s =
     (let l = ms_Latency s
      in if 0 < lat_Count l
         then \<lparr>pa_P50 = i64 (pa_P50 a + lat_P50 l), pa_P95 = i64 (pa_P95 a + lat_P95 l),
               pa_P99 = i64 (pa_P99 a + lat_P99 l), pa_P999 = i64 (pa_P999 a + lat_P999 l),
               pa_count = i64 (pa_count a + 1)\<rparr>
         else a)"

definition percentile_loop :: "metric_snapshot list \<Rightarrow> percentile_acc" where
  "percentile_loop = foldl percentile_step \<lparr>pa_P50 = 0, pa_P95 = 0, pa_P99 = 0, pa_P999 = 0, pa_count = 0\<rparr>"

text \<open>\<open>(float64(totalErrors) / float64(totalRequests)) * 100\<close>\<close>

definition error_percentage :: "int64 \<Rightarrow> int64 \<Rightarrow> f64" where
  "error_percentage totalErrors totalRequests =
     (if 0 < totalRequests
      then f64_mul (f64_div (f64_of_int totalErrors) (f64_of_int totalRequests)) (Fin 100)
      else Fin 0)"

definition rollup ::
  "metric_snapshot list \<Rightarrow> metric_snapshot list \<Rightarrow> metric_snapshot list \<Rightarrow> go_time \<Rightarrow> metric_snapshot" where
  "rollup ss1 ss2 ss3 now =
     (let t = traffic_loop ss1;
          l = latency_loop ss2;
          p = percentile_loop ss3;
          avg = (\<lambda>sum. if 0 < pa_count p then go_div sum (pa_count p) else 0)
      in \<lparr>ms_RPS = \<lparr>rps_Current = ta_RPS t, rps_Average = ta_AvgRPS t, rps_Peak = ta_PeakRPS t, rps_WindowSeconds = 10\<rparr>,
          ms_Latency = \<lparr>lat_Min = la_Min l, lat_Max = la_Max l,
            lat_Mean = (if 0 < la_Count l then go_div (la_Total l) (la_Count l) else 0),
            lat_P50 = avg (pa_P50 p), lat_P95 = avg (pa_P95 p), lat_P99 = avg (pa_P99 p), lat_P999 = avg (pa_P999 p),
            lat_Count = la_Count l\<rparr>,
          ms_ErrorRate = zero_error_rate\<lparr>er_Rate := ta_ErrorRate t,
            er_Percentage := error_percentage (ta_Errors t) (ta_Requests t)\<rparr>,
          ms_TotalRequests = ta_Requests t,
          ms_TotalErrors = ta_Errors t,
          ms_Timestamp = now,
          ms_WorkerID = ''''\<rparr>)"

definition snapshots :: "string list \<Rightarrow> (string, worker_metrics) gomap \<Rightarrow> metric_snapshot list" where
  "snapshots ord workers = map (\<lambda>e. wm_Snapshot (snd e)) (range_entries ord workers)"

type_synonym loop_orders = "string list \<times> string list \<times> string list"

definition recalculate :: "loop_orders \<Rightarrow> go_time \<Rightarrow> string \<Rightarrow> metrics_aggregator \<Rightarrow> metrics_aggregator" where
  "recalculate ords now testID ma =
     (let workers = get0 [] (ma_workerMetrics ma) testID
      in if workers = [] then ma
         else ma\<lparr>ma_aggregated := AList.update testID
                (rollup (snapshots (fst ords) workers) (snapshots (fst (snd ords)) workers)
                   (snapshots (snd (snd ords)) workers) now)
                (ma_aggregated ma)\<rparr>)"

section \<open>Operations\<close>

text \<open>The snapshot built from a batch.\<close>

definition batch_snapshot :: "string \<Rightarrow> pb_batch \<Rightarrow> metric_snapshot option" where
  "batch_snapshot workerID batch =
     (case (pb_RpsSnapshot batch, pb_LatencyHistogram batch, pb_ErrorRate batch) of
        (Some r, Some l, Some e) \<Rightarrow>
          Some \<lparr>ms_RPS = \<lparr>rps_Current = prps_Current r, rps_Average = prps_Average r, rps_Peak = prps_Peak r,
                          rps_WindowSeconds = prps_WindowSeconds r\<rparr>,
                ms_Latency = \<lparr>lat_Min = from_ms (plat_MinMs l), lat_Max = from_ms (plat_MaxMs l),
                  lat_Mean = from_ms (plat_MeanMs l), lat_P50 = from_ms (plat_P50Ms l),
                  lat_P95 = from_ms (plat_P95Ms l), lat_P99 = from_ms (plat_P99Ms l),
                  lat_P999 = from_ms (plat_P999Ms l), lat_Count = plat_Count l\<rparr>,
                ms_ErrorRate = zero_error_rate\<lparr>er_Rate := per_Rate e, er_Percentage := per_Percentage e\<rparr>,
                ms_TotalRequests = pb_TotalRequests batch,
                ms_TotalErrors = pb_TotalErrors batch,
                ms_Timestamp = time_unix_milli (pb_BatchTimestampMs batch),
                ms_WorkerID = workerID\<rparr>
      | _ \<Rightarrow> None)"

text \<open>\<open>clock\<close> holds the two times read: for the worker's entry and for the rollup.\<close>

definition UpdateWorkerMetrics ::
  "loop_orders \<Rightarrow> go_time \<times> go_time \<Rightarrow> string \<Rightarrow> string \<Rightarrow> pb_batch \<Rightarrow> metrics_aggregator \<Rightarrow> metrics_aggregator option" where
  "UpdateWorkerMetrics ords clock testID workerID batch ma =
     (if testID = '''' then Some ma
      else case batch_snapshot workerID batch of
             None \<Rightarrow> None
           | Some snapshot \<Rightarrow>
               let workers = AList.update workerID \<lparr>wm_Snapshot = snapshot, wm_LastUpdate = fst clock\<rparr>
                               (get0 [] (ma_workerMetrics ma) testID)
               in Some (recalculate ords (snd clock) testID
                    (ma\<lparr>ma_workerMetrics := AList.update testID workers (ma_workerMetrics ma)\<rparr>)))"

definition GetAggregatedMetrics :: "string \<Rightarrow> metrics_aggregator \<Rightarrow> metric_snapshot" where
  "GetAggregatedMetrics testID ma = get0 zero_snapshot (ma_aggregated ma) testID"

definition GetWorkerMetrics :: "string \<Rightarrow> string \<Rightarrow> metrics_aggregator \<Rightarrow> metric_snapshot \<times> bool" where
  "GetWorkerMetrics testID workerID ma =
     (case map_of (get0 [] (ma_workerMetrics ma) testID) workerID of
        None \<Rightarrow> (zero_snapshot, False)
      | Some wm \<Rightarrow> (wm_Snapshot wm, True))"

definition RemoveTest :: "string \<Rightarrow> metrics_aggregator \<Rightarrow> metrics_aggregator" where
  "RemoveTest testID ma =
     ma\<lparr>ma_workerMetrics := AList.delete testID (ma_workerMetrics ma),
        ma_aggregated := AList.delete testID (ma_aggregated ma)\<rparr>"

section \<open>Counters\<close>

lemma traffic_foldl_counters:
  "in64 (ta_Requests a) \<Longrightarrow> in64 (ta_Errors a) \<Longrightarrow>
   ta_Requests (foldl traffic_step a ss) = i64 (ta_Requests a + sum_list (map ms_TotalRequests ss))
   \<and> ta_Errors (foldl traffic_step a ss) = i64 (ta_Errors a + sum_list (map ms_TotalErrors ss))"
proof (induction ss arbitrary: a)
  case (Cons s ss)
  then show ?case by (simp add: traffic_step_def i64_i64_add add.assoc)
qed (simp add: i64_id)

lemma traffic_counters:
  "ta_Requests (traffic_loop ss) = i64 (sum_list (map ms_TotalRequests ss))"
  "ta_Errors (traffic_loop ss) = i64 (sum_list (map ms_TotalErrors ss))"
  using traffic_foldl_counters [of "\<lparr>ta_RPS = Fin 0, ta_AvgRPS = Fin 0, ta_PeakRPS = Fin 0, ta_ErrorRate = Fin 0,
     ta_Requests = 0, ta_Errors = 0\<rparr>" ss]
  by (simp_all add: traffic_loop_def in64_def)

section \<open>Latencies\<close>

abbreviation active :: "metric_snapshot list \<Rightarrow> latency_histogram list" where
  "active ss \<equiv> filter (\<lambda>l. 0 < lat_Count l) (map ms_Latency ss)"

text \<open>What a worker reports of its latencies: a positive minimum, and the mean in between.\<close>

definition lat_sane :: "latency_histogram \<Rightarrow> bool" where
  "lat_sane l \<longleftrightarrow> 0 < lat_Min l \<and> lat_Min l \<le> lat_Mean l \<and> lat_Mean l \<le> lat_Max l"

definition lat_bound :: "metric_snapshot list \<Rightarrow> bool" where
  "lat_bound ss \<longleftrightarrow> sum_list (map (\<lambda>l. lat_Max l * lat_Count l) (active ss)) < 2 ^ 63"

text \<open>The state of the second loop after some snapshots.\<close>

definition lat_inv :: "latency_histogram list \<Rightarrow> latency_acc \<Rightarrow> bool" where
  "lat_inv ls a \<longleftrightarrow>
     (if ls = [] then a = \<lparr>la_Min = 0, la_Max = 0, la_Total = 0, la_Count = 0\<rparr>
      else la_Min a = Min (lat_Min ` set ls) \<and> la_Max a = Max (lat_Max ` set ls)
        \<and> la_Total a = sum_list (map (\<lambda>l. lat_Mean l * lat_Count l) ls)
        \<and> la_Count a = sum_list (map lat_Count ls))"

lemma sum_list_nonneg_map: "(\<And>x. x \<in> set xs \<Longrightarrow> 0 \<le> f x) \<Longrightarrow> 0 \<le> (sum_list (map f xs) :: int)"
  by (rule sum_list_nonneg) auto

lemma sane_sums:
  assumes "\<forall>l \<in> set ls. lat_sane l \<and> 0 < lat_Count l"
  shows "0 \<le> sum_list (map lat_Count ls)"
    and "sum_list (map lat_Count ls) \<le> sum_list (map (\<lambda>l. lat_Mean l * lat_Count l) ls)"
    and "sum_list (map (\<lambda>l. lat_Mean l * lat_Count l) ls) \<le> sum_list (map (\<lambda>l. lat_Max l * lat_Count l) ls)"
proof -
  have b: "1 * lat_Count l \<le> lat_Mean l * lat_Count l" "lat_Mean l * lat_Count l \<le> lat_Max l * lat_Count l"
    "0 \<le> lat_Count l" if "l \<in> set ls" for l
    using assms that by (auto simp: lat_sane_def intro!: mult_right_mono)
  show "0 \<le> sum_list (map lat_Count ls)" using b(3) by (rule sum_list_nonneg_map)
  show "sum_list (map lat_Count ls) \<le> sum_list (map (\<lambda>l. lat_Mean l * lat_Count l) ls)"
    using b(1) by (intro sum_list_mono) simp
  show "sum_list (map (\<lambda>l. lat_Mean l * lat_Count l) ls) \<le> sum_list (map (\<lambda>l. lat_Max l * lat_Count l) ls)"
    using b(2) by (intro sum_list_mono) simp
qed

lemma lat_inv_step:
  assumes "lat_inv ls a" and ok: "\<forall>x \<in> set (ls @ [l]). lat_sane x \<and> 0 < lat_Count x"
    and l: "ms_Latency s = l"
    and "sum_list (map (\<lambda>l. lat_Max l * lat_Count l) (ls @ [l])) < 2 ^ 63"
  shows "lat_inv (ls @ [l]) (latency_step a s)"
proof -
  have pos: "0 < lat_Count l" "0 < lat_Min l" and lm: "0 < lat_Mean l" "0 < lat_Max l"
    using ok by (auto simp: lat_sane_def)
  note B = sane_sums [OF ok]
  have ls: "\<forall>x \<in> set ls. lat_sane x \<and> 0 < lat_Count x" using ok by simp
  note C = sane_sums [OF ls]
  let ?T = "\<lambda>ls. sum_list (map (\<lambda>l. lat_Mean l * lat_Count l) ls)" and ?N = "\<lambda>ls. sum_list (map lat_Count ls)"
  have T0: "0 \<le> ?T ls" and N0: "0 \<le> ?N ls" using C by linarith+
  have "0 < lat_Mean l * lat_Count l" using lm pos by simp
  with B T0 assms(4) have w: "i64 (lat_Mean l * lat_Count l) = lat_Mean l * lat_Count l"
    "i64 (?T ls + lat_Mean l * lat_Count l) = ?T (ls @ [l])"
    "i64 (?N ls + lat_Count l) = ?N (ls @ [l])"
    using N0 pos(1) by (auto intro!: i64_id simp: in64_def)
  have acc: "la_Total a = ?T ls" "la_Count a = ?N ls" using assms(1) by (auto simp: lat_inv_def split: if_splits)
  show ?thesis
  proof (cases "ls = []")
    case True
    with assms(1) have "a = \<lparr>la_Min = 0, la_Max = 0, la_Total = 0, la_Count = 0\<rparr>" by (simp add: lat_inv_def)
    with True w pos lm show ?thesis by (simp add: lat_inv_def latency_step_def l Let_def)
  next
    case False
    have mins: "Min (lat_Min ` set ls) \<in> lat_Min ` set ls" using False by (intro Min_in) auto
    then have "0 < Min (lat_Min ` set ls)" using ls by (auto simp: lat_sane_def)
    moreover have "la_Min a = Min (lat_Min ` set ls)" "la_Max a = Max (lat_Max ` set ls)"
      using assms(1) False by (auto simp: lat_inv_def)
    ultimately have "latency_step a s = \<lparr>la_Min = min (lat_Min l) (Min (lat_Min ` set ls)),
        la_Max = max (lat_Max l) (Max (lat_Max ` set ls)), la_Total = ?T (ls @ [l]), la_Count = ?N (ls @ [l])\<rparr>"
      using pos w acc by (simp add: latency_step_def l Let_def min_def max_def)
    with False show ?thesis by (simp add: lat_inv_def)
  qed
qed

lemma latency_loop_inv:
  "\<forall>l \<in> set (active ss). lat_sane l \<Longrightarrow> lat_bound ss \<Longrightarrow> lat_inv (active ss) (latency_loop ss)"
proof (induction ss rule: rev_induct)
  case Nil
  show ?case by (simp add: lat_inv_def latency_loop_def)
next
  case (snoc s ss)
  have loop: "latency_loop (ss @ [s]) = latency_step (latency_loop ss) s" by (simp add: latency_loop_def)
  show ?case
  proof (cases "0 < lat_Count (ms_Latency s)")
    case True
    have "0 < lat_Max (ms_Latency s) * lat_Count (ms_Latency s)"
      using snoc.prems(1) True by (auto simp: lat_sane_def)
    then have "lat_bound ss" using snoc.prems(2) True by (simp add: lat_bound_def)
    then have IH: "lat_inv (active ss) (latency_loop ss)" using snoc.IH snoc.prems(1) by simp
    have "active (ss @ [s]) = active ss @ [ms_Latency s]" using True by simp
    then show ?thesis
      using lat_inv_step [OF IH _ refl] snoc.prems True unfolding loop lat_bound_def by auto
  next
    case False
    then show ?thesis using snoc by (simp add: loop latency_step_def lat_bound_def)
  qed
qed

text \<open>The weighted mean lies between the smallest and the largest.\<close>

lemma weighted_mean_bounds:
  assumes "\<forall>l \<in> set ls. lat_sane l \<and> 0 < lat_Count l" and "ls \<noteq> []"
  defines "n \<equiv> sum_list (map lat_Count ls)" and "t \<equiv> sum_list (map (\<lambda>l. lat_Mean l * lat_Count l) ls)"
  shows "0 < n" and "Min (lat_Min ` set ls) \<le> t div n" and "t div n \<le> Max (lat_Max ` set ls)" and "0 \<le> t"
proof -
  let ?m = "Min (lat_Min ` set ls)" and ?M = "Max (lat_Max ` set ls)"
  obtain l ls' where ls: "ls = l # ls'" using assms(2) by (cases ls) auto
  have "0 \<le> sum_list (map lat_Count ls')" using assms(1) ls by (intro sane_sums(1)) auto
  then show n: "0 < n" using assms(1) ls by (simp add: n_def)
  have m: "?m \<le> lat_Min x" "lat_Max x \<le> ?M" if "x \<in> set ls" for x using that by auto
  have b: "?m * lat_Count x \<le> lat_Mean x * lat_Count x" "lat_Mean x * lat_Count x \<le> ?M * lat_Count x"
    if "x \<in> set ls" for x
  proof -
    have "lat_sane x" "0 \<le> lat_Count x" using assms(1) that by auto
    moreover from this(1) have "?m \<le> lat_Mean x" "lat_Mean x \<le> ?M"
      using m [OF that] by (simp_all add: lat_sane_def)
    ultimately show "?m * lat_Count x \<le> lat_Mean x * lat_Count x" "lat_Mean x * lat_Count x \<le> ?M * lat_Count x"
      by (simp_all add: mult_right_mono)
  qed
  have "?m * n \<le> t" unfolding n_def t_def sum_list_const_mult [symmetric]
    using b(1) by (intro sum_list_mono) simp
  then have "?m * n div n \<le> t div n" using n by (intro zdiv_mono1) auto
  then show "?m \<le> t div n" using n by simp
  have "t \<le> ?M * n" unfolding n_def t_def sum_list_const_mult [symmetric]
    using b(2) by (intro sum_list_mono) simp
  then have "t div n \<le> ?M * n div n" using n by (intro zdiv_mono1) auto
  then show "t div n \<le> ?M" using n by simp
  show "0 \<le> t" using sane_sums(1,2) [OF assms(1)] by (simp add: t_def)
qed

section \<open>Percentiles and the error percentage\<close>

lemma percentile_foldl:
  fixes a :: percentile_acc
  assumes "in64 (pa_P50 a)" "in64 (pa_P95 a)" "in64 (pa_P99 a)" "in64 (pa_P999 a)" "in64 (pa_count a)"
  shows "pa_P50 (foldl percentile_step a ss) = i64 (pa_P50 a + sum_list (map lat_P50 (active ss)))
    \<and> pa_P95 (foldl percentile_step a ss) = i64 (pa_P95 a + sum_list (map lat_P95 (active ss)))
    \<and> pa_P99 (foldl percentile_step a ss) = i64 (pa_P99 a + sum_list (map lat_P99 (active ss)))
    \<and> pa_P999 (foldl percentile_step a ss) = i64 (pa_P999 a + sum_list (map lat_P999 (active ss)))
    \<and> pa_count (foldl percentile_step a ss) = i64 (pa_count a + int (length (active ss)))"
  using assms
proof (induction ss arbitrary: a)
  case (Cons s ss)
  show ?case
  proof (cases "0 < lat_Count (ms_Latency s)")
    case True
    have "active (s # ss) = ms_Latency s # active ss" using True by simp
    then show ?thesis
      using Cons.IH [of "percentile_step a s"] True
      by (simp only: foldl_Cons percentile_step_def Let_def if_True percentile_acc.simps in64_i64 simp_thms
            i64_i64_add add.assoc list.map sum_list.Cons length_Cons of_nat_Suc)
  next
    case False
    then show ?thesis using Cons by (simp add: percentile_step_def)
  qed
qed (simp add: i64_id)

definition percentiles_sane :: "latency_histogram \<Rightarrow> bool" where
  "percentiles_sane l \<longleftrightarrow> 0 \<le> lat_P50 l \<and> lat_P50 l \<le> lat_P95 l \<and> lat_P95 l \<le> lat_P99 l \<and> lat_P99 l \<le> lat_P999 l"

lemma avg_mono: "0 \<le> a \<Longrightarrow> a \<le> b \<Longrightarrow> 0 < n \<Longrightarrow> go_div a n \<le> go_div b n"
  by (simp add: go_div_nonneg zdiv_mono1)

lemma rollup_percentiles:
  assumes "\<forall>l \<in> set (active ss3). percentiles_sane l" and "sum_list (map lat_P999 (active ss3)) < 2 ^ 63"
    and "int (length ss3) < 2 ^ 63"
  shows "percentiles_sane (ms_Latency (rollup ss1 ss2 ss3 now))"
proof -
  define A where "A = active ss3"
  note assms = assms [folded A_def]
  let ?s = "\<lambda>f. sum_list (map f A)"
  have le: "?s lat_P50 \<le> ?s lat_P95" "?s lat_P95 \<le> ?s lat_P99" "?s lat_P99 \<le> ?s lat_P999"
    using assms(1) by (auto simp: percentiles_sane_def intro!: sum_list_mono)
  have nn: "0 \<le> ?s lat_P50" using assms(1) by (intro sum_list_nonneg_map) (auto simp: percentiles_sane_def)
  have len: "int (length A) < 2 ^ 63"
    using assms(3) length_filter_le [of "\<lambda>l. 0 < lat_Count l" "map ms_Latency ss3"]
    unfolding length_map A_def by linarith
  have i: "i64 (?s lat_P50) = ?s lat_P50" "i64 (?s lat_P95) = ?s lat_P95" "i64 (?s lat_P99) = ?s lat_P99"
    "i64 (?s lat_P999) = ?s lat_P999" "i64 (int (length A)) = int (length A)"
    using le nn assms(2) len by (auto intro!: i64_id simp: in64_def)
  have p: "pa_P50 (percentile_loop ss3) = ?s lat_P50" "pa_P95 (percentile_loop ss3) = ?s lat_P95"
    "pa_P99 (percentile_loop ss3) = ?s lat_P99" "pa_P999 (percentile_loop ss3) = ?s lat_P999"
    "pa_count (percentile_loop ss3) = int (length A)"
    using percentile_foldl [of "\<lparr>pa_P50 = 0, pa_P95 = 0, pa_P99 = 0, pa_P999 = 0, pa_count = 0\<rparr>" ss3] i
    by (simp_all add: percentile_loop_def in64_def A_def [symmetric])
  show ?thesis
  proof (cases "A = []")
    case True
    then show ?thesis using p(5) by (simp add: rollup_def Let_def percentiles_sane_def)
  next
    case False
    then have n: "0 < int (length A)" by simp
    have "0 \<le> go_div (?s lat_P50) (int (length A))"
      using nn n by (simp only: go_div_nonneg) (simp add: pos_imp_zdiv_nonneg_iff)
    moreover have "go_div (?s lat_P50) (int (length A)) \<le> go_div (?s lat_P95) (int (length A))"
      "go_div (?s lat_P95) (int (length A)) \<le> go_div (?s lat_P99) (int (length A))"
      "go_div (?s lat_P99) (int (length A)) \<le> go_div (?s lat_P999) (int (length A))"
      using le nn n by (auto intro!: avg_mono)
    ultimately show ?thesis
      using n by (simp only: rollup_def Let_def percentiles_sane_def p if_True metric_snapshot.simps latency_histogram.simps)
  qed
qed

lemma error_percentage_bounds:
  assumes "0 \<le> e" and "e \<le> r" and "r < 2 ^ 53"
  shows "\<exists>q. error_percentage e r = Fin q \<and> 0 \<le> q \<and> q \<le> 100"
proof (cases "0 < r")
  case True
  have r: "(0 :: rat) < of_int r" using True by simp
  have f: "f64_of_int e = Fin (of_int e)" "f64_of_int r = Fin (of_int r)"
    using assms True by (simp_all add: f64_of_int_small)
  let ?x = "of_int e / of_int r :: rat"
  have x: "0 \<le> ?x" "?x \<le> 1" using assms True by (simp_all add: divide_le_eq_1)
  have "?x < 2 ^ 53" using x(2) by (rule le_less_trans) simp
  then have d: "f64_round ?x = Fin (frnd ?x)" and q: "0 \<le> frnd ?x"
    using x(1) by (simp_all only: f64_round_small frnd_nonneg)
  have q1: "frnd ?x \<le> 1" using frnd_le_int [of ?x 1] x \<open>?x < 2 ^ 53\<close> by simp
  let ?y = "frnd ?x * 100"
  have y: "0 \<le> ?y" "?y \<le> 100" using q q1 by simp_all
  have "?y < 2 ^ 53" using y(2) by (rule le_less_trans) simp
  then have "f64_round ?y = Fin (frnd ?y)" and "0 \<le> frnd ?y"
    using y(1) by (simp_all only: f64_round_small frnd_nonneg)
  moreover have "frnd ?y \<le> 100" using frnd_le_int [of ?y 100] y \<open>?y < 2 ^ 53\<close> by simp
  ultimately show ?thesis using True r by (simp add: error_percentage_def f d)
next
  case False
  then show ?thesis by (simp add: error_percentage_def)
qed

section \<open>Histories\<close>

text \<open>What the aggregator is told, newest first: reports and removals of tests.\<close>

datatype ma_event = Reported string string pb_batch | Removed string

text \<open>The abstract view: the last batch of each worker of each test.\<close>

fun latest :: "ma_event list \<Rightarrow> string \<Rightarrow> string \<Rightarrow> pb_batch option" where
  "latest [] t w = None"
| "latest (Reported t' w' b # es) t w = (if t' = t \<and> w' = w \<and> t \<noteq> '''' then Some b else latest es t w)"
| "latest (Removed t' # es) t w = (if t' = t then None else latest es t w)"

abbreviation workers_of :: "metrics_aggregator \<Rightarrow> string \<Rightarrow> (string, worker_metrics) gomap" where
  "workers_of ma t \<equiv> get0 [] (ma_workerMetrics ma) t"

definition orders_for :: "loop_orders \<Rightarrow> (string, worker_metrics) gomap \<Rightarrow> bool" where
  "orders_for ords m \<longleftrightarrow> range_order (fst ords) m \<and> range_order (fst (snd ords)) m \<and> range_order (snd (snd ords)) m"

text \<open>The aggregator's runs, with the history that led there: each report may iterate the maps
  in any orders.\<close>

inductive ma_run :: "ma_event list \<Rightarrow> metrics_aggregator \<Rightarrow> bool" where
  start: "ma_run [] NewMetricsAggregator"
| report: "ma_run es ma \<Longrightarrow> UpdateWorkerMetrics ords clock t w b ma = Some ma' \<Longrightarrow> orders_for ords (workers_of ma' t)
    \<Longrightarrow> ma_run (Reported t w b # es) ma'"
| remove: "ma_run es ma \<Longrightarrow> ma_run (Removed t # es) (RemoveTest t ma)"

definition rolled_up :: "(string, worker_metrics) gomap \<Rightarrow> metric_snapshot option \<Rightarrow> bool" where
  "rolled_up m s \<longleftrightarrow> (if m = [] then s = None
     else \<exists>x. s = Some x
       \<and> ms_TotalRequests x = i64 (sum_list (map (\<lambda>e. ms_TotalRequests (wm_Snapshot (snd e))) m))
       \<and> ms_TotalErrors x = i64 (sum_list (map (\<lambda>e. ms_TotalErrors (wm_Snapshot (snd e))) m)))"

definition ma_inv :: "ma_event list \<Rightarrow> metrics_aggregator \<Rightarrow> bool" where
  "ma_inv es ma \<longleftrightarrow> (\<forall>t. gomap_ok (workers_of ma t) \<and> rolled_up (workers_of ma t) (map_of (ma_aggregated ma) t)
     \<and> (\<forall>w. map_option (\<lambda>x. Some (wm_Snapshot x)) (map_of (workers_of ma t) w) = map_option (batch_snapshot w) (latest es t w)))"

lemma rollup_counters:
  assumes "range_order ord m" and "gomap_ok m"
  shows "ms_TotalRequests (rollup (snapshots ord m) b c now) = i64 (sum_list (map (\<lambda>e. ms_TotalRequests (wm_Snapshot (snd e))) m))"
    and "ms_TotalErrors (rollup (snapshots ord m) b c now) = i64 (sum_list (map (\<lambda>e. ms_TotalErrors (wm_Snapshot (snd e))) m))"
  using sum_list_mset_cong [OF mset_range_entries [OF assms]]
  by (simp_all add: rollup_def Let_def traffic_counters snapshots_def o_def)

lemma AList_update_Nil [simp]: "AList.update k v m \<noteq> []"
  by (cases m) auto

lemma update_effect:
  assumes "UpdateWorkerMetrics ords clock t w b ma = Some ma'" and "t \<noteq> ''''"
  obtains s where "batch_snapshot w b = Some s"
    and "workers_of ma' = (workers_of ma)(t := AList.update w \<lparr>wm_Snapshot = s, wm_LastUpdate = fst clock\<rparr> (workers_of ma t))"
    and "map_of (ma_aggregated ma') = (map_of (ma_aggregated ma))(t \<mapsto>
      rollup (snapshots (fst ords) (workers_of ma' t)) (snapshots (fst (snd ords)) (workers_of ma' t))
        (snapshots (snd (snd ords)) (workers_of ma' t)) (snd clock))"
  using assms
  by (auto simp: UpdateWorkerMetrics_def recalculate_def Let_def get0_put fun_eq_iff map_of_put split: option.splits)

lemma ma_inv_run: "ma_run es ma \<Longrightarrow> ma_inv es ma"
proof (induction rule: ma_run.induct)
  case start
  show ?case by (simp add: ma_inv_def NewMetricsAggregator_def get0_def rolled_up_def)
next
  case (report es ma ords clock t w b ma')
  show ?case
  proof (cases "t = ''''")
    case True
    with report have "ma' = ma" by (simp add: UpdateWorkerMetrics_def)
    moreover have "latest (Reported t w b # es) = latest es" using True by (intro ext) auto
    ultimately show ?thesis using report.IH by (simp add: ma_inv_def)
  next
    case False
    from update_effect [OF report.hyps(2) False] obtain s where s: "batch_snapshot w b = Some s"
      and W: "workers_of ma' = (workers_of ma)(t := AList.update w \<lparr>wm_Snapshot = s, wm_LastUpdate = fst clock\<rparr> (workers_of ma t))"
      and A: "map_of (ma_aggregated ma') = (map_of (ma_aggregated ma))(t \<mapsto>
        rollup (snapshots (fst ords) (workers_of ma' t)) (snapshots (fst (snd ords)) (workers_of ma' t))
          (snapshots (snd (snd ords)) (workers_of ma' t)) (snd clock))"
      by blast
    have g: "gomap_ok (workers_of ma' u)" for u
      using report.IH W by (simp add: ma_inv_def gomap_ok_update)
    have "rolled_up (workers_of ma' u) (map_of (ma_aggregated ma') u)" for u
    proof (cases "u = t")
      case True
      have "range_order (fst ords) (workers_of ma' t)" using report.hyps(3) by (simp add: orders_for_def)
      from rollup_counters [OF this g] show ?thesis using True by (simp add: rolled_up_def A) (simp add: W)
    next
      case False
      with W A report.IH show ?thesis by (simp add: ma_inv_def)
    qed
    moreover have "map_option (\<lambda>x. Some (wm_Snapshot x)) (map_of (workers_of ma' u) v) =
        map_option (batch_snapshot v) (latest (Reported t w b # es) u v)" for u v
      using report.IH False s by (auto simp: W map_of_put ma_inv_def)
    ultimately show ?thesis using g by (simp add: ma_inv_def del: latest.simps)
  qed
next
  case (remove es ma t)
  have R: "workers_of (RemoveTest t ma) u = (if u = t then [] else workers_of ma u)"
    "map_of (ma_aggregated (RemoveTest t ma)) u = (if u = t then None else map_of (ma_aggregated ma) u)" for u
    by (auto simp: RemoveTest_def get0_def map_of_del)
  show ?case unfolding ma_inv_def
  proof
    fix u
    show "gomap_ok (workers_of (RemoveTest t ma) u)
        \<and> rolled_up (workers_of (RemoveTest t ma) u) (map_of (ma_aggregated (RemoveTest t ma)) u)
        \<and> (\<forall>w. map_option (\<lambda>x. Some (wm_Snapshot x)) (map_of (workers_of (RemoveTest t ma) u) w)
              = map_option (batch_snapshot w) (latest (Removed t # es) u w))"
      using remove.IH [unfolded ma_inv_def, rule_format, of u]
      by (cases "u = t") (simp_all only: R latest.simps if_True if_False, simp_all add: rolled_up_def)
  qed
qed

lemma batch_snapshot_counters:
  "batch_snapshot w b = Some s \<Longrightarrow> ms_TotalRequests s = pb_TotalRequests b \<and> ms_TotalErrors s = pb_TotalErrors b"
  by (auto simp: batch_snapshot_def split: option.splits)

lemma sum_latest:
  assumes "gomap_ok m" and "\<And>w. map_option (\<lambda>x. Some (wm_Snapshot x)) (map_of m w) = map_option (batch_snapshot w) (l w)"
    and "\<And>w b s. batch_snapshot w b = Some s \<Longrightarrow> f s = g b"
  shows "sum_list (map (\<lambda>e. f (wm_Snapshot (snd e))) m) = (\<Sum>w | l w \<noteq> None. g (the (l w)) :: int)"
proof -
  have K: "keys m = {w. l w \<noteq> None}"
  proof -
    have "map_of m w = None \<longleftrightarrow> l w = None" for w
      using assms(2) [of w] by (cases "map_of m w"; cases "l w") auto
    then show ?thesis by (simp add: keys_def)
  qed
  have "sum_list (map (\<lambda>e. f (wm_Snapshot (snd e))) m) = (\<Sum>w \<in> keys m. f (wm_Snapshot (the (map_of m w))))"
    using sum_entries [OF assms(1), of "\<lambda>k v. f (wm_Snapshot v)"] by simp
  also have "\<dots> = (\<Sum>w | l w \<noteq> None. g (the (l w)))"
  proof (rule sum.cong [OF K])
    fix w assume "w \<in> {w. l w \<noteq> None}"
    then obtain b where b: "l w = Some b" by auto
    with assms(2) [of w] obtain x where "map_of m w = Some x" "Some (wm_Snapshot x) = batch_snapshot w b" by auto
    with assms(3) [of w b "wm_Snapshot x"] b show "f (wm_Snapshot (the (map_of m w))) = g (the (l w))" by simp
  qed
  finally show ?thesis .
qed

text \<open>Any batch with its message fields set extends a run.\<close>

lemma ma_run_extend:
  assumes "ma_run es ma" and "batch_snapshot w b \<noteq> None"
  shows "\<exists>ma'. ma_run (Reported t w b # es) ma'"
proof (cases "t = ''''")
  case True
  have "gomap_ok (workers_of ma t)" using ma_inv_run [OF assms(1)] by (simp add: ma_inv_def)
  then have "orders_for (map fst (workers_of ma t), map fst (workers_of ma t), map fst (workers_of ma t)) (workers_of ma t)"
    by (simp add: orders_for_def range_order_keys)
  moreover have "UpdateWorkerMetrics ords (0, 0) t w b ma = Some ma" for ords
    using True by (simp add: UpdateWorkerMetrics_def)
  ultimately show ?thesis using ma_run.report [OF assms(1)] by blast
next
  case False
  obtain s where s: "batch_snapshot w b = Some s" using assms(2) by auto
  let ?m = "AList.update w \<lparr>wm_Snapshot = s, wm_LastUpdate = 0\<rparr> (workers_of ma t)"
  let ?o = "map fst ?m"
  obtain ma' where ma': "UpdateWorkerMetrics (?o, ?o, ?o) (0, 0) t w b ma = Some ma'"
    using False s by (simp add: UpdateWorkerMetrics_def Let_def)
  have "workers_of ma' t = ?m" by (rule update_effect [OF ma' False]) (simp add: s)
  moreover have "gomap_ok ?m" using ma_inv_run [OF assms(1)] by (simp add: ma_inv_def gomap_ok_update)
  ultimately have "orders_for (?o, ?o, ?o) (workers_of ma' t)" by (simp add: orders_for_def range_order_keys)
  with ma_run.report [OF assms(1) ma'] show ?thesis by blast
qed

lemma mset_snapshots:
  assumes "range_order ord m" and "gomap_ok m"
  shows "mset (snapshots ord m) = mset (map (\<lambda>e. wm_Snapshot (snd e)) m)"
  using mset_range_entries [OF assms] by (simp add: snapshots_def)

lemma active_perm: "mset ss = mset ss' \<Longrightarrow> mset (active ss) = mset (active ss')"
  by (simp only: mset_filter mset_map)

section \<open>Properties\<close>

text \<open>C10: refinement. The aggregator refines the map from workers to their last batches: after any
  history of reports and removals, a worker's metrics are those of its last batch for the test
  since the test was last removed, and the fleet's request and error totals are the sums over
  exactly those batches. So no report is counted twice, runs never blend into each other, and a
  removed test starts from zero. The iteration orders of the maps do not matter.\<close>

theorem aggregation_of_latest:
  assumes "ma_run es ma"
  shows "(\<forall>w. GetWorkerMetrics t w ma =
      (case latest es t w of None \<Rightarrow> (zero_snapshot, False) | Some b \<Rightarrow> (the (batch_snapshot w b), True)))
    \<and> ms_TotalRequests (GetAggregatedMetrics t ma) = i64 (\<Sum>w | latest es t w \<noteq> None. pb_TotalRequests (the (latest es t w)))
    \<and> ms_TotalErrors (GetAggregatedMetrics t ma) = i64 (\<Sum>w | latest es t w \<noteq> None. pb_TotalErrors (the (latest es t w)))"
proof -
  let ?m = "workers_of ma t"
  have g: "gomap_ok ?m" and r: "rolled_up ?m (map_of (ma_aggregated ma) t)"
    and l: "map_option (\<lambda>x. Some (wm_Snapshot x)) (map_of ?m w) = map_option (batch_snapshot w) (latest es t w)" for w
    using ma_inv_run [OF assms] by (simp_all add: ma_inv_def)
  have agg: "GetAggregatedMetrics t ma = (case map_of (ma_aggregated ma) t of None \<Rightarrow> zero_snapshot | Some x \<Rightarrow> x)"
    by (simp add: GetAggregatedMetrics_def get0_def)
  have zero: "ms_TotalRequests zero_snapshot = 0" "ms_TotalErrors zero_snapshot = 0"
    by (simp_all add: zero_snapshot_def)
  have "GetWorkerMetrics t w ma =
      (case latest es t w of None \<Rightarrow> (zero_snapshot, False) | Some b \<Rightarrow> (the (batch_snapshot w b), True))" for w
  proof (cases "latest es t w")
    case None
    with l [of w] show ?thesis by (simp add: GetWorkerMetrics_def)
  next
    case (Some b)
    with l [of w] obtain x where "map_of ?m w = Some x" "Some (wm_Snapshot x) = batch_snapshot w b" by auto
    with Some show ?thesis by (simp add: GetWorkerMetrics_def flip: \<open>Some (wm_Snapshot x) = batch_snapshot w b\<close>)
  qed
  moreover note R = sum_latest [OF g l, of ms_TotalRequests pb_TotalRequests]
    and E = sum_latest [OF g l, of ms_TotalErrors pb_TotalErrors]
  ultimately show ?thesis
    using r R E batch_snapshot_counters
    by (cases "?m = []") (auto simp: rolled_up_def agg zero)
qed

definition demo_batch :: "int64 \<Rightarrow> int64 \<Rightarrow> pb_batch" where
  "demo_batch reqs errs = \<lparr>pb_WorkerId = ''w1'', pb_LatencyHistogram = Some zero_pb_latency, pb_RpsSnapshot = Some zero_pb_rps,
     pb_ErrorRate = Some zero_pb_error_rate, pb_BatchTimestampMs = 0, pb_TotalRequests = reqs, pb_TotalErrors = errs,
     pb_TestId = ''t'', pb_TestActive = True\<rparr>"

lemma demo_batch_ok: "batch_snapshot w (demo_batch r e) \<noteq> None"
  by (simp add: batch_snapshot_def demo_batch_def)

theorem aggregation_of_latest_witness:
  "\<exists>ma. ma_run [Reported ''t'' ''w1'' (demo_batch 30 1), Reported ''t'' ''w2'' (demo_batch 5 0),
      Reported ''t'' ''w1'' (demo_batch 20 1)] ma \<and> ms_TotalRequests (GetAggregatedMetrics ''t'' ma) = 35"
proof -
  let ?es = "[Reported ''t'' ''w1'' (demo_batch 30 1), Reported ''t'' ''w2'' (demo_batch 5 0),
      Reported ''t'' ''w1'' (demo_batch 20 1)]"
  obtain ma where run: "ma_run ?es ma"
    using ma_run.start ma_run_extend demo_batch_ok by metis
  have "{w. latest ?es ''t'' w \<noteq> None} = {''w1'', ''w2''}" by auto
  then show ?thesis using aggregation_of_latest [OF run, of "''t''"] run
    by (auto simp: demo_batch_def i64_def)
qed

text \<open>Bounds. The fleet's latencies are consistent: with at least one worker that measured
  something, the minimum and maximum are the true ones over those workers, the mean is the
  count-weighted one and lies between them, and the percentiles stay ordered. This needs what a
  worker's histogram gives (a positive minimum, ordered values) and sums that fit \<open>int64\<close>.\<close>

theorem rollup_latency_bounds:
  assumes "gomap_ok m" and "orders_for ords m" and "workers_of ma t = m"
    and ls: "ls = active (map (\<lambda>e. wm_Snapshot (snd e)) m)" and "ls \<noteq> []"
    and "\<forall>l \<in> set ls. 0 < lat_Min l \<and> lat_Min l \<le> lat_Mean l \<and> lat_Mean l \<le> lat_Max l"
    and "sum_list (map (\<lambda>l. lat_Max l * lat_Count l) ls) < 2 ^ 63"
  shows "let L = ms_Latency (GetAggregatedMetrics t (recalculate ords now t ma)) in
    lat_Min L = Min (lat_Min ` set ls) \<and> lat_Max L = Max (lat_Max ` set ls)
    \<and> lat_Count L = sum_list (map lat_Count ls)
    \<and> lat_Mean L = sum_list (map (\<lambda>l. lat_Mean l * lat_Count l) ls) div sum_list (map lat_Count ls)
    \<and> lat_Min L \<le> lat_Mean L \<and> lat_Mean L \<le> lat_Max L"
proof -
  define L where "L = ms_Latency (GetAggregatedMetrics t (recalculate ords now t ma))"
  let ?ss = "snapshots (fst (snd ords)) m"
  let ?L = "latency_loop ?ss"
  have "mset (active ?ss) = mset ls"
    unfolding ls using assms(1,2) by (intro active_perm mset_snapshots) (auto simp: orders_for_def)
  then have perm: "set (active ?ss) = set ls"
    and sums: "sum_list (map f (active ?ss)) = sum_list (map f ls)" for f :: "latency_histogram \<Rightarrow> int"
    by (metis mset_eq_setD, blast intro: sum_list_mset_cong)
  have sane: "\<forall>l \<in> set ls. lat_sane l \<and> 0 < lat_Count l" using assms(6) unfolding lat_sane_def ls by auto
  have "lat_inv (active ?ss) ?L"
    using sane assms(7) unfolding perm [symmetric] by (intro latency_loop_inv) (simp_all add: lat_bound_def sums)
  moreover have "active ?ss \<noteq> []" using perm assms(5) by (metis set_empty)
  ultimately have inv: "la_Min ?L = Min (lat_Min ` set ls)" "la_Max ?L = Max (lat_Max ` set ls)"
    "la_Total ?L = sum_list (map (\<lambda>l. lat_Mean l * lat_Count l) ls)" "la_Count ?L = sum_list (map lat_Count ls)"
    by (simp_all only: lat_inv_def perm sums if_False)
  have "m \<noteq> []" using assms(5) ls by auto
  then have L: "lat_Min L = la_Min ?L" "lat_Max L = la_Max ?L" "lat_Count L = la_Count ?L"
    "lat_Mean L = (if 0 < la_Count ?L then go_div (la_Total ?L) (la_Count ?L) else 0)"
    by (simp_all add: L_def GetAggregatedMetrics_def recalculate_def assms(3) get0_put Let_def rollup_def)
  note W = weighted_mean_bounds [OF sane assms(5)]
  show ?thesis unfolding L_def [symmetric] Let_def L inv using W by (simp add: go_div_nonneg)
qed

definition demo_metrics :: "int64 \<Rightarrow> duration \<Rightarrow> duration \<Rightarrow> duration \<Rightarrow> int64 \<Rightarrow> int64 \<Rightarrow> worker_metrics" where
  "demo_metrics n lo mean hi reqs errs = \<lparr>wm_Snapshot = zero_snapshot\<lparr>ms_Latency := \<lparr>lat_Min = lo, lat_Max = hi,
     lat_Mean = mean, lat_P50 = mean, lat_P95 = hi, lat_P99 = hi, lat_P999 = hi, lat_Count = n\<rparr>,
     ms_TotalRequests := reqs, ms_TotalErrors := errs\<rparr>, wm_LastUpdate = 0\<rparr>"

definition demo_fleet :: "(string, worker_metrics) gomap" where
  "demo_fleet = [(''w1'', demo_metrics 3 2 4 6 3 1), (''w2'', demo_metrics 1 5 8 8 1 0)]"

definition demo_ma :: "(string, worker_metrics) gomap \<Rightarrow> metrics_aggregator" where
  "demo_ma m = \<lparr>ma_workerMetrics = [(''t'', m)], ma_aggregated = []\<rparr>"

definition demo_orders :: loop_orders where
  "demo_orders = ([''w1'', ''w2''], [''w2'', ''w1''], [''w1'', ''w2''])"

lemma demo_fleet_ok: "gomap_ok demo_fleet" "orders_for demo_orders demo_fleet" "workers_of (demo_ma demo_fleet) ''t'' = demo_fleet"
  by (simp_all add: demo_fleet_def gomap_ok_def orders_for_def demo_orders_def range_order_def demo_ma_def get0_def insert_commute)

theorem rollup_latency_bounds_witness:
  "lat_Min (ms_Latency (GetAggregatedMetrics ''t'' (recalculate demo_orders 0 ''t'' (demo_ma demo_fleet)))) = 2
   \<and> lat_Mean (ms_Latency (GetAggregatedMetrics ''t'' (recalculate demo_orders 0 ''t'' (demo_ma demo_fleet)))) = 5"
  using rollup_latency_bounds [OF demo_fleet_ok refl, of 0]
  by (simp add: demo_fleet_def demo_metrics_def Let_def)

text \<open>Bounds. The percentiles of the rollup, averaged over the workers that measured something,
  keep their order (median, 95, 99, 99.9 percent) when every worker's are ordered.\<close>

theorem rollup_percentiles_ordered:
  assumes "gomap_ok m" and "orders_for ords m" and "workers_of ma t = m" and "m \<noteq> []"
    and ls: "ls = active (map (\<lambda>e. wm_Snapshot (snd e)) m)"
    and "\<forall>l \<in> set ls. 0 \<le> lat_P50 l \<and> lat_P50 l \<le> lat_P95 l \<and> lat_P95 l \<le> lat_P99 l \<and> lat_P99 l \<le> lat_P999 l"
    and "sum_list (map lat_P999 ls) < 2 ^ 63" and "int (length m) < 2 ^ 63"
  shows "let L = ms_Latency (GetAggregatedMetrics t (recalculate ords now t ma)) in
    0 \<le> lat_P50 L \<and> lat_P50 L \<le> lat_P95 L \<and> lat_P95 L \<le> lat_P99 L \<and> lat_P99 L \<le> lat_P999 L"
proof -
  let ?ss = "snapshots (snd (snd ords)) m"
  have r: "range_order (snd (snd ords)) m" using assms(2) by (simp add: orders_for_def)
  have "mset (active ?ss) = mset ls" unfolding ls using assms(1) r by (intro active_perm mset_snapshots)
  then have perm: "set (active ?ss) = set ls"
    and sums: "sum_list (map lat_P999 (active ?ss)) = sum_list (map lat_P999 ls)"
    by (metis mset_eq_setD, intro sum_list_mset_cong)
  have "length ?ss = length m"
    using mset_snapshots [OF r assms(1)] by (metis length_map size_mset)
  then have "percentiles_sane (ms_Latency (rollup (snapshots (fst ords) m) (snapshots (fst (snd ords)) m) ?ss now))"
    using assms(6-8) by (intro rollup_percentiles) (simp_all only: perm sums percentiles_sane_def)
  then show ?thesis
    using assms(3,4)
    by (simp add: percentiles_sane_def GetAggregatedMetrics_def recalculate_def get0_put [of zero_snapshot] Let_def)
qed

theorem rollup_percentiles_ordered_witness:
  "lat_P50 (ms_Latency (GetAggregatedMetrics ''t'' (recalculate demo_orders 0 ''t'' (demo_ma demo_fleet))))
   \<le> lat_P95 (ms_Latency (GetAggregatedMetrics ''t'' (recalculate demo_orders 0 ''t'' (demo_ma demo_fleet))))"
  using rollup_percentiles_ordered [OF demo_fleet_ok _ refl, of 0]
  by (simp add: demo_fleet_def demo_metrics_def Let_def)

text \<open>Bounds. The fleet's error percentage is a finite number between 0 and 100 whenever no
  worker reports more errors than requests and the totals are below \<open>2 ^ 53\<close>.\<close>

theorem rollup_error_percentage:
  assumes "gomap_ok m" and "orders_for ords m" and "workers_of ma t = m" and "m \<noteq> []"
    and "\<forall>e \<in> set m. 0 \<le> ms_TotalErrors (wm_Snapshot (snd e))
      \<and> ms_TotalErrors (wm_Snapshot (snd e)) \<le> ms_TotalRequests (wm_Snapshot (snd e))"
    and "sum_list (map (\<lambda>e. ms_TotalRequests (wm_Snapshot (snd e))) m) < 2 ^ 53"
  shows "\<exists>q. er_Percentage (ms_ErrorRate (GetAggregatedMetrics t (recalculate ords now t ma))) = Fin q \<and> 0 \<le> q \<and> q \<le> 100"
proof -
  let ?R = "sum_list (map (\<lambda>e. ms_TotalRequests (wm_Snapshot (snd e))) m)"
  let ?E = "sum_list (map (\<lambda>e. ms_TotalErrors (wm_Snapshot (snd e))) m)"
  have E: "0 \<le> ?E" using assms(5) by (intro sum_list_nonneg_map) auto
  have ER: "?E \<le> ?R" using assms(5) by (intro sum_list_mono) auto
  have r: "range_order (fst ords) m" using assms(2) by (simp add: orders_for_def)
  have perm: "mset (snapshots (fst ords) m) = mset (map (\<lambda>e. wm_Snapshot (snd e)) m)"
    by (rule mset_snapshots [OF r assms(1)])
  have "sum_list (map f (snapshots (fst ords) m)) = sum_list (map f (map (\<lambda>e. wm_Snapshot (snd e)) m))"
    for f :: "metric_snapshot \<Rightarrow> int" by (rule sum_list_mset_cong [OF perm])
  then have "ta_Requests (traffic_loop (snapshots (fst ords) m)) = i64 ?R"
    "ta_Errors (traffic_loop (snapshots (fst ords) m)) = i64 ?E"
    by (simp_all add: traffic_counters o_def)
  moreover have "i64 ?R = ?R" "i64 ?E = ?E" using E ER assms(6) by (auto intro!: i64_id simp: in64_def)
  ultimately show ?thesis
    using error_percentage_bounds [OF E ER assms(6)] assms(3,4)
    by (simp add: GetAggregatedMetrics_def recalculate_def get0_put [of zero_snapshot] Let_def rollup_def zero_error_rate_def)
qed

theorem rollup_error_percentage_witness:
  "\<exists>q. er_Percentage (ms_ErrorRate (GetAggregatedMetrics ''t'' (recalculate demo_orders 0 ''t'' (demo_ma demo_fleet)))) = Fin q
     \<and> 0 \<le> q \<and> q \<le> 100"
  by (rule rollup_error_percentage [OF demo_fleet_ok]) (simp_all add: demo_fleet_def demo_metrics_def)

text \<open>The minimum is not the true one when a worker reports a minimum of zero (any
  latency under a millisecond arrives as zero): zero also means "unset", so the result depends on
  the order in which Go iterates the worker map.\<close>

theorem rollup_minimum_depends_on_order:
  "let m = [(''w1'', demo_metrics 1 0 0 0 1 0), (''w2'', demo_metrics 1 5 5 5 1 0)] in
   orders_for ([''w1'', ''w2''], [''w1'', ''w2''], [''w1'', ''w2'']) m
   \<and> orders_for ([''w1'', ''w2''], [''w2'', ''w1''], [''w1'', ''w2'']) m
   \<and> lat_Min (ms_Latency (GetAggregatedMetrics ''t''
       (recalculate ([''w1'', ''w2''], [''w1'', ''w2''], [''w1'', ''w2'']) 0 ''t'' (demo_ma m)))) = 5
   \<and> lat_Min (ms_Latency (GetAggregatedMetrics ''t''
       (recalculate ([''w1'', ''w2''], [''w2'', ''w1''], [''w1'', ''w2'']) 0 ''t'' (demo_ma m)))) = 0"
  by (simp add: Let_def orders_for_def range_order_def insert_commute demo_metrics_def GetAggregatedMetrics_def
        recalculate_def demo_ma_def get0_def rollup_def latency_loop_def latency_step_def snapshots_def)

end
