(* ===== verification/Go_Duration.thy ===== *)
theory Go_Duration
  imports Go_Strings Models
begin

text \<open>
  \<open>time.ParseDuration\<close> and \<open>time.Duration.String\<close> of Go's standard library, statement by
  statement: plans travel between the program's processes as the strings the second writes and
  the first reads. Unsigned 64-bit values are natural numbers with the wrap-around written out
  where it can happen. The main lemma, \<open>read_back\<close>, is the round trip for every
  value of \<open>int64\<close>, the smallest included.
\<close>

section \<open>Parsing\<close>

datatype dur_error = InvalidDuration string | MissingUnit string | UnknownUnit string string

text \<open>\<open>leadingInt\<close>: the value may reach \<open>2 ^ 63\<close> and no further.\<close>

fun leading_int :: "nat \<Rightarrow> string \<Rightarrow> (nat \<times> string) option" where
  "leading_int x [] = Some (x, [])"
| "leading_int x (c # cs) =
     (if is_digit c
      then if 2 ^ 63 div 10 < x then None
           else let x' = x * 10 + digit_val c in if 2 ^ 63 < x' then None else leading_int x' cs
      else Some (x, c # cs))"

text \<open>\<open>leadingFraction\<close>: digits that do not fit are skipped.\<close>

fun leading_fraction :: "nat \<Rightarrow> f64 \<Rightarrow> bool \<Rightarrow> string \<Rightarrow> nat \<times> f64 \<times> string" where
  "leading_fraction x scale overflow [] = (x, scale, [])"
| "leading_fraction x scale overflow (c # cs) =
     (if is_digit c
      then if overflow then leading_fraction x scale True cs
           else if (2 ^ 63 - 1) div 10 < x then leading_fraction x scale True cs
           else let y = x * 10 + digit_val c
                in if 2 ^ 63 < y then leading_fraction x scale True cs
                   else leading_fraction y (f64_mul scale (Fin 10)) False cs
      else (x, scale, c # cs))"

definition unit_map :: "(string \<times> nat) list" where
  "unit_map = [(''ns'', 1), (''us'', 1000), ([CHR 0xC2, CHR 0xB5, CHR ''s''], 1000),
     ([CHR 0xCE, CHR 0xBC, CHR ''s''], 1000), (''ms'', 1000000), (''s'', 1000000000),
     (''m'', 60000000000), (''h'', 3600000000000)]"

fun f64_to_uint64 :: "f64 \<Rightarrow> nat" where
  "f64_to_uint64 (Fin a) = (if 0 \<le> a \<and> \<lfloor>a\<rfloor> < 2 ^ 64 then nat \<lfloor>a\<rfloor> else 2 ^ 63)"
| "f64_to_uint64 _ = 2 ^ 63"

definition unit_char :: "char \<Rightarrow> bool" where
  "unit_char c \<longleftrightarrow> c \<noteq> CHR ''.'' \<and> \<not> is_digit c"

text \<open>The optional fraction: its digits, their scale, the rest, and whether there was a digit.\<close>

definition fraction_part :: "string \<Rightarrow> nat \<times> f64 \<times> string \<times> bool" where
  "fraction_part s =
     (case s of
        [] \<Rightarrow> (0, Fin 1, s, False)
      | c # cs \<Rightarrow>
          if c = CHR ''.''
          then (case leading_fraction 0 (Fin 1) False cs of (f, scale, rest) \<Rightarrow>
                  (f, scale, rest, length rest \<noteq> length cs))
          else (0, Fin 1, s, False))"

text \<open>The value of one component: integer part, fraction and unit.\<close>

definition component_value :: "nat \<Rightarrow> nat \<Rightarrow> f64 \<Rightarrow> nat \<Rightarrow> nat option" where
  "component_value v f scale unit =
     (if 2 ^ 63 div unit < v then None
      else if f = 0 then Some (v * unit)
      else let w = (v * unit
                    + f64_to_uint64 (f64_mul (f64_of_int (int f)) (f64_div (f64_of_int (int unit)) scale))) mod 2 ^ 64
           in if 2 ^ 63 < w then None else Some w)"

text \<open>One number with its unit, and what follows it.\<close>

definition parse_component :: "string \<Rightarrow> string \<Rightarrow> dur_error + nat \<times> string" where
  "parse_component orig s =
     (if s = [] \<or> unit_char (hd s) then Inl (InvalidDuration orig)
      else case leading_int 0 s of
        None \<Rightarrow> Inl (InvalidDuration orig)
      | Some (v, s1) \<Rightarrow>
          (case fraction_part s1 of (f, scale, s2, post) \<Rightarrow>
             if length s1 = length s \<and> \<not> post then Inl (InvalidDuration orig)
             else
               let u = takeWhile unit_char s2; s3 = dropWhile unit_char s2
               in if u = [] then Inl (MissingUnit orig)
                  else case map_of unit_map u of
                    None \<Rightarrow> Inl (UnknownUnit u orig)
                  | Some unit \<Rightarrow>
                      (case component_value v f scale unit of
                         None \<Rightarrow> Inl (InvalidDuration orig)
                       | Some w \<Rightarrow> Inr (w, s3))))"

lemma leading_int_length: "leading_int x s = Some (v, s1) \<Longrightarrow> length s1 \<le> length s"
  by (induction x s rule: leading_int.induct) (auto simp: Let_def split: if_splits)

lemma leading_fraction_length: "length (snd (snd (leading_fraction x sc ov s))) \<le> length s"
proof (induction s arbitrary: x sc ov)
  case (Cons c cs)
  show ?case using Cons.IH [THEN le_SucI] by (simp add: Let_def)
qed simp

lemma fraction_part_length: "fraction_part s = (f, sc, s2, p) \<Longrightarrow> length s2 \<le> length s"
  using leading_fraction_length [of 0 "Fin 1" False "tl s"]
  by (auto simp: fraction_part_def split: list.splits if_splits prod.splits)

lemma dropWhile_shorter: "takeWhile P s \<noteq> [] \<Longrightarrow> length (dropWhile P s) < length s"
  by (cases s) (auto simp: le_imp_less_Suc length_dropWhile_le split: if_splits)

lemma parse_component_length:
  assumes "parse_component orig s = Inr (w, rest)"
  shows "length rest < length s"
proof -
  obtain v s1 f sc s2 p where 1: "leading_int 0 s = Some (v, s1)" and 2: "fraction_part s1 = (f, sc, s2, p)"
    and 3: "takeWhile unit_char s2 \<noteq> []" "rest = dropWhile unit_char s2"
    using assms by (auto simp: parse_component_def Let_def split: if_splits option.splits prod.splits)
  show ?thesis
    using leading_int_length [OF 1] fraction_part_length [OF 2] dropWhile_shorter [OF 3(1)] 3(2) by simp
qed

function parse_units :: "string \<Rightarrow> string \<Rightarrow> nat \<Rightarrow> dur_error + nat" where
  "parse_units orig s d =
     (if s = [] then Inr d
      else case parse_component orig s of
        Inl e \<Rightarrow> Inl e
      | Inr (w, rest) \<Rightarrow>
          let d' = (d + w) mod 2 ^ 64
          in if 2 ^ 63 < d' then Inl (InvalidDuration orig) else parse_units orig rest d')"
  by pat_completeness auto
termination
  by (relation "measure (\<lambda>(orig, s, d). length s)") (auto simp: parse_component_length)

declare parse_units.simps [simp del]

definition parse_duration :: "string \<Rightarrow> dur_error + duration" where
  "parse_duration s =
     (let neg = (s \<noteq> [] \<and> hd s = CHR ''-'');
          t = (if s \<noteq> [] \<and> (hd s = CHR ''-'' \<or> hd s = CHR ''+'') then tl s else s)
      in if t = ''0'' then Inr 0
         else if t = [] then Inl (InvalidDuration s)
         else case parse_units s t 0 of
                Inl e \<Rightarrow> Inl e
              | Inr d \<Rightarrow>
                  if neg then Inr (i64 (- i64 (int d)))
                  else if 2 ^ 63 - 1 < d then Inl (InvalidDuration s)
                  else Inr (int d))"

section \<open>Printing\<close>

text \<open>The buffer is filled from the right: \<open>fmtFrac\<close> and \<open>fmtInt\<close> put characters in front.\<close>

fun fmt_frac :: "nat \<Rightarrow> nat \<Rightarrow> bool \<Rightarrow> string \<Rightarrow> string \<times> nat" where
  "fmt_frac 0 v pr buf = (if pr then CHR ''.'' # buf else buf, v)"
| "fmt_frac (Suc prec) v pr buf =
     (let digit = v mod 10; pr' = (pr \<or> digit \<noteq> 0)
      in fmt_frac prec (v div 10) pr' (if pr' then digit_char digit # buf else buf))"

definition fmt_int :: "nat \<Rightarrow> string \<Rightarrow> string" where
  "fmt_int v buf = nat_string v @ buf"

definition abs_duration_string :: "nat \<Rightarrow> string" where
  "abs_duration_string u =
     (if u < 1000000000
      then if u = 0 then ''0s''
           else let pu = (if u < 1000 then (0, ''ns'')
                          else if u < 1000000 then (3, [CHR 0xC2, CHR 0xB5, CHR ''s''])
                          else (6, ''ms''));
                    r = fmt_frac (fst pu) u False (snd pu)
                in fmt_int (snd r) (fst r)
      else
        let r = fmt_frac 9 u False ''s'';
            s = snd r;
            buf = fmt_int (s mod 60) (fst r);
            m = s div 60
        in if 0 < m
           then let buf = fmt_int (m mod 60) (CHR ''m'' # buf); h = m div 60
                in if 0 < h then fmt_int h (CHR ''h'' # buf) else buf
           else buf)"

definition duration_string :: "duration \<Rightarrow> string" where
  "duration_string d =
     (if d < 0 then CHR ''-'' # abs_duration_string (nat (- d)) else abs_duration_string (nat d))"

section \<open>Digits\<close>

definition stops :: "(char \<Rightarrow> bool) \<Rightarrow> string \<Rightarrow> bool" where
  "stops P t \<longleftrightarrow> t = [] \<or> \<not> P (hd t)"

lemma stops_simps [simp]: "stops P []" "stops P (c # t) \<longleftrightarrow> \<not> P c"
  by (simp_all add: stops_def)

abbreviation val_from :: "nat \<Rightarrow> string \<Rightarrow> nat" where
  "val_from x ds \<equiv> foldl (\<lambda>x c. x * 10 + digit_val c) x ds"

lemma val_from_ge: "x \<le> val_from x ds"
proof (induction ds arbitrary: x)
  case (Cons c ds)
  have "x \<le> x * 10 + digit_val c" by simp
  also have "\<dots> \<le> val_from (x * 10 + digit_val c) ds" by (rule Cons.IH)
  finally show ?case by simp
qed simp

lemma val_from_eq: "val_from x ds = x * 10 ^ length ds + digits_val ds"
proof (induction ds arbitrary: x)
  case (Cons c ds)
  have "digits_val (c # ds) = digit_val c * 10 ^ length ds + digits_val ds"
    using Cons.IH [of "digit_val c"] by (simp add: digits_val_def)
  then show ?case using Cons.IH [of "x * 10 + digit_val c"] by (simp add: algebra_simps)
qed (simp add: digits_val_def)

lemma digits_val_Cons: "digits_val (c # ds) = digit_val c * 10 ^ length ds + digits_val ds"
  using val_from_eq [of "digit_val c" ds] by (simp add: digits_val_def)

lemma leading_int_eq:
  assumes "\<forall>c \<in> set ds. is_digit c" and "val_from x ds \<le> 2 ^ 63" and "stops is_digit t"
  shows "leading_int x (ds @ t) = Some (val_from x ds, t)"
  using assms
proof (induction ds arbitrary: x)
  case Nil
  then show ?case by (cases t) auto
next
  case (Cons c ds)
  have "x * 10 + digit_val c \<le> 2 ^ 63"
    using Cons.prems(2) val_from_ge [of "x * 10 + digit_val c" ds] by simp
  with Cons show ?case by (simp add: Let_def)
qed

lemma leading_int_nat_string:
  "v \<le> 2 ^ 63 \<Longrightarrow> stops is_digit t \<Longrightarrow> leading_int 0 (nat_string v @ t) = Some (v, t)"
  using leading_int_eq [of "nat_string v" 0 t] nat_string_digits [of v] val_from_eq [of 0 "nat_string v"]
  by simp

lemma f64_mul_10: "10 ^ Suc k < (2 ^ 53 :: nat) \<Longrightarrow> f64_mul (Fin (of_nat (10 ^ k))) (Fin 10) = Fin (of_nat (10 ^ Suc k))"
proof -
  assume "10 ^ Suc k < (2 ^ 53 :: nat)"
  then have "int (10 ^ Suc k) < 2 ^ 53" by (metis of_nat_less_iff of_nat_numeral of_nat_power)
  then have "f64_of_int (int (10 ^ Suc k)) = Fin (of_int (int (10 ^ Suc k)))" by (intro f64_of_int_small) simp_all
  then show ?thesis by (simp add: f64_of_int_def mult.commute)
qed

lemma pow10_9: "k \<le> 9 \<Longrightarrow> (10 :: nat) ^ k \<le> 10 ^ 9"
  by (rule power_increasing) simp_all

lemma leading_fraction_eq:
  assumes "\<forall>c \<in> set ds. is_digit c" and "k + length ds \<le> 9" and "x < 10 ^ k" and "stops is_digit t"
  shows "leading_fraction x (Fin (of_nat (10 ^ k))) False (ds @ t)
    = (val_from x ds, Fin (of_nat (10 ^ (k + length ds))), t)"
  using assms
proof (induction ds arbitrary: x k)
  case Nil
  then show ?case by (cases t) auto
next
  case (Cons c ds)
  have d: "is_digit c" "digit_val c < 10" using Cons.prems(1) by (auto simp: is_digit_def digit_val_def)
  have k: "(10 :: nat) ^ k \<le> 10 ^ 9" "(10 :: nat) ^ Suc k \<le> 10 ^ 9"
    using Cons.prems(2) pow10_9 [of k] pow10_9 [of "Suc k"] by simp_all
  have x: "x < 10 ^ 9" using Cons.prems(3) k(1) by (rule less_le_trans)
  have y: "x * 10 + digit_val c < 10 ^ Suc k" using Cons.prems(3) d(2) by simp
  have "10 ^ Suc k < (2 ^ 53 :: nat)" using k(2) by (rule le_less_trans) simp
  then have m: "f64_mul (Fin (of_nat (10 ^ k))) (Fin 10) = Fin (of_nat (10 ^ Suc k))" by (rule f64_mul_10)
  have "leading_fraction x (Fin (of_nat (10 ^ k))) False ((c # ds) @ t)
      = leading_fraction (x * 10 + digit_val c) (Fin (of_nat (10 ^ Suc k))) False (ds @ t)"
    using d x by (simp only: append_Cons leading_fraction.simps if_True Let_def m) simp
  also have "\<dots> = (val_from (x * 10 + digit_val c) ds, Fin (of_nat (10 ^ (Suc k + length ds))), t)"
    using Cons.prems y by (intro Cons.IH) simp_all
  finally show ?case by simp
qed

text \<open>What \<open>fmtFrac\<close> writes: nothing, or a point and digits that stand for the fraction.\<close>

lemma fmt_frac_printing:
  "\<exists>ds. fmt_frac n v True buf = (CHR ''.'' # ds @ buf, v div 10 ^ n) \<and> length ds = n
     \<and> (\<forall>c \<in> set ds. is_digit c) \<and> digits_val ds = v mod 10 ^ n"
proof (induction n arbitrary: v buf)
  case (Suc n)
  let ?c = "digit_char (v mod 10)"
  obtain ds where ds: "fmt_frac n (v div 10) True (?c # buf) = (CHR ''.'' # ds @ ?c # buf, v div 10 div 10 ^ n)"
    "length ds = n" "\<forall>c \<in> set ds. is_digit c" "digits_val ds = v div 10 mod 10 ^ n"
    using Suc.IH by blast
  have "v mod (10 * 10 ^ n) = 10 * (v div 10 mod 10 ^ n) + v mod 10" by (rule mod_mult2_eq)
  with ds show ?case
    by (intro exI [of _ "ds @ [?c]"]) (simp add: digits_val_append div_mult2_eq)
qed (simp add: digits_val_def)

lemma fmt_frac_spec:
  "\<exists>fr. fmt_frac n v False buf = (fr @ buf, v div 10 ^ n)
     \<and> (fr = [] \<and> v mod 10 ^ n = 0
        \<or> (\<exists>ds. fr = CHR ''.'' # ds \<and> 0 < length ds \<and> length ds \<le> n \<and> (\<forall>c \<in> set ds. is_digit c)
             \<and> digits_val ds * 10 ^ (n - length ds) = v mod 10 ^ n \<and> digits_val ds < 10 ^ length ds \<and> 0 < digits_val ds))"
proof (induction n arbitrary: v)
  case (Suc n)
  have mod: "v mod (10 * 10 ^ n) = 10 * (v div 10 mod 10 ^ n) + v mod 10" by (rule mod_mult2_eq)
  show ?case
  proof (cases "v mod 10 = 0")
    case True
    obtain fr where fr: "fmt_frac n (v div 10) False buf = (fr @ buf, v div 10 div 10 ^ n)"
      "fr = [] \<and> v div 10 mod 10 ^ n = 0
        \<or> (\<exists>ds. fr = CHR ''.'' # ds \<and> 0 < length ds \<and> length ds \<le> n \<and> (\<forall>c \<in> set ds. is_digit c)
             \<and> digits_val ds * 10 ^ (n - length ds) = v div 10 mod 10 ^ n \<and> digits_val ds < 10 ^ length ds \<and> 0 < digits_val ds)"
      using Suc.IH by blast
    have "digits_val ds * 10 ^ (Suc n - length ds) = v mod 10 ^ Suc n"
      if "digits_val ds * 10 ^ (n - length ds) = v div 10 mod 10 ^ n" "length ds \<le> n" for ds
      using that True mod by (simp add: Suc_diff_le)
    with fr True mod show ?thesis by (intro exI [of _ fr]) (auto simp: div_mult2_eq Let_def)
  next
    case False
    let ?c = "digit_char (v mod 10)"
    obtain ds where ds: "fmt_frac n (v div 10) True (?c # buf) = (CHR ''.'' # ds @ ?c # buf, v div 10 div 10 ^ n)"
      "length ds = n" "\<forall>c \<in> set ds. is_digit c" "digits_val ds = v div 10 mod 10 ^ n"
      using fmt_frac_printing by blast
    have "digits_val (ds @ [?c]) = v mod 10 ^ Suc n" using ds(4) mod by (simp add: digits_val_append)
    moreover have "v mod 10 ^ Suc n < 10 ^ Suc n" by simp
    moreover have "0 < digits_val (ds @ [?c])" using False by (simp add: digits_val_append)
    ultimately show ?thesis using ds(1-3) False
      by (intro exI [of _ "CHR ''.'' # ds @ [?c]"]) (simp add: div_mult2_eq Let_def)
  qed
qed simp

section \<open>Reading back what was written\<close>

definition frac_text :: "nat \<Rightarrow> string \<Rightarrow> nat \<Rightarrow> bool" where
  "frac_text n fr r \<longleftrightarrow> fr = [] \<and> r = 0
     \<or> (\<exists>ds. fr = CHR ''.'' # ds \<and> 0 < length ds \<and> length ds \<le> n \<and> (\<forall>c \<in> set ds. is_digit c)
          \<and> digits_val ds * 10 ^ (n - length ds) = r \<and> digits_val ds < 10 ^ length ds \<and> 0 < digits_val ds)"

lemma fmt_frac_text: "\<exists>fr. fmt_frac n v False buf = (fr @ buf, v div 10 ^ n) \<and> frac_text n fr (v mod 10 ^ n)"
  using fmt_frac_spec [of n v buf] unfolding frac_text_def by metis

text \<open>All the floating point operations are exact here.\<close>

lemma f64_of_nat_small: "n < 2 ^ 53 \<Longrightarrow> f64_round (of_nat n) = Fin (of_nat n)"
proof -
  assume "n < 2 ^ 53"
  then have "int n < 2 ^ 53" by (metis of_nat_less_iff of_nat_numeral of_nat_power)
  then have "f64_of_int (int n) = Fin (of_int (int n))" by (intro f64_of_int_small) simp_all
  then show ?thesis by (simp add: f64_of_int_def)
qed

lemma component_fraction:
  assumes "k \<le> n" and "n \<le> 9" and "0 < f" and "f < 10 ^ k" and "v * 10 ^ n + f * 10 ^ (n - k) \<le> 2 ^ 63"
  shows "component_value v f (Fin (of_nat (10 ^ k))) (10 ^ n) = Some (v * 10 ^ n + f * 10 ^ (n - k))"
proof -
  have n9: "(10 :: nat) ^ n \<le> 10 ^ 9" and k9: "(10 :: nat) ^ k \<le> 10 ^ 9"
    using pow10_9 [of n] pow10_9 [of k] assms(1,2) by simp_all
  have nk: "(10 :: nat) ^ n = 10 ^ (n - k) * 10 ^ k" using assms(1) by (simp flip: power_add)
  have f53: "f < 2 ^ 53" and n53: "(10 :: nat) ^ n < 2 ^ 53" using assms(4) k9 n9 by simp_all
  have "(10 :: nat) ^ (n - k) \<le> 10 ^ n" by (rule power_increasing) simp_all
  then have d53: "(10 :: nat) ^ (n - k) < 2 ^ 53" using n53 by (rule le_less_trans)
  have "f * 10 ^ (n - k) < 10 ^ k * 10 ^ (n - k)" using assms(4) by simp
  also have "\<dots> = 10 ^ n" using nk by simp
  finally have p53: "f * 10 ^ (n - k) < 2 ^ 53" using n53 by (rule less_trans)
  have "(of_nat (10 ^ n) :: rat) / of_nat (10 ^ k) = of_nat (10 ^ (n - k))"
    unfolding nk by simp
  then have q: "f64_div (f64_of_int (int (10 ^ n))) (Fin (of_nat (10 ^ k))) = Fin (of_nat (10 ^ (n - k)))"
    using f64_of_nat_small [OF n53] f64_of_nat_small [OF d53] by (simp add: f64_of_int_def)
  have "f64_mul (f64_of_int (int f)) (Fin (of_nat (10 ^ (n - k)))) = Fin (of_nat (f * 10 ^ (n - k)))"
    using f64_of_nat_small [OF f53] f64_of_nat_small [OF p53] by (simp add: f64_of_int_def)
  moreover have "f64_to_uint64 (Fin (of_nat (f * 10 ^ (n - k)))) = f * 10 ^ (n - k)"
  proof -
    have "\<lfloor>of_nat (f * 10 ^ (n - k)) :: rat\<rfloor> = int (f * 10 ^ (n - k))" by (rule floor_of_nat)
    moreover have "int (f * 10 ^ (n - k)) < 2 ^ 53"
      using p53 by (metis of_nat_less_iff of_nat_numeral of_nat_power)
    then have "int (f * 10 ^ (n - k)) < 2 ^ 64" by (rule less_trans) simp
    ultimately show ?thesis by (simp only: f64_to_uint64.simps of_nat_0_le_iff simp_thms if_True nat_int)
  qed
  ultimately have w: "f64_to_uint64 (f64_mul (f64_of_int (int f)) (f64_div (f64_of_int (int (10 ^ n))) (Fin (of_nat (10 ^ k)))))
      = f * 10 ^ (n - k)" by (simp only: q)
  have "v * 10 ^ n \<le> 2 ^ 63" using assms(5) by (rule add_leD1)
  then have "v \<le> 2 ^ 63 div 10 ^ n" by (simp add: less_eq_div_iff_mult_less_eq)
  moreover have "(v * 10 ^ n + f * 10 ^ (n - k)) mod 2 ^ 64 = v * 10 ^ n + f * 10 ^ (n - k)"
    using assms(5) by (intro mod_less) simp
  ultimately show ?thesis
    using assms(3,5) unfolding component_value_def w Let_def by simp
qed

lemma component_whole: "0 < unit \<Longrightarrow> v * unit \<le> 2 ^ 63 \<Longrightarrow> component_value v 0 sc unit = Some (v * unit)"
  by (simp add: component_value_def not_less less_eq_div_iff_mult_less_eq)

lemma digit_not_unit: "is_digit c \<Longrightarrow> \<not> unit_char c"
  by (simp add: unit_char_def)

lemma hd_nat_string: "is_digit (hd (nat_string v @ t))"
  using nat_string_digits [of v] by (cases "nat_string v") auto

lemma takeWhile_unit:
  "\<forall>c \<in> set u. unit_char c \<Longrightarrow> stops unit_char t \<Longrightarrow> takeWhile unit_char (u @ t) = u \<and> dropWhile unit_char (u @ t) = t"
  by (cases t) auto

lemma parse_component_eq:
  assumes u: "map_of unit_map u = Some unit" "u \<noteq> []" "\<forall>c \<in> set u. unit_char c"
    and fr: "frac_text n fr r" and n: "fr \<noteq> [] \<Longrightarrow> unit = 10 ^ n" "n \<le> 9" and unit: "0 < unit"
    and le: "v * unit + r \<le> 2 ^ 63" and rest: "stops unit_char rest"
  shows "parse_component orig (nat_string v @ fr @ u @ rest) = Inr (v * unit + r, rest)"
proof -
  have hd_u: "unit_char (hd u)" "hd (u @ rest) = hd u" using u(2,3) by (cases u; simp)+
  have "v \<le> v * unit" using unit by simp
  also have "\<dots> \<le> 2 ^ 63" using le by (rule add_leD1)
  finally have v: "v \<le> 2 ^ 63" .
  have stop: "stops is_digit (u @ rest)" using hd_u by (auto simp: stops_def unit_char_def)
  obtain f sc post where fp: "fraction_part (fr @ u @ rest) = (f, sc, u @ rest, post)"
    and st: "stops is_digit (fr @ u @ rest)"
    and val: "component_value v f sc unit = Some (v * unit + r)"
  proof (cases "fr = []")
    case True
    then have "r = 0" using fr by (simp add: frac_text_def)
    moreover have "fraction_part (u @ rest) = (0, Fin 1, u @ rest, False)"
      using hd_u u(2) by (cases u) (auto simp: fraction_part_def unit_char_def)
    ultimately show ?thesis
      using that [of 0 "Fin 1" False] True stop component_whole [OF unit, of v] le by simp
  next
    case False
    then obtain ds where ds: "fr = CHR ''.'' # ds" "0 < length ds" "length ds \<le> n" "\<forall>c \<in> set ds. is_digit c"
      "digits_val ds * 10 ^ (n - length ds) = r" "digits_val ds < 10 ^ length ds" "0 < digits_val ds"
      using fr by (auto simp: frac_text_def)
    have "leading_fraction 0 (Fin 1) False (ds @ u @ rest) = (digits_val ds, Fin (of_nat (10 ^ length ds)), u @ rest)"
      using leading_fraction_eq [OF ds(4), of 0 0 "u @ rest"] ds(3) n(2) stop val_from_eq [of 0 ds] by simp
    then have "fraction_part (fr @ u @ rest) = (digits_val ds, Fin (of_nat (10 ^ length ds)), u @ rest, True)"
      using ds(1,2) by (simp add: fraction_part_def)
    moreover have "stops is_digit (fr @ u @ rest)" using ds(1) by (simp add: is_digit_def byte_def)
    moreover have "component_value v (digits_val ds) (Fin (of_nat (10 ^ length ds))) unit = Some (v * unit + r)"
      using component_fraction [OF ds(3) n(2) ds(7,6)] n(1) [OF False] ds(5) le by simp
    ultimately show ?thesis by (rule that)
  qed
  have "leading_int 0 (nat_string v @ fr @ u @ rest) = Some (v, fr @ u @ rest)"
    using v st by (rule leading_int_nat_string)
  moreover have "\<not> unit_char (hd (nat_string v @ fr @ u @ rest))" by (intro digit_not_unit hd_nat_string)
  moreover have "length (fr @ u @ rest) \<noteq> length (nat_string v @ fr @ u @ rest)" by simp
  ultimately show ?thesis
    using fp val u takeWhile_unit [OF u(3) rest] by (simp add: parse_component_def Let_def)
qed

lemma parse_units_Nil: "parse_units orig [] d = Inr d"
  by (subst parse_units.simps) simp

lemma parse_units_step:
  assumes "parse_component orig s = Inr (w, rest)" and "d + w \<le> 2 ^ 63"
  shows "parse_units orig s d = parse_units orig rest (d + w)"
proof -
  have "s \<noteq> []" using assms(1) by (auto simp: parse_component_def)
  moreover have "(d + w) mod 2 ^ 64 = d + w" using assms(2) by (intro mod_less) simp
  ultimately show ?thesis using assms by (subst parse_units.simps) (simp add: Let_def)
qed

lemma stops_nat_string: "stops unit_char (nat_string v @ t)"
  using digit_not_unit [OF hd_nat_string] by (simp add: stops_def)

text \<open>The units that printing uses.\<close>

lemma unit_chars:
  "\<forall>c \<in> set ''h''. unit_char c" "\<forall>c \<in> set ''m''. unit_char c" "\<forall>c \<in> set ''s''. unit_char c"
  "\<forall>c \<in> set ''ms''. unit_char c" "\<forall>c \<in> set ''ns''. unit_char c"
  "\<forall>c \<in> set [CHR 0xC2, CHR 0xB5, CHR ''s'']. unit_char c"
  by (simp_all add: unit_char_def is_digit_def byte_def)

lemma units:
  "map_of unit_map ''h'' = Some 3600000000000" "map_of unit_map ''m'' = Some 60000000000"
  "map_of unit_map ''s'' = Some 1000000000" "map_of unit_map ''ms'' = Some 1000000"
  "map_of unit_map ''ns'' = Some 1"
  "map_of unit_map [CHR 0xC2, CHR 0xB5, CHR ''s''] = Some 1000"
  by (simp_all add: unit_map_def)

lemma read_whole:
  assumes "map_of unit_map u = Some unit" "u \<noteq> []" "\<forall>c \<in> set u. unit_char c" "0 < unit"
    and "d + v * unit \<le> 2 ^ 63" and "stops unit_char rest"
  shows "parse_units orig (nat_string v @ u @ rest) d = parse_units orig rest (d + v * unit)"
  using parse_component_eq [of u unit 0 "[]" 0 v rest orig] assms
  by (intro parse_units_step) (simp_all add: frac_text_def)

lemma read_last:
  assumes "map_of unit_map u = Some (10 ^ n)" "u \<noteq> []" "\<forall>c \<in> set u. unit_char c" "n \<le> 9"
    and "frac_text n fr r" and "d + (v * 10 ^ n + r) \<le> 2 ^ 63"
  shows "parse_units orig (nat_string v @ fr @ u) d = Inr (d + (v * 10 ^ n + r))"
proof -
  have "parse_component orig (nat_string v @ fr @ u @ []) = Inr (v * 10 ^ n + r, [])"
    using assms by (intro parse_component_eq) simp_all
  from parse_units_step [OF this assms(6)] show ?thesis by (simp add: parse_units_Nil)
qed

text \<open>A duration under a second uses the unit that fits.\<close>

lemma read_small:
  assumes "u < 10 ^ 9" and "0 < u"
  shows "parse_units orig (abs_duration_string u) 0 = Inr u"
proof -
  define pu :: "nat \<times> string" where "pu = (if u < 1000 then (0, ''ns'')
      else if u < 1000000 then (3, [CHR 0xC2, CHR 0xB5, CHR ''s'']) else (6, ''ms''))"
  obtain fr where fr: "fmt_frac (fst pu) u False (snd pu) = (fr @ snd pu, u div 10 ^ fst pu)"
    "frac_text (fst pu) fr (u mod 10 ^ fst pu)" using fmt_frac_text by blast
  have "abs_duration_string u = nat_string (u div 10 ^ fst pu) @ fr @ snd pu"
    using assms fr(1) unfolding abs_duration_string_def pu_def [symmetric] fmt_int_def by simp
  moreover have "map_of unit_map (snd pu) = Some (10 ^ fst pu)" "snd pu \<noteq> []" "\<forall>c \<in> set (snd pu). unit_char c" "fst pu \<le> 9"
    using units unit_chars by (simp_all add: pu_def)
  moreover have "u div 10 ^ fst pu * 10 ^ fst pu + u mod 10 ^ fst pu = u" by (rule div_mult_mod_eq)
  ultimately show ?thesis
    using read_last [of "snd pu" "fst pu" fr "u mod 10 ^ fst pu" 0 "u div 10 ^ fst pu" orig] fr(2) assms(1) by simp
qed

lemma read_large:
  assumes "10 ^ 9 \<le> u" and "u \<le> 2 ^ 63"
  shows "parse_units orig (abs_duration_string u) 0 = Inr u"
proof -
  define s m h where "s = u div 10 ^ 9" and "m = s div 60" and "h = m div 60"
  obtain fr where fr: "fmt_frac 9 u False ''s'' = (fr @ ''s'', s)" "frac_text 9 fr (u mod 10 ^ 9)"
    unfolding s_def using fmt_frac_text by blast
  have u: "u = s * 10 ^ 9 + u mod 10 ^ 9" unfolding s_def by (rule div_mult_mod_eq [symmetric])
  have s: "s = m * 60 + s mod 60" unfolding m_def by (rule div_mult_mod_eq [symmetric])
  have m: "m = h * 60 + m mod 60" unfolding h_def by (rule div_mult_mod_eq [symmetric])
  have hm: "h * 3600000000000 + m mod 60 * 60000000000 = m * 60000000000" using m by linarith
  have ms: "m * 60000000000 + (s mod 60 * 10 ^ 9 + u mod 10 ^ 9) = u" using u s by simp
  have secs: "parse_units orig (nat_string (s mod 60) @ fr @ ''s'') d = Inr u" if "d = m * 60000000000" for d
    using read_last [of "''s''" 9 fr "u mod 10 ^ 9" d "s mod 60" orig] units(3) unit_chars(3) fr(2) ms assms(2) that
    by simp
  let ?S = "nat_string (s mod 60) @ fr @ ''s''"
  have str: "abs_duration_string u = (if 0 < m
      then if 0 < h then nat_string h @ ''h'' @ nat_string (m mod 60) @ ''m'' @ ?S
           else nat_string (m mod 60) @ ''m'' @ ?S
      else ?S)"
    using assms(1) by (simp add: abs_duration_string_def fr(1) fmt_int_def m_def h_def Let_def)
  have mins: "parse_units orig (nat_string (m mod 60) @ ''m'' @ ?S) d = Inr u" if "d = h * 3600000000000" for d
  proof -
    have "d + m mod 60 * 60000000000 \<le> 2 ^ 63" using that hm ms assms(2) by linarith
    from read_whole [OF units(2) _ unit_chars(2) _ this stops_nat_string] show ?thesis
      using secs that hm by simp
  qed
  have hours: "parse_units orig (nat_string h @ ''h'' @ nat_string (m mod 60) @ ''m'' @ ?S) 0 = Inr u"
  proof -
    have "0 + h * 3600000000000 \<le> 2 ^ 63" using hm ms assms(2) by linarith
    from read_whole [OF units(1) _ unit_chars(1) _ this stops_nat_string] show ?thesis
      using mins by simp
  qed
  show ?thesis
  proof (cases "0 < m")
    case False
    then show ?thesis using secs [of 0] by (simp add: str)
  next
    case True
    show ?thesis
    proof (cases "0 < h")
      case False
      then show ?thesis using mins [of 0] True by (simp add: str)
    next
      case True
      moreover from this have "0 < m" by (auto simp: h_def)
      ultimately show ?thesis using hours by (simp add: str)
    qed
  qed
qed

lemma abs_duration_string_0: "abs_duration_string 0 = nat_string 0 @ ''s''"
proof -
  have "digit_char 0 = CHR ''0''" by (simp add: digit_char_def char_of_eq_iff)
  then show ?thesis by (simp add: abs_duration_string_def nat_string.simps [of 0])
qed

definition numeric :: "string \<Rightarrow> bool" where
  "numeric s \<longleftrightarrow> (\<exists>v t. s = nat_string v @ t \<and> t \<noteq> [])"

lemma numeric_fmt_int: "buf \<noteq> [] \<Longrightarrow> numeric (fmt_int v buf)"
  by (auto simp: numeric_def fmt_int_def)

lemma numeric_abs: "numeric (abs_duration_string u)"
proof (cases "u = 0")
  case True
  then show ?thesis using abs_duration_string_0 unfolding numeric_def by blast
next
  case False
  have "buf \<noteq> [] \<Longrightarrow> fst (fmt_frac n v False buf) \<noteq> []" for n v buf
    using fmt_frac_text [of n v buf] by auto
  with False show ?thesis by (simp add: abs_duration_string_def Let_def numeric_fmt_int)
qed

lemma read_abs: "u \<le> 2 ^ 63 \<Longrightarrow> parse_units orig (abs_duration_string u) 0 = Inr u"
proof -
  assume le: "u \<le> 2 ^ 63"
  consider "u = 0" | "0 < u" "u < 10 ^ 9" | "10 ^ 9 \<le> u" by linarith
  then show ?thesis
  proof cases
    case 1
    then show ?thesis
      using read_last [of "''s''" 9 "[]" 0 0 0 orig] units(3) unit_chars(3)
      by (simp add: abs_duration_string_0 frac_text_def)
  qed (use read_small read_large le in auto)
qed

text \<open>\<open>time.ParseDuration\<close> reads back every duration that \<open>time.Duration.String\<close> writes.\<close>

lemma read_back:
  assumes "in64 d"
  shows "parse_duration (duration_string d) = Inr d"
proof -
  define u where "u = nat \<bar>d\<bar>"
  have u: "u \<le> 2 ^ 63" using assms by (simp add: u_def in64_def abs_if nat_le_iff)
  obtain v t where vt: "abs_duration_string u = nat_string v @ t" "t \<noteq> []"
    using numeric_abs unfolding numeric_def by blast
  have dig: "is_digit (hd (abs_duration_string u))" unfolding vt(1) by (rule hd_nat_string)
  have ne: "abs_duration_string u \<noteq> []" "abs_duration_string u \<noteq> ''0''"
    using vt by (auto simp: append_eq_Cons_conv)
  have sign: "hd (abs_duration_string u) \<noteq> CHR ''-''" "hd (abs_duration_string u) \<noteq> CHR ''+''"
    using dig by (auto simp: is_digit_def byte_def)
  note R = read_abs [OF u]
  show ?thesis
  proof (cases "d < 0")
    case True
    then have d: "int u = - d" "u = nat (- d)" by (simp_all add: u_def)
    have "i64 (- i64 (- d)) = d"
      using assms True by (cases "d = - (2 ^ 63)") (simp_all add: i64_def in64_def)
    with True R ne d show ?thesis by (simp add: duration_string_def parse_duration_def)
  next
    case False
    then have d: "int u = d" "duration_string d = abs_duration_string u"
      by (simp_all add: u_def duration_string_def)
    have "\<not> 2 ^ 63 - 1 < u" using assms False by (simp add: u_def in64_def nat_le_iff not_less)
    with R ne sign show ?thesis by (simp add: d parse_duration_def Let_def)
  qed
qed

end
