(* ===== verification/Orchestrator_Server.thy ===== *)
theory Orchestrator_Server
  imports Plan_Distributor Metrics_Aggregator Go_Duration
begin

text \<open>
  The gRPC server of \<open>internal/orchestrator/server.go\<close>: its handlers over the node manager, the
  plan distributor and the metrics aggregator. A handler answers or panics (a nil message
  dereferenced). Calls to workers are made by goroutines over connections that are not part of
  the repository: a dispatch is the list of requests sent, the answers to stop requests are an
  argument. The server's listener and the metrics stream's ticker are I/O; a tick's message is
  \<open>stream_message\<close>.
\<close>

section \<open>State and errors\<close>

record server =
  sv_nodes :: node_manager
  sv_plans :: plan_distributor
  sv_metrics :: metrics_aggregator

datatype conv_error = ConvInvalidDuration dur_error | ConvInvalidRampUp dur_error

datatype rpc_error =
    ConvertFailed conv_error
  | DistributeFailed dist_error
  | RegisterFailed nm_error
  | UnknownTest string

datatype 'a outcome = Panic | Reply 'a

section \<open>Conversion of a plan\<close>

fun convert_stages :: "pb_stage list \<Rightarrow> conv_error + stage list" where
  "convert_stages [] = Inr []"
| "convert_stages (p # ps) =
     (case parse_duration (pst_Duration p) of
        Inl e \<Rightarrow> Inl (ConvInvalidDuration e)
      | Inr duration \<Rightarrow>
          (case (if pst_RampUp p = '''' then Inr 0 else parse_duration (pst_RampUp p)) of
             Inl e \<Rightarrow> Inl (ConvInvalidRampUp e)
           | Inr rampUp \<Rightarrow>
               (case convert_stages ps of
                  Inl e \<Rightarrow> Inl e
                | Inr sts \<Rightarrow>
                    Inr (\<lparr>st_Duration = duration, st_TargetVUs = pst_TargetVus p, st_RampUp = rampUp\<rparr> # sts))))"

fun convert_assertion :: "pb_assertion \<Rightarrow> assertion" where
  "convert_assertion (PbStatusCode expected) =
     \<lparr>as_Type = AssertionTypeStatusCode, as_Value = AnyInt expected, as_Threshold = AnyNil\<rparr>"
| "convert_assertion (PbResponseTime percentile maxMs) =
     \<lparr>as_Type = AssertionTypeResponseTime, as_Value = AnyString percentile, as_Threshold = AnyDuration (from_ms maxMs)\<rparr>"
| "convert_assertion (PbBodyContains s) =
     \<lparr>as_Type = AssertionTypeBodyContains, as_Value = AnyString s, as_Threshold = AnyNil\<rparr>"
| "convert_assertion PbAssertionUnset =
     \<lparr>as_Type = AssertionTypeUnset, as_Value = AnyNil, as_Threshold = AnyNil\<rparr>"

text \<open>The server does not read the think time.\<close>

definition convert_request :: "pb_request \<Rightarrow> request" where
  "convert_request p =
     \<lparr>rq_Method = prq_Method p, rq_Path = prq_Path p, rq_Headers = prq_Headers p, rq_Body = prq_Body p,
      rq_Assertions = map convert_assertion (prq_Assertions p), rq_ThinkTime = 0\<rparr>"

text \<open>A plan without an HTTP section makes the conversion panic once its stages are read.\<close>

definition convertPlan :: "pb_test_plan \<Rightarrow> (conv_error + test_plan) outcome" where
  "convertPlan p =
     (case convert_stages (ptp_Stages p) of
        Inl e \<Rightarrow> Reply (Inl e)
      | Inr stages \<Rightarrow>
          (case ptp_Http p of
             None \<Rightarrow> Panic
           | Some http \<Rightarrow> Reply (Inr
               \<lparr>tp_ID = ptp_Id p, tp_Name = ptp_Name p, tp_Stages = stages,
                tp_HTTP = \<lparr>hc_BaseURL = phc_BaseUrl http, hc_Requests = map convert_request (phc_Requests http),
                  hc_Headers = phc_Headers http, hc_Timeout = from_ms (phc_TimeoutMs http)\<rparr>,
                tp_Variables = ptp_Variables p, tp_TotalVirtualUsers = ptp_TotalVirtualUsers p\<rparr>)))"

section \<open>Dispatch\<close>

definition dialableAddress :: "string \<Rightarrow> string" where
  "dialableAddress addr =
     (if has_prefix addr ''0.0.0.0:'' then ''localhost:'' @ trim_prefix addr ''0.0.0.0:''
      else if has_prefix addr '':'' then ''localhost'' @ addr
      else addr)"

text \<open>The stages of the clone: those with an allocation get the worker's share, missing meaning
  zero.\<close>

fun plan_stages :: "string \<Rightarrow> pb_stage list \<Rightarrow> (string, int32) gomap list \<Rightarrow> pb_stage list" where
  "plan_stages workerID [] allocs = []"
| "plan_stages workerID (p # ps) [] = p # ps"
| "plan_stages workerID (p # ps) (a # as) = p\<lparr>pst_TargetVus := get0 0 a workerID\<rparr> # plan_stages workerID ps as"

definition planForWorker ::
  "pb_test_plan \<Rightarrow> string \<Rightarrow> int32 \<Rightarrow> (string, int32) gomap list \<Rightarrow> pb_test_plan" where
  "planForWorker p workerID assignedVUs stageAllocations =
     p\<lparr>ptp_TotalVirtualUsers := assignedVUs,
       ptp_Stages := plan_stages workerID (ptp_Stages p) stageAllocations\<rparr>"

fun stage_allocations ::
  "(nat \<Rightarrow> string list) \<Rightarrow> (string, int32) gomap \<Rightarrow> nat \<Rightarrow> pb_stage list \<Rightarrow> (string, int32) gomap list" where
  "stage_allocations sords distribution i [] = []"
| "stage_allocations sords distribution i (p # ps) =
     allocateStageVUs (sords i) distribution (pst_TargetVus p) # stage_allocations sords distribution (Suc i) ps"

text \<open>The requests sent, with the address each is sent to. Workers that are no longer registered
  are skipped.\<close>

fun dispatch_loop ::
  "node_manager \<Rightarrow> pb_test_plan \<Rightarrow> (string, int32) gomap list \<Rightarrow> (string \<times> int32) list \<Rightarrow> (string \<times> run_request) list" where
  "dispatch_loop nm p allocs [] = []"
| "dispatch_loop nm p allocs ((wid, vus) # es) =
     (case GetNode wid nm of
        None \<Rightarrow> dispatch_loop nm p allocs es
      | Some node \<Rightarrow>
          (dialableAddress (wn_Address node),
           \<lparr>rn_TestId = ptp_Id p, rn_Plan = Some (planForWorker p wid vus allocs), rn_AssignedVus = vus, rn_WorkerId = wid\<rparr>)
          # dispatch_loop nm p allocs es)"

definition dispatchToWorkers ::
  "string list \<Rightarrow> (nat \<Rightarrow> string list) \<Rightarrow> node_manager \<Rightarrow> pb_test_plan \<Rightarrow> (string, int32) gomap \<Rightarrow>
   (string \<times> run_request) list" where
  "dispatchToWorkers ord sords nm p distribution =
     dispatch_loop nm p (stage_allocations sords distribution 0 (ptp_Stages p)) (range_entries ord distribution)"

text \<open>A successful distribution also starts the goroutine that dispatches; what it is given is the
  third part of the result.\<close>

definition DistributeTestPlan ::
  "string list \<Rightarrow> string list \<Rightarrow> pb_test_plan option \<Rightarrow> server \<Rightarrow>
   (rpc_error + distribute_response) outcome \<times> server \<times> (pb_test_plan \<times> (string, int32) gomap) option" where
  "DistributeTestPlan ord cord req sv =
     (case req of
        None \<Rightarrow> (Panic, sv, None)
      | Some p \<Rightarrow>
          (case convertPlan p of
             Panic \<Rightarrow> (Panic, sv, None)
           | Reply (Inl e) \<Rightarrow> (Reply (Inl (ConvertFailed e)), sv, None)
           | Reply (Inr plan) \<Rightarrow>
               (case DistributePlan ord (sv_nodes sv) (ptp_Id p) plan (sv_plans sv) of
                  (Inl e, pd) \<Rightarrow> (Reply (Inl (DistributeFailed e)), sv\<lparr>sv_plans := pd\<rparr>, None)
                | (Inr distribution, pd) \<Rightarrow>
                    (Reply (Inr \<lparr>dr_TestId = ptp_Id p, dr_WorkersAssigned = i32 (int (length distribution)),
                       dr_WorkerVuDistribution = copy_map (range_entries cord distribution) []\<rparr>),
                     sv\<lparr>sv_plans := pd\<rparr>, Some (p, distribution)))))"

section \<open>Metrics and status\<close>

definition proto_snapshot :: "metric_snapshot \<Rightarrow> pb_snapshot" where
  "proto_snapshot s =
     \<lparr>psn_Rps = Some \<lparr>prps_Current = rps_Current (ms_RPS s), prps_Average = rps_Average (ms_RPS s),
        prps_Peak = rps_Peak (ms_RPS s), prps_WindowSeconds = rps_WindowSeconds (ms_RPS s)\<rparr>,
      psn_Latency = Some \<lparr>plat_MinMs = to_ms (lat_Min (ms_Latency s)), plat_MaxMs = to_ms (lat_Max (ms_Latency s)),
        plat_MeanMs = to_ms (lat_Mean (ms_Latency s)), plat_P50Ms = to_ms (lat_P50 (ms_Latency s)),
        plat_P95Ms = to_ms (lat_P95 (ms_Latency s)), plat_P99Ms = to_ms (lat_P99 (ms_Latency s)),
        plat_P999Ms = to_ms (lat_P999 (ms_Latency s)), plat_Count = lat_Count (ms_Latency s)\<rparr>,
      psn_ErrorRate = Some \<lparr>per_Rate = er_Rate (ms_ErrorRate s), per_Percentage = er_Percentage (ms_ErrorRate s),
        per_ErrorMessages = []\<rparr>,
      psn_TotalRequests = ms_TotalRequests s, psn_TotalErrors = ms_TotalErrors s,
      psn_TimestampMs = unix_milli (ms_Timestamp s)\<rparr>"

definition stream_message :: "string \<Rightarrow> go_time \<Rightarrow> server \<Rightarrow> pb_snapshot \<times> int64" where
  "stream_message testID now sv =
     (proto_snapshot (GetAggregatedMetrics testID (sv_metrics sv)), unix_milli now)"

fun status_to_proto :: "test_status \<Rightarrow> pb_status" where
  "status_to_proto TestStatusPending = PENDING"
| "status_to_proto TestStatusRunning = RUNNING"
| "status_to_proto TestStatusCompleted = COMPLETED"
| "status_to_proto TestStatusFailed = FAILED"
| "status_to_proto TestStatusStopped = STOPPED"
| "status_to_proto (TestStatusOther s) = UNKNOWN"

fun sum_vus :: "int32 \<Rightarrow> (string \<times> int32) list \<Rightarrow> int32" where
  "sum_vus t [] = t"
| "sum_vus t ((w, vus) # es) = sum_vus (i32 (t + vus)) es"

text \<open>\<open>ord\<close> is the order of the copy in \<open>Snapshot\<close>, \<open>sord\<close> that of the sum.\<close>

definition GetTestStatus :: "string list \<Rightarrow> string list \<Rightarrow> string \<Rightarrow> server \<Rightarrow> rpc_error + test_status_response" where
  "GetTestStatus ord sord testID sv =
     (case GetActiveTest testID (sv_plans sv) of
        None \<Rightarrow> Inl (UnknownTest testID)
      | Some test \<Rightarrow>
          let snapshot = GetAggregatedMetrics testID (sv_metrics sv);
              sw = Snapshot ord test
          in Inr \<lparr>tsr_Status = status_to_proto (fst sw), tsr_ActiveWorkers = i32 (int (length (snd sw))),
                  tsr_TotalVus = sum_vus 0 (range_entries sord (snd sw)),
                  tsr_CurrentMetrics = Some (proto_snapshot snapshot)\<rparr>)"

definition fill_batch :: "pb_batch \<Rightarrow> pb_batch" where
  "fill_batch b =
     b\<lparr>pb_RpsSnapshot := Some (case pb_RpsSnapshot b of None \<Rightarrow> zero_pb_rps | Some r \<Rightarrow> r),
       pb_LatencyHistogram := Some (case pb_LatencyHistogram b of None \<Rightarrow> zero_pb_latency | Some l \<Rightarrow> l),
       pb_ErrorRate := Some (case pb_ErrorRate b of None \<Rightarrow> zero_pb_error_rate | Some e \<Rightarrow> e)\<rparr>"

text \<open>\<open>clock\<close> holds the aggregator's two times, \<open>seen\<close> the node manager's.\<close>

definition ReportMetrics ::
  "loop_orders \<Rightarrow> go_time \<times> go_time \<Rightarrow> go_time \<Rightarrow> pb_batch option \<Rightarrow> server \<Rightarrow> bool outcome \<times> server" where
  "ReportMetrics ords clock seen req sv =
     (case req of
        None \<Rightarrow> (Reply False, sv)
      | Some batch0 \<Rightarrow>
          let batch = fill_batch batch0
          in case UpdateWorkerMetrics ords clock (pb_TestId batch) (pb_WorkerId batch) batch (sv_metrics sv) of
               None \<Rightarrow> (Panic, sv)
             | Some ma \<Rightarrow>
                 let status = (if pb_TestActive batch then WorkerStatusRunning else WorkerStatusIdle);
                     nm = UpdateStatus (pb_WorkerId batch) status
                            (UpdateLastSeen (pb_WorkerId batch) seen (sv_nodes sv));
                     sv1 = sv\<lparr>sv_metrics := ma, sv_nodes := nm\<rparr>
                 in if pb_TestId batch \<noteq> '''' \<and> \<not> pb_TestActive batch
                    then (case MarkWorkerDone (pb_TestId batch) (pb_WorkerId batch) (sv_plans sv1) of
                            (finished, pd) \<Rightarrow>
                              (Reply True, sv1\<lparr>sv_plans :=
                                 (if finished then SetStatus (pb_TestId batch) TestStatusCompleted pd else pd)\<rparr>))
                    else (Reply True, sv1))"

section \<open>Workers\<close>

definition RegisterWorker ::
  "etcd_client \<Rightarrow> go_time \<Rightarrow> register_request \<Rightarrow> server \<Rightarrow> (rpc_error + unit) \<times> server" where
  "RegisterWorker etcd now req sv =
     (case RegisterNode etcd
        \<lparr>wn_ID = rr_WorkerId req, wn_Address = rr_Address req, wn_MaxVUs = rr_MaxVus req,
         wn_Status = WorkerStatusIdle, wn_Metadata = rr_Metadata req, wn_LastSeen = now\<rparr> (sv_nodes sv) of
        (Some e, nm) \<Rightarrow> (Inl (RegisterFailed e), sv\<lparr>sv_nodes := nm\<rparr>)
      | (None, nm) \<Rightarrow> (Inr (), sv\<lparr>sv_nodes := nm\<rparr>))"

definition ListWorkers :: "string list \<Rightarrow> server \<Rightarrow> worker_info list" where
  "ListWorkers ord sv =
     map (\<lambda>n. \<lparr>wi_WorkerId = wn_ID n, wi_Address = wn_Address n, wi_MaxVus = wn_MaxVUs n,
               wi_Status = worker_status_string (wn_Status n), wi_LastSeenMs = unix_milli (wn_LastSeen n)\<rparr>)
       (GetNodes ord (sv_nodes sv))"

section \<open>Stopping a test\<close>

text \<open>What the connection to a worker does with the stop request for a test at an address: the dial
  or the call fails, or the worker answers.\<close>

datatype stop_answer = DialFailed string | CallFailed string | Answered bool string

definition stopWorkerTest :: "(string \<Rightarrow> string \<Rightarrow> stop_answer) \<Rightarrow> string \<Rightarrow> string \<Rightarrow> bool" where
  "stopWorkerTest net addr testID =
     (case net addr testID of DialFailed e \<Rightarrow> False | CallFailed e \<Rightarrow> False | Answered ok msg \<Rightarrow> ok)"

text \<open>The workers counted as stopped and as failed; the goroutines only add to the two counters,
  so their order does not matter.\<close>

fun stop_calls ::
  "(string \<Rightarrow> string \<Rightarrow> stop_answer) \<Rightarrow> node_manager \<Rightarrow> string \<Rightarrow> (string \<times> int32) list \<Rightarrow> nat \<times> nat \<Rightarrow> nat \<times> nat" where
  "stop_calls net nm testID [] sf = sf"
| "stop_calls net nm testID ((wid, vus) # es) (stopped, failed) =
     (case GetNode wid nm of
        None \<Rightarrow> stop_calls net nm testID es (stopped, Suc failed)
      | Some node \<Rightarrow>
          if stopWorkerTest net (dialableAddress (wn_Address node)) testID
          then stop_calls net nm testID es (Suc stopped, failed)
          else stop_calls net nm testID es (stopped, Suc failed))"

definition StopTest ::
  "string list \<Rightarrow> string list \<Rightarrow> (string \<Rightarrow> string \<Rightarrow> stop_answer) \<Rightarrow> string \<Rightarrow> server \<Rightarrow> stop_response \<times> server" where
  "StopTest ord word net testID sv =
     (case GetActiveTest testID (sv_plans sv) of
        None \<Rightarrow> (\<lparr>sr_Success = False, sr_Message = ''test not found: '' @ testID\<rparr>, sv)
      | Some test \<Rightarrow>
          let workers = snd (Snapshot ord test);
              sf = stop_calls net (sv_nodes sv) testID (range_entries word workers) (0, 0);
              sv' = sv\<lparr>sv_plans := SetStatus testID TestStatusStopped (sv_plans sv)\<rparr>
          in if 0 < snd sf
             then (\<lparr>sr_Success = False, sr_Message = ''stopped on '' @ nat_string (fst sf) @ ''/'' @
                     nat_string (length workers) @ '' workers''\<rparr>, sv')
             else (\<lparr>sr_Success = True, sr_Message = ''stopped on '' @ nat_string (fst sf) @ '' workers''\<rparr>, sv'))"

section \<open>Conversion and dispatch\<close>

lemma convert_stages_targets: "convert_stages ps = Inr sts \<Longrightarrow> map st_TargetVUs sts = map pst_TargetVus ps"
  by (induction ps arbitrary: sts) (auto split: sum.splits if_splits)

lemma convertPlan_stages: "convertPlan p = Reply (Inr plan) \<Longrightarrow> map st_TargetVUs (tp_Stages plan) = map pst_TargetVus (ptp_Stages p)"
  by (auto simp: convertPlan_def convert_stages_targets split: sum.splits option.splits)

lemma plan_stages_nth:
  "length allocs = length ps \<Longrightarrow> length (plan_stages w ps allocs) = length ps
   \<and> (\<forall>i < length ps. plan_stages w ps allocs ! i = (ps ! i)\<lparr>pst_TargetVus := get0 0 (allocs ! i) w\<rparr>)"
  by (induction w ps allocs rule: plan_stages.induct) (auto simp: nth_Cons split: nat.splits)

lemma stage_allocations_nth:
  "length (stage_allocations so d k ps) = length ps
   \<and> (\<forall>i < length ps. stage_allocations so d k ps ! i = allocateStageVUs (so (k + i)) d (pst_TargetVus (ps ! i)))"
  by (induction ps arbitrary: k) (auto simp: nth_Cons split: nat.splits)

definition worker_request ::
  "pb_test_plan \<Rightarrow> (string, int32) gomap list \<Rightarrow> string \<times> int32 \<Rightarrow> run_request" where
  "worker_request p allocs e = \<lparr>rn_TestId = ptp_Id p, rn_Plan = Some (planForWorker p (fst e) (snd e) allocs),
     rn_AssignedVus = snd e, rn_WorkerId = fst e\<rparr>"

lemma dispatch_loop_all:
  "\<forall>e \<in> set es. GetNode (fst e) nm \<noteq> None \<Longrightarrow> map snd (dispatch_loop nm p allocs es) = map (worker_request p allocs) es"
  by (induction es) (auto simp: worker_request_def)

text \<open>The stages a worker is sent.\<close>

definition sent_stages :: "run_request \<Rightarrow> pb_stage list" where
  "sent_stages r = (case rn_Plan r of None \<Rightarrow> [] | Some p \<Rightarrow> ptp_Stages p)"

lemma worker_request_stages:
  assumes "i < length (ptp_Stages p)" and "allocs = stage_allocations so d 0 (ptp_Stages p)"
  shows "length (sent_stages (worker_request p allocs e)) = length (ptp_Stages p)"
    and "sent_stages (worker_request p allocs e) ! i = (ptp_Stages p ! i)\<lparr>pst_TargetVus :=
           get0 0 (allocateStageVUs (so i) d (pst_TargetVus (ptp_Stages p ! i))) (fst e)\<rparr>"
  using plan_stages_nth [of allocs "ptp_Stages p" "fst e"] stage_allocations_nth [of so d 0 "ptp_Stages p"] assms
  by (simp_all add: sent_stages_def worker_request_def planForWorker_def)

lemma DistributeTestPlan_success:
  assumes "DistributeTestPlan ord cord req sv = (Reply (Inr resp), sv', job)"
  obtains p plan d where "req = Some p" "convertPlan p = Reply (Inr plan)"
    "DistributePlan ord (sv_nodes sv) (ptp_Id p) plan (sv_plans sv) = (Inr d, sv_plans sv')"
    "job = Some (p, d)" "dr_TestId resp = ptp_Id p" "dr_WorkersAssigned resp = i32 (int (length d))"
    "dr_WorkerVuDistribution resp = copy_map (range_entries cord d) []" "sv' = sv\<lparr>sv_plans := sv_plans sv'\<rparr>"
  using assms
  by (auto simp: DistributeTestPlan_def split: option.splits outcome.splits sum.splits prod.splits)

lemma sum_over_entries:
  assumes "gomap_ok d" and "range_order ord d" and "gomap_ok a" and "\<And>w. has_key a w \<Longrightarrow> has_key d w"
  shows "sum_list (map (\<lambda>e. get0 0 a (fst e)) (range_entries ord d)) = vsum a"
proof -
  have o: "map fst (range_entries ord d) = ord" "distinct ord" "set ord = set (map fst d)"
    using assms(2) by (auto simp: range_order_def fst_range_entries)
  have "vsum a = sum_list (map (get0 0 a) ord)"
  proof (rule vsum_over_ids [OF assms(3) o(2)], intro allI impI)
    fix w v assume "map_of a w = Some v"
    then show "w \<in> set ord" using assms(4) [of w] by (simp add: o(3) has_key_def [of a] has_key_set [of d])
  qed
  also have "\<dots> = sum_list (map (get0 0 a) (map fst (range_entries ord d)))" by (simp only: o)
  finally show ?thesis by (simp add: o_def)
qed

lemma copy_map_lookup: "map_of (copy_map es m) k = (case map_of (rev es) k of None \<Rightarrow> map_of m k | Some v \<Rightarrow> Some v)"
  by (induction es m rule: copy_map.induct) (auto simp: map_of_put map_add_def split: option.splits)


lemma dispatch_requests:
  assumes "range_order dord d" and "\<And>w. has_key d w \<Longrightarrow> GetNode w nm \<noteq> None"
  shows "map snd (dispatchToWorkers dord so nm p d)
    = map (worker_request p (stage_allocations so d 0 (ptp_Stages p))) (range_entries dord d)"
proof -
  have "GetNode (fst e) nm \<noteq> None" if "e \<in> set (range_entries dord d)" for e
  proof -
    have "fst e \<in> set (map fst (range_entries dord d))" using that by simp
    also have "\<dots> = set (map fst d)" using assms(1) by (simp only: range_order_def fst_range_entries)
    finally have "has_key d (fst e)" by (simp only: has_key_set)
    then show ?thesis by (rule assms(2))
  qed
  then show ?thesis unfolding dispatchToWorkers_def by (intro dispatch_loop_all) blast
qed

text \<open>A distribution the server answered with is a split of the plan's peak, and its shares satisfy
  the preconditions of every stage's split.\<close>

lemma distributed_shares:
  assumes "nm_ok (sv_nodes sv)" and "nm_order ord (sv_nodes sv)" and "nm_caps_ok (sv_nodes sv)"
    and "DistributeTestPlan ord cord (Some p) sv = (Reply (Inr resp), sv', Some (p, d))"
    and "\<forall>st \<in> set (ptp_Stages p). in32 (pst_TargetVus st)"
  shows "gomap_ok d" and "vsum d < 2 ^ 31" and "\<forall>w v. map_of d w = Some v \<longrightarrow> 0 < v"
    and "st \<in> set (ptp_Stages p) \<Longrightarrow> pst_TargetVus st \<le> vsum d"
    and "vsum d = 0 \<or> vsum d \<in> pst_TargetVus ` set (ptp_Stages p)"
proof -
  obtain plan where plan: "convertPlan p = Reply (Inr plan)"
    and D: "DistributePlan ord (sv_nodes sv) (ptp_Id p) plan (sv_plans sv) = (Inr d, sv_plans sv')"
    using assms(4) by (elim DistributeTestPlan_success) auto
  have targets: "map st_TargetVUs (tp_Stages plan) = map pst_TargetVus (ptp_Stages p)"
    using plan by (rule convertPlan_stages)
  have mem: "st_TargetVUs ` set (tp_Stages plan) = pst_TargetVus ` set (ptp_Stages p)"
    using arg_cong [OF targets, of set] by simp
  have pok: "plan_ok plan"
  proof -
    have "in32 x" if "x \<in> st_TargetVUs ` set (tp_Stages plan)" for x
      using that assms(5) unfolding mem by auto
    then show ?thesis by (simp add: plan_ok_def)
  qed
  have split: "split_of_plan (sv_nodes sv) plan d"
    using D by (cases rule: DistributePlan_cases [OF assms(1-3) pok, of "ptp_Id p" "sv_plans sv"]) auto
  then show "gomap_ok d" and "\<forall>w v. map_of d w = Some v \<longrightarrow> 0 < v" by (auto simp: split_of_plan_def)
  have peak: "vsum d = plan_peak plan" using split by (simp add: split_of_plan_def)
  then show "vsum d < 2 ^ 31" using in32_plan_peak [OF pok] by (simp add: in32_def)
  show "vsum d = 0 \<or> vsum d \<in> pst_TargetVus ` set (ptp_Stages p)"
    unfolding peak mem [symmetric] using peak_target_spec [of 0 "tp_Stages plan"] by blast
  show "pst_TargetVus st \<le> vsum d" if "st \<in> set (ptp_Stages p)"
  proof -
    have "pst_TargetVus st \<in> st_TargetVUs ` set (tp_Stages plan)" unfolding mem using that by simp
    then show ?thesis unfolding peak using peak_target_ge by auto
  qed
qed

text \<open>The requests of a dispatch, stage by stage.\<close>

lemma fleet_exact:
  assumes "nm_ok (sv_nodes sv)" and "nm_order ord (sv_nodes sv)" and "nm_caps_ok (sv_nodes sv)"
    and "DistributeTestPlan ord cord (Some p) sv = (Reply (Inr resp), sv', Some (p, d))"
    and "\<forall>st \<in> set (ptp_Stages p). in32 (pst_TargetVus st)"
    and "range_order dord d" and "\<forall>i. range_order (so i) d" and "\<And>w. has_key d w \<Longrightarrow> GetNode w nm \<noteq> None"
    and "i < length (ptp_Stages p)" and "0 < pst_TargetVus (ptp_Stages p ! i)"
    and "pst_TargetVus (ptp_Stages p ! i) * vsum d < 2 ^ 53"
  shows "let reqs = map snd (dispatchToWorkers dord so nm p d);
             target = (\<lambda>r. pst_TargetVus (sent_stages r ! i))
    in map rn_WorkerId reqs = dord \<and> sum_list (map rn_AssignedVus reqs) = vsum d
       \<and> (\<forall>st \<in> set (ptp_Stages p). pst_TargetVus st \<le> sum_list (map rn_AssignedVus reqs))
       \<and> sum_list (map target reqs) = pst_TargetVus (ptp_Stages p ! i)
       \<and> (\<forall>r \<in> set reqs. length (sent_stages r) = length (ptp_Stages p) \<and> 0 \<le> target r \<and> target r \<le> rn_AssignedVus r)"
proof -
  let ?t = "pst_TargetVus (ptp_Stages p ! i)"
  note B = distributed_shares [OF assms(1-5)]
  note g = B(1) and below = B(4)
  have sh: "shares_ok d ?t"
    using B(1-3) below [OF nth_mem [OF assms(9)]] assms(10,11) by (simp add: shares_ok_def)
  have oi: "range_order (so i) d" using assms(7) by simp
  note A = allocateStageVUs_ok [OF sh oi]
  let ?es = "range_entries dord d" and ?W = "worker_request p (stage_allocations so d 0 (ptp_Stages p))"
  have reqs: "map snd (dispatchToWorkers dord so nm p d) = map ?W ?es"
    using assms(6,8) by (rule dispatch_requests)
  note S = worker_request_stages [OF assms(9) refl, of so d]
  have tgt: "pst_TargetVus (sent_stages (?W e) ! i) = get0 0 (allocateStageVUs (so i) d ?t) (fst e)" for e
    unfolding S(2) by simp
  have asg: "rn_AssignedVus (?W e) = snd e" "rn_WorkerId (?W e) = fst e" for e
    by (simp_all add: worker_request_def)
  have ent: "get0 0 d (fst e) = snd e" if "e \<in> set ?es" for e
    using that gomap_ok_mem [OF g, of "fst e" "snd e"] set_range_entries [OF assms(6) g] by (simp add: get0_def)
  have "map fst ?es = dord" using assms(6) by (simp add: range_order_def fst_range_entries)
  moreover have "sum_list (map snd ?es) = vsum d"
    using vsum_perm [OF mset_range_entries [OF assms(6) g]] by (simp add: vsum_def)
  moreover have "sum_list (map (\<lambda>e. get0 0 (allocateStageVUs (so i) d ?t) (fst e)) ?es) = ?t"
    using sum_over_entries [OF g assms(6) A(1)] A(2,3) by simp
  moreover have "0 \<le> get0 0 (allocateStageVUs (so i) d ?t) w" for w
    using A(4) [of w] whole_part_nonneg [OF sh, of w] by linarith
  moreover have "get0 0 (allocateStageVUs (so i) d ?t) (fst e) \<le> snd e" if "e \<in> set ?es" for e
    using A(6) [of "fst e"] ent [OF that] by simp
  ultimately show ?thesis
    unfolding Let_def reqs using below by (simp add: o_def tgt asg S(1))
qed

section \<open>Properties\<close>

text \<open>C2: safety. The fleet runs exactly the plan. When a plan is accepted and dispatched while its
  workers are still registered, every worker of the answer is sent exactly one request; the
  assigned virtual users add up to the plan's peak; and for every stage with a positive target
  the targets sent to the workers add up to the plan's target, none above the worker's
  assignment. All of this holds for every iteration order of the maps.\<close>

theorem dispatch_exact:
  assumes "nm_ok (sv_nodes sv)" and "nm_order ord (sv_nodes sv)" and "nm_caps_ok (sv_nodes sv)"
    and "DistributeTestPlan ord cord (Some p) sv = (Reply (Inr resp), sv', Some (p, d))"
    and "\<forall>st \<in> set (ptp_Stages p). in32 (pst_TargetVus st)"
    and "range_order dord d" and "\<forall>i. range_order (so i) d" and "\<And>w. has_key d w \<Longrightarrow> GetNode w nm \<noteq> None"
    and "i < length (ptp_Stages p)" and "0 < pst_TargetVus (ptp_Stages p ! i)"
    and "pst_TargetVus (ptp_Stages p ! i) * vsum d < 2 ^ 53"
  shows "let reqs = map snd (dispatchToWorkers dord so nm p d);
             target = (\<lambda>r. pst_TargetVus (sent_stages r ! i))
    in map rn_WorkerId reqs = dord
       \<and> (\<forall>st \<in> set (ptp_Stages p). pst_TargetVus st \<le> sum_list (map rn_AssignedVus reqs))
       \<and> sum_list (map target reqs) = pst_TargetVus (ptp_Stages p ! i)
       \<and> (\<forall>r \<in> set reqs. length (sent_stages r) = length (ptp_Stages p) \<and> 0 \<le> target r \<and> target r \<le> rn_AssignedVus r)"
  using fleet_exact [OF assms] unfolding Let_def by blast

text \<open>A plan with two stages, dispatched to the two workers of \<open>demo_nm\<close>.\<close>

definition demo_pb_plan :: "int32 \<Rightarrow> int32 \<Rightarrow> pb_test_plan" where
  "demo_pb_plan a b = \<lparr>ptp_Id = ''t'', ptp_Name = ''demo'',
     ptp_Stages = [\<lparr>pst_Duration = duration_string (30 * second), pst_TargetVus = a, pst_RampUp = ''''\<rparr>,
                   \<lparr>pst_Duration = duration_string (60 * second), pst_TargetVus = b, pst_RampUp = ''''\<rparr>],
     ptp_Http = Some \<lparr>phc_BaseUrl = ''http://h'', phc_Requests = [], phc_Headers = [], phc_TimeoutMs = 0\<rparr>,
     ptp_Variables = [], ptp_TotalVirtualUsers = 0\<rparr>"

definition demo_server :: server where
  "demo_server = \<lparr>sv_nodes = demo_nm 10 10, sv_plans = NewPlanDistributor, sv_metrics = NewMetricsAggregator\<rparr>"

lemma demo_convert:
  "\<exists>plan. convertPlan (demo_pb_plan a b) = Reply (Inr plan) \<and> map st_TargetVUs (tp_Stages plan) = [a, b]"
proof -
  have p: "parse_duration (duration_string (30 * second)) = Inr (30 * second)"
    "parse_duration (duration_string (60 * second)) = Inr (60 * second)"
    by (simp_all add: read_back second_def in64_def)
  then show ?thesis by (simp add: convertPlan_def demo_pb_plan_def)
qed

lemma demo_accepts:
  assumes "convertPlan p = Reply (Inr plan)" and "plan_ok plan" and "plan_peak plan \<le> 20"
  shows "\<exists>resp sv' d. DistributeTestPlan demo_ord cord (Some p) demo_server = (Reply (Inr resp), sv', Some (p, d))
     \<and> split_of_plan (demo_nm 10 10) plan d"
proof -
  have caps: "nm_caps_ok (demo_nm 10 10)" using demo_caps [of 10 10] by simp
  have cap: "total_capacity 0 (GetNodes demo_ord (demo_nm 10 10)) = 20"
    by (simp add: GetNodes_def demo_nm_def demo_node_def i32_def)
  from demo_nm_ok caps assms(2) show ?thesis
  proof (cases rule: DistributePlan_cases [of "demo_nm 10 10" demo_ord plan "ptp_Id p" NewPlanDistributor])
    case nodes
    then show ?thesis by (simp add: demo_nm_def)
  next
    case capacity
    then show ?thesis using assms(3) by (simp add: cap)
  next
    case (split d)
    then show ?thesis using assms(1) by (simp add: DistributeTestPlan_def demo_server_def)
  qed
qed

lemma demo_distribute:
  "\<exists>resp sv' d. DistributeTestPlan demo_ord cord (Some (demo_pb_plan 7 12)) demo_server = (Reply (Inr resp), sv', Some (demo_pb_plan 7 12, d))
     \<and> split_of_plan (demo_nm 10 10) (demo_plan 12) d"
proof -
  obtain plan where plan: "convertPlan (demo_pb_plan 7 12) = Reply (Inr plan)" and t: "map st_TargetVUs (tp_Stages plan) = [7, 12]"
    using demo_convert [of 7 12] by (elim exE conjE)
  have ok: "plan_ok plan"
  proof -
    have m: "st_TargetVUs ` set (tp_Stages plan) = {7, 12}" using arg_cong [OF t, of set] by simp
    have "\<forall>x \<in> st_TargetVUs ` set (tp_Stages plan). in32 x" unfolding m by (simp add: in32_def)
    then show ?thesis by (simp add: plan_ok_def)
  qed
  have peak: "plan_peak plan = 12" using t by (auto simp: map_eq_Cons_conv)
  have "split_of_plan (demo_nm 10 10) plan d = split_of_plan (demo_nm 10 10) (demo_plan 12) d" for d
    using demo_plan_ok [of 12] by (simp add: split_of_plan_def peak)
  with demo_accepts [OF plan ok, of cord] peak show ?thesis by simp
qed

theorem dispatch_exact_witness:
  "\<exists>d. sum_list (map (\<lambda>r. pst_TargetVus (sent_stages r ! 0))
      (map snd (dispatchToWorkers (map fst d) (\<lambda>i. map fst d) (demo_nm 10 10) (demo_pb_plan 7 12) d))) = 7"
proof -
  obtain resp sv' d where D: "DistributeTestPlan demo_ord [] (Some (demo_pb_plan 7 12)) demo_server =
      (Reply (Inr resp), sv', Some (demo_pb_plan 7 12, d))"
    and s: "split_of_plan (demo_nm 10 10) (demo_plan 12) d"
    using demo_distribute by blast
  have g: "gomap_ok d" and v: "vsum d = 12" using s demo_plan_ok [of 12] by (simp_all add: split_of_plan_def)
  have reg: "GetNode w (demo_nm 10 10) \<noteq> None" if "has_key d w" for w
    using that s by (auto simp: split_of_plan_def has_key_def)
  have "nm_ok (sv_nodes demo_server)" "nm_order demo_ord (sv_nodes demo_server)" "nm_caps_ok (sv_nodes demo_server)"
    using demo_nm_ok demo_caps [of 10 10] by (simp_all add: demo_server_def)
  from dispatch_exact [OF this D _ range_order_keys [OF g] _ reg, of "\<lambda>i. map fst d" 0]
  show ?thesis using range_order_keys [OF g] v
    by (intro exI [of _ d]) (simp add: demo_pb_plan_def in32_def Let_def)
qed


lemma fill_batch_ok: "batch_snapshot w (fill_batch b) \<noteq> None"
  by (simp add: batch_snapshot_def fill_batch_def)

lemma UpdateWorkerMetrics_total: "\<exists>ma'. UpdateWorkerMetrics ords clock t w (fill_batch b) ma = Some ma'"
  using fill_batch_ok [of w b] by (auto simp: UpdateWorkerMetrics_def Let_def)

lemma fill_batch_simps [simp]:
  "pb_TestId (fill_batch b) = pb_TestId b" "pb_WorkerId (fill_batch b) = pb_WorkerId b"
  "pb_TestActive (fill_batch b) = pb_TestActive b" "pb_TotalRequests (fill_batch b) = pb_TotalRequests b"
  "pb_TotalErrors (fill_batch b) = pb_TotalErrors b"
  by (simp_all add: fill_batch_def)

text \<open>What a report does to the tests.\<close>

definition completes :: "pb_batch \<Rightarrow> active_test \<Rightarrow> bool" where
  "completes b t \<longleftrightarrow> pb_TestId b \<noteq> '''' \<and> \<not> pb_TestActive b \<and> at_Status t = TestStatusRunning
     \<and> has_key (at_Workers t) (pb_WorkerId b)
     \<and> (\<forall>v. has_key (at_Workers t) v \<longrightarrow> v = pb_WorkerId b \<or> has_key (at_done t) v)"

lemma SetStatus_lookup:
  "GetActiveTest i (SetStatus j st pd) =
     (if i = j then map_option (\<lambda>t. t\<lparr>at_Status := st\<rparr>) (GetActiveTest j pd) else GetActiveTest i pd)"
  by (auto simp: SetStatus_def GetActiveTest_def map_of_put split: option.split)

lemma MarkWorkerDone_lookup:
  "GetActiveTest i (snd (MarkWorkerDone j w pd)) =
     (if i = j then map_option (\<lambda>t. if has_key (at_Workers t) w then t\<lparr>at_done := AList.update w True (at_done t)\<rparr> else t)
                      (GetActiveTest j pd)
      else GetActiveTest i pd)"
  by (auto simp: MarkWorkerDone_def GetActiveTest_def map_of_put Let_def split: option.split)

lemma ReportMetrics_plans:
  "sv_plans (snd (ReportMetrics ords clock seen (Some b) sv)) =
     (if pb_TestId b \<noteq> '''' \<and> \<not> pb_TestActive b
      then (let (finished, pd) = MarkWorkerDone (pb_TestId b) (pb_WorkerId b) (sv_plans sv)
            in if finished then SetStatus (pb_TestId b) TestStatusCompleted pd else pd)
      else sv_plans sv)"
  using UpdateWorkerMetrics_total [of ords clock "pb_TestId b" "pb_WorkerId b" b "sv_metrics sv"]
  by (auto simp: ReportMetrics_def Let_def split: prod.splits)

text \<open>Safety. \<open>ReportMetrics\<close> never panics, and a report completes a test exactly when the test
  is running, the report is an inactive one of an assigned worker, and every other assigned worker
  is already marked done. No other test's status changes, and no status changes otherwise.\<close>

theorem ReportMetrics_completes_exactly:
  assumes "pd_ok (sv_plans sv)" and "GetActiveTest i (sv_plans sv) = Some t"
  shows "fst (ReportMetrics ords clock seen (Some b) sv) = Reply True
    \<and> (\<exists>t'. GetActiveTest i (sv_plans (snd (ReportMetrics ords clock seen (Some b) sv))) = Some t'
         \<and> at_Workers t' = at_Workers t
         \<and> at_Status t' = (if i = pb_TestId b \<and> completes b t then TestStatusCompleted else at_Status t))"
proof -
  have r: "fst (ReportMetrics ords clock seen (Some b) sv) = Reply True"
    using UpdateWorkerMetrics_total [of ords clock "pb_TestId b" "pb_WorkerId b" b "sv_metrics sv"]
    by (auto simp: ReportMetrics_def Let_def split: prod.splits)
  have m: "fst (MarkWorkerDone i (pb_WorkerId b) (sv_plans sv)) \<longleftrightarrow>
      has_key (at_Workers t) (pb_WorkerId b) \<and> at_Status t = TestStatusRunning
        \<and> (\<forall>v. has_key (at_Workers t) v \<longrightarrow> v = pb_WorkerId b \<or> has_key (at_done t) v)"
    using MarkWorkerDone_result [OF assms(1), of i] assms(2) by simp
  show ?thesis
  proof (cases "i = pb_TestId b \<and> pb_TestId b \<noteq> '''' \<and> \<not> pb_TestActive b")
    case True
    let ?t = "if has_key (at_Workers t) (pb_WorkerId b)
      then t\<lparr>at_done := AList.update (pb_WorkerId b) True (at_done t)\<rparr> else t"
    have L: "GetActiveTest i (snd (MarkWorkerDone i (pb_WorkerId b) (sv_plans sv))) = Some ?t"
      using assms(2) by (simp add: MarkWorkerDone_lookup)
    have "completes b t \<longleftrightarrow> fst (MarkWorkerDone i (pb_WorkerId b) (sv_plans sv))"
      using m True by (auto simp: completes_def)
    with True L r show ?thesis
      by (simp add: ReportMetrics_plans case_prod_unfold Let_def SetStatus_lookup)
  next
    case False
    then have "GetActiveTest i (sv_plans (snd (ReportMetrics ords clock seen (Some b) sv))) = Some t"
      using assms(2) by (auto simp: ReportMetrics_plans case_prod_unfold Let_def SetStatus_lookup MarkWorkerDone_lookup)
    with False r show ?thesis by (auto simp: completes_def)
  qed
qed

theorem ReportMetrics_completes_exactly_witness:
  "\<exists>t'. GetActiveTest ''t'' (sv_plans (snd (ReportMetrics ([], [], []) (0, 0) 0 (Some ((demo_batch 5 0)\<lparr>pb_TestActive := False\<rparr>))
      (demo_server\<lparr>sv_plans := \<lparr>pd_activeTests = [(''t'', fresh_test ''t'' (demo_plan 7) [(''w1'', 7)])]\<rparr>\<rparr>)))) = Some t'
    \<and> at_Status t' = TestStatusCompleted"
proof -
  let ?sv = "demo_server\<lparr>sv_plans := \<lparr>pd_activeTests = [(''t'', fresh_test ''t'' (demo_plan 7) [(''w1'', 7)])]\<rparr>\<rparr>"
  have "pd_ok (sv_plans ?sv)" by (simp add: pd_ok_def at_ok_def fresh_test_def gomap_ok_def)
  from ReportMetrics_completes_exactly [OF this, of "''t''" "fresh_test ''t'' (demo_plan 7) [(''w1'', 7)]"
      "([], [], [])" "(0, 0)" 0 "(demo_batch 5 0)\<lparr>pb_TestActive := False\<rparr>"]
  show ?thesis by (auto simp: GetActiveTest_def completes_def demo_batch_def fresh_test_def has_key_def)
qed

text \<open>The copy that \<open>Snapshot\<close> returns is the map.\<close>

lemma gomap_ok_copy: "gomap_ok m \<Longrightarrow> gomap_ok (copy_map es m)"
  by (induction es m rule: copy_map.induct) (auto intro: gomap_ok_update)

lemma copy_map_same:
  assumes "gomap_ok m" and "range_order ord m"
  shows "gomap_ok (copy_map (range_entries ord m) [])" and "set (copy_map (range_entries ord m) []) = set m"
    and "length (copy_map (range_entries ord m) []) = length m" and "vsum (copy_map (range_entries ord m) []) = vsum m"
proof -
  let ?c = "copy_map (range_entries ord m) []"
  show c: "gomap_ok ?c" by (intro gomap_ok_copy) simp
  have r: "gomap_ok (range_entries ord m)" using assms(2) by (rule gomap_ok_range_entries)
  have "map_of ?c k = map_of m k" for k
  proof -
    have rr: "gomap_ok (rev (range_entries ord m))" using r by (simp add: gomap_ok_def rev_map [symmetric])
    have "map_of (rev (range_entries ord m)) k = Some v \<longleftrightarrow> map_of m k = Some v" for v
      using set_range_entries [OF assms(2,1)]
      by (simp flip: gomap_ok_mem [OF rr] gomap_ok_mem [OF assms(1)])
    then have "map_of (rev (range_entries ord m)) k = map_of m k" by (metis not_None_eq)
    then show ?thesis by (simp add: copy_map_lookup split: option.split)
  qed
  then show s: "set ?c = set m" using gomap_ok_mem [OF c] gomap_ok_mem [OF assms(1)] by auto
  then have "mset ?c = mset m"
    using c assms(1) by (metis distinct_map gomap_ok_def set_eq_iff_mset_eq_distinct)
  then show "length ?c = length m" and "vsum ?c = vsum m" by (metis size_mset, rule vsum_perm)
qed

lemma sum_vus_eq: "in32 t \<Longrightarrow> sum_vus t es = i32 (t + vsum es)"
proof (induction es arbitrary: t)
  case (Cons e es)
  then show ?case by (cases e) (simp add: i32_i32_add add.assoc)
qed (simp add: i32_id)

text \<open>\<open>GetTestStatus\<close> answers for exactly the known tests; the numbers of workers and of
  virtual users are those of the test's assignment, whatever the iteration orders of the copy and
  of the sum; and the status is the stored one.\<close>

theorem GetTestStatus_reports:
  assumes "pd_ok (sv_plans sv)" and "GetActiveTest i (sv_plans sv) = Some t"
    and "range_order ord (at_Workers t)" and "range_order sord (at_Workers t)"
  shows "\<exists>r. GetTestStatus ord sord i sv = Inr r \<and> tsr_Status r = status_to_proto (at_Status t)
    \<and> tsr_ActiveWorkers r = i32 (int (length (at_Workers t))) \<and> tsr_TotalVus r = i32 (vsum (at_Workers t))
    \<and> tsr_CurrentMetrics r = Some (proto_snapshot (GetAggregatedMetrics i (sv_metrics sv)))"
proof -
  have g: "gomap_ok (at_Workers t)"
    using pd_okD [OF assms(1)] assms(2) by (auto simp: GetActiveTest_def at_ok_def)
  note C = copy_map_same [OF g assms(3)]
  let ?c = "copy_map (range_entries ord (at_Workers t)) []"
  have "set (map fst ?c) = set (map fst (at_Workers t))" using C(2) by simp
  then have "range_order sord ?c" using assms(4) by (simp add: range_order_def)
  from vsum_perm [OF mset_range_entries [OF this C(1)]] have "vsum (range_entries sord ?c) = vsum (at_Workers t)"
    using C(4) by simp
  then show ?thesis using assms(2) C(3)
    by (simp add: GetTestStatus_def Snapshot_def Let_def sum_vus_eq in32_def)
qed

theorem GetTestStatus_reports_witness:
  "\<exists>r. GetTestStatus [''w2'', ''w1''] [''w1'', ''w2''] ''t''
      (demo_server\<lparr>sv_plans := \<lparr>pd_activeTests = [(''t'', fresh_test ''t'' (demo_plan 7) [(''w1'', 4), (''w2'', 3)])]\<rparr>\<rparr>) = Inr r
    \<and> tsr_TotalVus r = 7 \<and> tsr_Status r = RUNNING"
proof -
  let ?sv = "demo_server\<lparr>sv_plans := \<lparr>pd_activeTests = [(''t'', fresh_test ''t'' (demo_plan 7) [(''w1'', 4), (''w2'', 3)])]\<rparr>\<rparr>"
  have "pd_ok (sv_plans ?sv)" by (simp add: pd_ok_def at_ok_def fresh_test_def gomap_ok_def)
  from GetTestStatus_reports [OF this, of "''t''" "fresh_test ''t'' (demo_plan 7) [(''w1'', 4), (''w2'', 3)]"
      "[''w2'', ''w1'']" "[''w1'', ''w2'']"]
  show ?thesis by (auto simp: GetActiveTest_def fresh_test_def range_order_def i32_def)
qed

text \<open>Every worker is counted once by \<open>StopTest\<close>.\<close>

lemma stop_calls_count:
  "fst (stop_calls net nm i es sf) + snd (stop_calls net nm i es sf) = fst sf + snd sf + length es
   \<and> snd sf \<le> snd (stop_calls net nm i es sf)
   \<and> (snd (stop_calls net nm i es sf) = snd sf \<longleftrightarrow>
      (\<forall>e \<in> set es. \<exists>n. GetNode (fst e) nm = Some n \<and> stopWorkerTest net (dialableAddress (wn_Address n)) i))"
proof (induction es arbitrary: sf)
  case (Cons e es)
  obtain w v s f where [simp]: "e = (w, v)" "sf = (s, f)" by (cases e, cases sf)
  show ?case
  proof (cases "GetNode w nm")
    case None
    then show ?thesis using Cons.IH [of "(s, Suc f)"] by auto
  next
    case (Some n)
    then show ?thesis using Cons.IH [of "(Suc s, f)"] Cons.IH [of "(s, Suc f)"]
      by (cases "stopWorkerTest net (dialableAddress (wn_Address n)) i") auto
  qed
qed simp

text \<open>\<open>StopTest\<close> reports success exactly when the test is known and every assigned
  worker is still registered and acknowledged the stop; a known test ends in the status Stopped in
  any case.\<close>

theorem StopTest_reports:
  assumes "pd_ok (sv_plans sv)" and "GetActiveTest i (sv_plans sv) = Some t"
    and "range_order ord (at_Workers t)" and "range_order word (at_Workers t)"
  shows "(sr_Success (fst (StopTest ord word net i sv)) \<longleftrightarrow>
      (\<forall>w. has_key (at_Workers t) w \<longrightarrow>
        (\<exists>n. GetNode w (sv_nodes sv) = Some n \<and> stopWorkerTest net (dialableAddress (wn_Address n)) i)))
    \<and> GetActiveTest i (sv_plans (snd (StopTest ord word net i sv))) = Some (t\<lparr>at_Status := TestStatusStopped\<rparr>)"
proof -
  have g: "gomap_ok (at_Workers t)"
    using pd_okD [OF assms(1)] assms(2) by (auto simp: GetActiveTest_def at_ok_def)
  note C = copy_map_same [OF g assms(3)]
  let ?c = "copy_map (range_entries ord (at_Workers t)) []"
  have "set (map fst ?c) = set (map fst (at_Workers t))" using C(2) by simp
  then have "range_order word ?c" using assms(4) by (simp add: range_order_def)
  then have es: "set (range_entries word ?c) = set (at_Workers t)"
    using set_range_entries C(1,2) by blast
  have keys: "(\<forall>e \<in> set (at_Workers t). P (fst e)) \<longleftrightarrow> (\<forall>w. has_key (at_Workers t) w \<longrightarrow> P w)" for P
    by (auto simp: has_key_set)
  show ?thesis
    using assms(2) stop_calls_count [of net "sv_nodes sv" i "range_entries word ?c" "(0, 0)"]
    by (simp add: StopTest_def Snapshot_def Let_def SetStatus_lookup es keys [symmetric]) auto
qed

theorem StopTest_reports_witness:
  "sr_Success (fst (StopTest [''w1''] [''w1''] (\<lambda>_ _. Answered True ''test stopped'') ''t''
      (demo_server\<lparr>sv_plans := \<lparr>pd_activeTests = [(''t'', fresh_test ''t'' (demo_plan 7) [(''w1'', 7)])]\<rparr>\<rparr>)))"
proof -
  let ?sv = "demo_server\<lparr>sv_plans := \<lparr>pd_activeTests = [(''t'', fresh_test ''t'' (demo_plan 7) [(''w1'', 7)])]\<rparr>\<rparr>"
  have "pd_ok (sv_plans ?sv)" by (simp add: pd_ok_def at_ok_def fresh_test_def gomap_ok_def)
  from StopTest_reports [OF this, of "''t''" "fresh_test ''t'' (demo_plan 7) [(''w1'', 7)]" "[''w1'']" "[''w1'']"]
  show ?thesis
    by (simp add: GetActiveTest_def fresh_test_def range_order_def has_key_def stopWorkerTest_def GetNode_def
        demo_server_def demo_nm_def)
qed

end
