(* ===== verification/Test_Lifecycle.thy ===== *)
theory Test_Lifecycle
  imports Orchestrator_Server
begin

text \<open>
  The life of a test in the orchestrator as a state machine. The handlers of
  \<open>internal/orchestrator/server.go\<close> run concurrently and hold the plan distributor's lock only
  inside each of its methods, so two handlers can be interleaved between two calls:
  \<open>ReportMetrics\<close> between \<open>MarkWorkerDone\<close> and \<open>SetStatus(Completed)\<close>, \<open>StopTest\<close> between
  \<open>GetActiveTest\<close> and \<open>SetStatus(Stopped)\<close>. A state is the plan distributor with the handlers
  that are between their two calls; each step is one locked method.
\<close>

section \<open>States and steps\<close>

record lifecycle =
  lc_plans :: plan_distributor
  lc_completing :: "string list"
  lc_stopping :: "string list"

datatype lc_event =
    Distributed string
  | Marked string string
  | CompletedSet string
  | StopStarted string
  | StopSet string

definition lc_init :: lifecycle where
  "lc_init = \<lparr>lc_plans = NewPlanDistributor, lc_completing = [], lc_stopping = []\<rparr>"

inductive lc_step :: "lifecycle \<Rightarrow> lc_event \<Rightarrow> lifecycle \<Rightarrow> bool" where
  distribute: "nm_ok nm \<Longrightarrow> nm_order ord nm \<Longrightarrow> nm_caps_ok nm \<Longrightarrow> plan_ok plan \<Longrightarrow>
    DistributePlan ord nm i plan (lc_plans s) = (Inr d, pd') \<Longrightarrow>
    lc_step s (Distributed i) (s\<lparr>lc_plans := pd'\<rparr>)"
| mark: "MarkWorkerDone i w (lc_plans s) = (finished, pd') \<Longrightarrow>
    lc_step s (Marked i w) (s\<lparr>lc_plans := pd', lc_completing := (if finished then i # lc_completing s else lc_completing s)\<rparr>)"
| set_completed: "i \<in> set (lc_completing s) \<Longrightarrow>
    lc_step s (CompletedSet i) (s\<lparr>lc_plans := SetStatus i TestStatusCompleted (lc_plans s),
      lc_completing := remove1 i (lc_completing s)\<rparr>)"
| stop: "GetActiveTest i (lc_plans s) \<noteq> None \<Longrightarrow>
    lc_step s (StopStarted i) (s\<lparr>lc_stopping := i # lc_stopping s\<rparr>)"
| set_stopped: "i \<in> set (lc_stopping s) \<Longrightarrow>
    lc_step s (StopSet i) (s\<lparr>lc_plans := SetStatus i TestStatusStopped (lc_plans s),
      lc_stopping := remove1 i (lc_stopping s)\<rparr>)"

inductive_cases lc_stepE: "lc_step s e s'"

text \<open>Reachable states; \<open>reuse\<close> says whether a test identifier may be distributed again while the
  test of that name is still stored.\<close>

inductive lc_reach :: "bool \<Rightarrow> lifecycle \<Rightarrow> bool" for reuse where
  init: "lc_reach reuse lc_init"
| step: "lc_reach reuse s \<Longrightarrow> lc_step s e s' \<Longrightarrow>
    (\<And>i. e = Distributed i \<Longrightarrow> reuse \<or> GetActiveTest i (lc_plans s) = None) \<Longrightarrow> lc_reach reuse s'"

section \<open>The invariant\<close>

definition all_done :: "active_test \<Rightarrow> bool" where
  "all_done t \<longleftrightarrow> (\<forall>w. has_key (at_Workers t) w \<longrightarrow> has_key (at_done t) w)"

definition lc_inv :: "lifecycle \<Rightarrow> bool" where
  "lc_inv s \<longleftrightarrow> pd_ok (lc_plans s)
     \<and> (\<forall>i t. GetActiveTest i (lc_plans s) = Some t \<longrightarrow>
          at_Status t \<in> {TestStatusRunning, TestStatusCompleted, TestStatusStopped}
          \<and> (at_Status t = TestStatusCompleted \<or> i \<in> set (lc_completing s) \<longrightarrow> all_done t))
     \<and> (\<forall>i \<in> set (lc_completing s). GetActiveTest i (lc_plans s) \<noteq> None)"

lemma lc_invD:
  assumes "lc_inv s"
  shows "pd_ok (lc_plans s)"
    and "GetActiveTest i (lc_plans s) = Some t \<Longrightarrow> at_Status t \<in> {TestStatusRunning, TestStatusCompleted, TestStatusStopped}"
    and "GetActiveTest i (lc_plans s) = Some t \<Longrightarrow> at_Status t = TestStatusCompleted \<or> i \<in> set (lc_completing s) \<Longrightarrow> all_done t"
    and "i \<in> set (lc_completing s) \<Longrightarrow> GetActiveTest i (lc_plans s) \<noteq> None"
  using assms by (auto simp: lc_inv_def)

lemma fresh_test_simps [simp]:
  "at_Status (fresh_test i plan d) = TestStatusRunning" "at_Workers (fresh_test i plan d) = d"
  "at_done (fresh_test i plan d) = []"
  by (simp_all add: fresh_test_def)

lemma inv_distribute:
  assumes "lc_inv s" and "nm_ok nm" "nm_order ord nm" "nm_caps_ok nm" "plan_ok plan"
    and D: "DistributePlan ord nm i plan (lc_plans s) = (Inr d, pd')" and "GetActiveTest i (lc_plans s) = None"
  shows "lc_inv (s\<lparr>lc_plans := pd'\<rparr>)"
proof -
  have ok: "pd_ok pd'"
    using pd_ok_DistributePlan [OF assms(2-5) lc_invD(1) [OF assms(1)], of i] D by simp
  have "pd' = (lc_plans s)\<lparr>pd_activeTests := AList.update i (fresh_test i plan d) (pd_activeTests (lc_plans s))\<rparr>"
    using D by (cases rule: DistributePlan_cases [OF assms(2-5), of i "lc_plans s"]) auto
  then have L: "GetActiveTest j pd' = (if j = i then Some (fresh_test i plan d) else GetActiveTest j (lc_plans s))" for j
    by (simp add: GetActiveTest_def map_of_put)
  have "i \<notin> set (lc_completing s)" using lc_invD(4) [OF assms(1)] assms(7) by blast
  with assms(1) ok show ?thesis by (auto simp: lc_inv_def L split: if_splits)
qed

lemma inv_mark:
  assumes "lc_inv s" and M: "MarkWorkerDone i w (lc_plans s) = (finished, pd')"
  shows "lc_inv (s\<lparr>lc_plans := pd', lc_completing := (if finished then i # lc_completing s else lc_completing s)\<rparr>)"
proof -
  have ok: "pd_ok pd'" using pd_ok_MarkWorkerDone [OF lc_invD(1) [OF assms(1)], of i w] M by simp
  have L: "GetActiveTest j pd' =
     (if j = i then map_option (\<lambda>t. if has_key (at_Workers t) w then t\<lparr>at_done := AList.update w True (at_done t)\<rparr> else t)
                      (GetActiveTest i (lc_plans s))
      else GetActiveTest j (lc_plans s))" for j
    using MarkWorkerDone_lookup [of j i w "lc_plans s"] M by simp
  have F: "finished \<Longrightarrow> \<exists>t. GetActiveTest i (lc_plans s) = Some t \<and> has_key (at_Workers t) w
      \<and> (\<forall>v. has_key (at_Workers t) v \<longrightarrow> v = w \<or> has_key (at_done t) v)"
    using MarkWorkerDone_result [OF lc_invD(1) [OF assms(1)], of i w] M by auto
  have mono: "all_done t \<Longrightarrow> all_done (t\<lparr>at_done := AList.update w True (at_done t)\<rparr>)" for t
    by (auto simp: all_done_def has_key_put)
  show ?thesis unfolding lc_inv_def
  proof (intro conjI allI impI ballI)
    fix j t assume "GetActiveTest j (lc_plans (s\<lparr>lc_plans := pd', lc_completing := (if finished then i # lc_completing s else lc_completing s)\<rparr>)) = Some t"
    then have j: "GetActiveTest j pd' = Some t" by simp
    show "at_Status t \<in> {TestStatusRunning, TestStatusCompleted, TestStatusStopped}"
      using j by (auto simp: L split: if_splits dest: lc_invD(2) [OF assms(1)])
    assume "at_Status t = TestStatusCompleted \<or> j \<in> set (lc_completing (s\<lparr>lc_plans := pd', lc_completing := (if finished then i # lc_completing s else lc_completing s)\<rparr>))"
    then consider "at_Status t = TestStatusCompleted \<or> j \<in> set (lc_completing s)" | "j = i" "finished"
      by (auto split: if_splits)
    then show "all_done t"
    proof cases
      case 1
      with j show ?thesis using lc_invD(3) [OF assms(1)] mono by (auto simp: L split: if_splits)
    next
      case 2
      with F j show ?thesis by (auto simp: L all_done_def has_key_put)
    qed
  qed (use ok F lc_invD(4) [OF assms(1)] in \<open>auto simp: L split: if_splits\<close>)
qed

lemma inv_set_status:
  assumes "lc_inv s" and "st \<in> {TestStatusRunning, TestStatusCompleted, TestStatusStopped}"
    and "st = TestStatusCompleted \<Longrightarrow> i \<in> set (lc_completing s)" and "set cs \<subseteq> set (lc_completing s)"
  shows "lc_inv (s\<lparr>lc_plans := SetStatus i st (lc_plans s), lc_completing := cs, lc_stopping := ts\<rparr>)"
proof -
  have "all_done t \<Longrightarrow> all_done (t\<lparr>at_Status := st\<rparr>)" for t by (simp add: all_done_def)
  with assms show ?thesis
    unfolding lc_inv_def by (auto simp: SetStatus_lookup pd_ok_SetStatus split: if_splits)
qed

lemma lc_inv_step:
  assumes "lc_inv s" and "lc_step s e s'" and "\<And>i. e = Distributed i \<Longrightarrow> GetActiveTest i (lc_plans s) = None"
  shows "lc_inv s'"
  using assms(2)
proof (cases rule: lc_step.cases)
  case (distribute nm ord plan i d pd')
  then show ?thesis using inv_distribute [OF assms(1)] assms(3) by simp
next
  case (mark i w finished pd')
  then show ?thesis using inv_mark [OF assms(1)] by simp
next
  case (set_completed i)
  then show ?thesis
    using inv_set_status [OF assms(1), of TestStatusCompleted i "remove1 i (lc_completing s)" "lc_stopping s"]
    by (simp add: set_remove1_subset)
next
  case (stop i)
  with assms(1) show ?thesis by (simp add: lc_inv_def)
next
  case (set_stopped i)
  then show ?thesis
    using inv_set_status [OF assms(1), of TestStatusStopped i "lc_completing s" "remove1 i (lc_stopping s)"]
    by simp
qed

lemma lc_inv_reach: "lc_reach False s \<Longrightarrow> lc_inv s"
proof (induction rule: lc_reach.induct)
  case init
  show ?case by (simp add: lc_inv_def lc_init_def pd_ok_New GetActiveTest_def) (simp add: NewPlanDistributor_def)
next
  case (step s e s')
  then show ?case using lc_inv_step by blast
qed

section \<open>No lost completion\<close>

text \<open>A running test with workers that are all done has its completion pending.\<close>

definition lc_live :: "lifecycle \<Rightarrow> bool" where
  "lc_live s \<longleftrightarrow> (\<forall>i t. GetActiveTest i (lc_plans s) = Some t \<and> at_Status t = TestStatusRunning \<and> all_done t
      \<and> at_Workers t \<noteq> [] \<longrightarrow> i \<in> set (lc_completing s))"

lemma live_set_status:
  "lc_live s \<Longrightarrow> st \<noteq> TestStatusRunning \<Longrightarrow> \<forall>j. j \<noteq> i \<longrightarrow> j \<in> set (lc_completing s) \<longrightarrow> j \<in> set cs \<Longrightarrow>
   lc_live (s\<lparr>lc_plans := SetStatus i st (lc_plans s), lc_completing := cs, lc_stopping := ts\<rparr>)"
  by (auto simp: lc_live_def SetStatus_lookup split: if_splits)

lemma live_mark:
  assumes "lc_live s" and "pd_ok (lc_plans s)" and M: "MarkWorkerDone i w (lc_plans s) = (finished, pd')"
  shows "lc_live (s\<lparr>lc_plans := pd', lc_completing := (if finished then i # lc_completing s else lc_completing s)\<rparr>)"
proof -
  have L: "GetActiveTest j pd' =
     (if j = i then map_option (\<lambda>t. if has_key (at_Workers t) w then t\<lparr>at_done := AList.update w True (at_done t)\<rparr> else t)
                      (GetActiveTest i (lc_plans s))
      else GetActiveTest j (lc_plans s))" for j
    using MarkWorkerDone_lookup [of j i w "lc_plans s"] M by simp
  have F: "GetActiveTest i (lc_plans s) = Some t \<Longrightarrow> has_key (at_Workers t) w \<Longrightarrow> at_Status t = TestStatusRunning \<Longrightarrow>
      all_done (t\<lparr>at_done := AList.update w True (at_done t)\<rparr>) \<Longrightarrow> finished" for t
    using MarkWorkerDone_result [OF assms(2), of i w] M by (auto simp: all_done_def has_key_put)
  show ?thesis unfolding lc_live_def
  proof (intro allI impI)
    fix j t
    assume A: "GetActiveTest j (lc_plans (s\<lparr>lc_plans := pd', lc_completing := (if finished then i # lc_completing s else lc_completing s)\<rparr>)) = Some t
      \<and> at_Status t = TestStatusRunning \<and> all_done t \<and> at_Workers t \<noteq> []"
    have "finished \<and> j = i \<or> j \<in> set (lc_completing s)"
    proof (cases "j = i \<and> (\<exists>u. GetActiveTest i (lc_plans s) = Some u \<and> has_key (at_Workers u) w)")
      case True
      then show ?thesis using A F by (auto simp: L)
    next
      case False
      then have "GetActiveTest j (lc_plans s) = Some t" using A by (auto simp: L split: if_splits)
      then show ?thesis using A assms(1) by (auto simp: lc_live_def)
    qed
    then show "j \<in> set (lc_completing (s\<lparr>lc_plans := pd', lc_completing := (if finished then i # lc_completing s else lc_completing s)\<rparr>))"
      by auto
  qed
qed

lemma lc_live_step:
  assumes "lc_live s" and "pd_ok (lc_plans s)" and "lc_step s e s'"
  shows "lc_live s'"
  using assms(3)
proof (cases rule: lc_step.cases)
  case (distribute nm ord plan i d pd')
  have "pd' = (lc_plans s)\<lparr>pd_activeTests := AList.update i (fresh_test i plan d) (pd_activeTests (lc_plans s))\<rparr>"
    using distribute(7) by (cases rule: DistributePlan_cases [OF distribute(3-6), of i "lc_plans s"]) auto
  then have L: "GetActiveTest j pd' = (if j = i then Some (fresh_test i plan d) else GetActiveTest j (lc_plans s))" for j
    by (simp add: GetActiveTest_def map_of_put)
  have "\<not> all_done (fresh_test i plan d)" if "d \<noteq> []"
    using that by (cases d) (auto simp: all_done_def has_key_def)
  with assms(1) distribute(2) show ?thesis by (auto simp: lc_live_def L)
next
  case (mark i w finished pd')
  then show ?thesis using live_mark [OF assms(1,2)] by simp
next
  case (set_completed i)
  then show ?thesis
    using live_set_status [OF assms(1), of TestStatusCompleted i "remove1 i (lc_completing s)" "lc_stopping s"]
    by (simp add: in_set_remove1)
next
  case (stop i)
  with assms(1) show ?thesis by (simp add: lc_live_def)
next
  case (set_stopped i)
  then show ?thesis
    using live_set_status [OF assms(1), of TestStatusStopped i "lc_completing s" "remove1 i (lc_stopping s)"]
    by simp
qed

lemma lc_live_reach: "lc_reach False s \<Longrightarrow> lc_live s"
proof (induction rule: lc_reach.induct)
  case init
  show ?case by (simp add: lc_live_def lc_init_def GetActiveTest_def NewPlanDistributor_def)
next
  case (step s e s')
  then show ?case using lc_live_step lc_invD(1) [OF lc_inv_reach] by blast
qed

section \<open>A run\<close>

text \<open>One worker of ten virtual users and a plan of seven.\<close>

lemma split_single: "split_of_plan (demo_nm 10 0) (demo_plan 7) d \<Longrightarrow> d = [(''w1'', 7)]"
proof -
  assume S: "split_of_plan (demo_nm 10 0) (demo_plan 7) d"
  have k: "w = ''w1''" if "map_of d w = Some v" for w v
  proof -
    have "0 < v \<and> (\<exists>n. GetNode w (demo_nm 10 0) = Some n \<and> v \<le> wn_MaxVUs n)"
      using S that by (simp add: split_of_plan_def)
    then show ?thesis by (auto simp: GetNode_def demo_nm_def demo_node_def split: if_splits)
  qed
  have g: "gomap_ok d" and v: "vsum d = 7" using S demo_plan_ok [of 7] by (simp_all add: split_of_plan_def)
  show ?thesis
  proof (cases d)
    case Nil
    with v show ?thesis by simp
  next
    case (Cons e es)
    obtain w x where e: "e = (w, x)" by (cases e)
    have keys: "fst y = ''w1''" if "y \<in> set d" for y
      using that gomap_ok_mem [OF g, of "fst y" "snd y"] k by auto
    have "es = []"
    proof (cases es)
      case (Cons f fs)
      then have "fst e = fst f" using keys \<open>d = e # es\<close> by simp
      with g show ?thesis using \<open>d = e # es\<close> Cons by (simp add: gomap_ok_def)
    qed
    with v Cons e keys show ?thesis by simp
  qed
qed

abbreviation demo_test :: active_test where
  "demo_test \<equiv> fresh_test ''t'' (demo_plan 7) [(''w1'', 7)]"

definition demo_state :: "active_test \<Rightarrow> string list \<Rightarrow> string list \<Rightarrow> lifecycle" where
  "demo_state t cs ts = \<lparr>lc_plans = \<lparr>pd_activeTests = [(''t'', t)]\<rparr>, lc_completing = cs, lc_stopping = ts\<rparr>"

lemma demo_distributes:
  assumes "pd_activeTests (lc_plans s) = [] \<or> (\<exists>t. pd_activeTests (lc_plans s) = [(''t'', t)])"
  shows "lc_step s (Distributed ''t'') (demo_state demo_test (lc_completing s) (lc_stopping s))"
proof -
  have caps: "nm_caps_ok (demo_nm 10 0)" and ok: "plan_ok (demo_plan 7)" and peak: "plan_peak (demo_plan 7) = 7"
    using demo_caps [of 10 0] demo_plan_ok [of 7] by simp_all
  have cap: "total_capacity 0 (GetNodes demo_ord (demo_nm 10 0)) = 10"
    by (simp add: GetNodes_def demo_nm_def demo_node_def i32_def)
  have "DistributePlan demo_ord (demo_nm 10 0) ''t'' (demo_plan 7) (lc_plans s) =
      (Inr [(''w1'', 7)], \<lparr>pd_activeTests = [(''t'', demo_test)]\<rparr>)"
    using demo_nm_ok caps ok
  proof (cases rule: DistributePlan_cases [of "demo_nm 10 0" demo_ord "demo_plan 7" "''t''" "lc_plans s"])
    case nodes
    then show ?thesis by (simp add: demo_nm_def)
  next
    case capacity
    then show ?thesis by (simp add: cap peak)
  next
    case (split d)
    with split_single assms show ?thesis by (cases "lc_plans s") auto
  qed
  from lc_step.distribute [OF demo_nm_ok caps ok this]
  have "lc_step s (Distributed ''t'') (s\<lparr>lc_plans := \<lparr>pd_activeTests = [(''t'', demo_test)]\<rparr>\<rparr>)" .
  moreover have "s\<lparr>lc_plans := \<lparr>pd_activeTests = [(''t'', demo_test)]\<rparr>\<rparr> = demo_state demo_test (lc_completing s) (lc_stopping s)"
    by (cases s) (simp add: demo_state_def)
  ultimately show ?thesis by simp
qed

lemma demo_run: "lc_reach reuse (demo_state demo_test [] [])"
  using lc_reach.step [OF lc_reach.init demo_distributes]
  by (simp add: lc_init_def NewPlanDistributor_def GetActiveTest_def)

abbreviation demo_done :: active_test where
  "demo_done \<equiv> demo_test\<lparr>at_done := [(''w1'', True)]\<rparr>"

lemma demo_marks: "lc_step (demo_state demo_test [] ts) (Marked ''t'' ''w1'') (demo_state demo_done [''t''] ts)"
  using lc_step.mark [of "''t''" "''w1''" "demo_state demo_test [] ts" True "\<lparr>pd_activeTests = [(''t'', demo_done)]\<rparr>"]
  by (simp add: demo_state_def MarkWorkerDone_def has_key_def Let_def)

lemma demo_completes:
  "lc_step (demo_state t [''t''] ts) (CompletedSet ''t'') (demo_state (t\<lparr>at_Status := TestStatusCompleted\<rparr>) [] ts)"
  using lc_step.set_completed [of "''t''" "demo_state t [''t''] ts"] by (simp add: demo_state_def SetStatus_def)

section \<open>Properties\<close>



text \<open>C11: liveness. No completion is lost: in every interleaving, once every assigned worker of a test
  with workers has reported and the test still counts as running, a handler that will set it to
  completed is on its way, and its step is enabled.\<close>

theorem no_lost_completion:
  assumes "lc_reach False s" and "GetActiveTest i (lc_plans s) = Some t" and "at_Status t = TestStatusRunning"
    and "at_Workers t \<noteq> []" and "\<And>w. has_key (at_Workers t) w \<Longrightarrow> has_key (at_done t) w"
  shows "\<exists>s'. lc_step s (CompletedSet i) s'
    \<and> GetActiveTest i (lc_plans s') = Some (t\<lparr>at_Status := TestStatusCompleted\<rparr>)"
proof -
  have "i \<in> set (lc_completing s)"
    using lc_live_reach [OF assms(1)] assms(2-5) by (auto simp: lc_live_def all_done_def)
  from lc_step.set_completed [OF this] show ?thesis
    by (intro exI conjI, assumption) (simp add: SetStatus_lookup assms(2))
qed

theorem no_lost_completion_witness:
  "\<exists>s'. lc_step (demo_state demo_done [''t''] []) (CompletedSet ''t'') s'
    \<and> GetActiveTest ''t'' (lc_plans s') = Some (demo_done\<lparr>at_Status := TestStatusCompleted\<rparr>)"
proof (rule no_lost_completion [where t = demo_done])
  show "lc_reach False (demo_state demo_done [''t''] [])"
    using lc_reach.step [OF demo_run demo_marks] by simp
qed (auto simp: demo_state_def GetActiveTest_def has_key_def split: if_splits)

text \<open>Safety. Stopping is not final: a stop that ends between the last report's \<open>MarkWorkerDone\<close> and
  its \<open>SetStatus\<close> is overwritten, and a test whose stop was acknowledged shows as completed.\<close>

theorem stop_is_overwritten:
  "\<exists>s s' t. lc_reach False s \<and> GetActiveTest ''t'' (lc_plans s) = Some t \<and> at_Status t = TestStatusStopped
    \<and> lc_stopping s = [] \<and> lc_step s (CompletedSet ''t'') s'
    \<and> GetActiveTest ''t'' (lc_plans s') = Some (t\<lparr>at_Status := TestStatusCompleted\<rparr>)"
proof -
  have 1: "lc_reach False (demo_state demo_test [] [''t''])"
    using lc_reach.step [OF demo_run lc_step.stop [of "''t''"], of False] by (simp add: demo_state_def GetActiveTest_def)
  have 2: "lc_reach False (demo_state demo_done [''t''] [''t''])" using lc_reach.step [OF 1 demo_marks] by simp
  have "lc_step (demo_state demo_done [''t''] [''t'']) (StopSet ''t'')
      (demo_state (demo_done\<lparr>at_Status := TestStatusStopped\<rparr>) [''t''] [])"
    using lc_step.set_stopped [of "''t''" "demo_state demo_done [''t''] [''t'']"] by (simp add: demo_state_def SetStatus_def)
  from lc_reach.step [OF 2 this] have 3: "lc_reach False (demo_state (demo_done\<lparr>at_Status := TestStatusStopped\<rparr>) [''t''] [])"
    by simp
  show ?thesis
    by (rule exI, rule exI, rule exI, intro conjI, rule 3, (simp add: demo_state_def GetActiveTest_def; fail)+,
        rule demo_completes) (simp add: demo_state_def GetActiveTest_def)
qed

text \<open>Reusing an identifier is not safe: when a test is distributed again under the same
  identifier while a completion is on its way, the new test is completed without a single report.\<close>

theorem reuse_completes_early:
  "\<exists>s t. lc_reach True s \<and> GetActiveTest ''t'' (lc_plans s) = Some t \<and> at_Status t = TestStatusCompleted
    \<and> at_done t = [] \<and> at_Workers t \<noteq> []"
proof -
  have 1: "lc_reach True (demo_state demo_done [''t''] [])" using lc_reach.step [OF demo_run demo_marks] by simp
  have "lc_step (demo_state demo_done [''t''] []) (Distributed ''t'') (demo_state demo_test [''t''] [])"
    using demo_distributes [of "demo_state demo_done [''t''] []"] by (simp add: demo_state_def)
  from lc_reach.step [OF 1 this] have 2: "lc_reach True (demo_state demo_test [''t''] [])" by simp
  from lc_reach.step [OF 2 demo_completes]
  have "lc_reach True (demo_state (demo_test\<lparr>at_Status := TestStatusCompleted\<rparr>) [] [])" by simp
  moreover have "GetActiveTest ''t'' (lc_plans (demo_state (demo_test\<lparr>at_Status := TestStatusCompleted\<rparr>) [] []))
      = Some (demo_test\<lparr>at_Status := TestStatusCompleted\<rparr>)" by (simp add: demo_state_def GetActiveTest_def)
  ultimately show ?thesis
    by (intro exI [of _ "demo_state (demo_test\<lparr>at_Status := TestStatusCompleted\<rparr>) [] []"]
        exI [of _ "demo_test\<lparr>at_Status := TestStatusCompleted\<rparr>"]) simp
qed

end
