(* ===== verification/Worker_Metrics.thy ===== *)
theory Worker_Metrics
  imports Orchestrator_Server
begin

text \<open>
  The worker's metrics, \<open>internal/worker/metrics.go\<close> over \<open>internal/tracer/span_aggregator.go\<close>, and
  the batch built from them (\<open>NewMetricBatch\<close> of \<open>internal/worker/reporter.go\<close>). Each operation
  holds the collector's mutex, so it is one step; the times it reads are arguments.

  The HDR histogram is a library: its operations are the argument \<open>lib\<close> and \<open>hdr_contract\<close> is what
  it documents. The process-wide Prometheus counters next to the collector's own are not modelled.
\<close>

section \<open>The histogram library\<close>

record 'h hdr_lib =
  hdr_New :: "int64 \<Rightarrow> int64 \<Rightarrow> int64 \<Rightarrow> 'h"
  hdr_RecordValue :: "'h \<Rightarrow> int64 \<Rightarrow> 'h option"
  hdr_Min :: "'h \<Rightarrow> int64"
  hdr_Max :: "'h \<Rightarrow> int64"
  hdr_Mean :: "'h \<Rightarrow> f64"
  hdr_ValueAtQuantile :: "'h \<Rightarrow> f64 \<Rightarrow> int64"
  hdr_Reset :: "'h \<Rightarrow> 'h"

text \<open>
  \<open>int64(x)\<close> of a float and \<open>Duration.Seconds\<close>, a whole number of seconds plus a fraction, each
  rounded.
\<close>

fun f64_to_int64 :: "f64 \<Rightarrow> int64" where
  "f64_to_int64 (Fin a) = (if in64 (rat_trunc a) then rat_trunc a else - (2 ^ 63))"
| "f64_to_int64 _ = - (2 ^ 63)"

definition Seconds :: "duration \<Rightarrow> f64" where
  "Seconds d = f64_add (f64_of_int (go_div d second))
     (f64_div (f64_of_int (d - second * go_div d second)) (f64_of_int 1000000000))"

section \<open>Span aggregator\<close>

record 'h span_aggregator =
  sa_HasLogger :: bool
  sa_Histogram :: 'h
  sa_Count :: int64
  sa_StartTime :: go_time

definition NewSpanAggregator :: "'h hdr_lib \<Rightarrow> bool \<Rightarrow> go_time \<Rightarrow> 'h span_aggregator" where
  "NewSpanAggregator lib logger now =
     \<lparr>sa_HasLogger = logger, sa_Histogram = hdr_New lib 1 3600000 3, sa_Count = 0, sa_StartTime = now\<rparr>"

text \<open>A value the histogram rejects is logged; without a logger that call panics (\<open>None\<close>).\<close>

definition Record :: "'h hdr_lib \<Rightarrow> duration \<Rightarrow> 'h span_aggregator \<Rightarrow> 'h span_aggregator option" where
  "Record lib d sa =
     (case hdr_RecordValue lib (sa_Histogram sa) (to_ms d) of
        None \<Rightarrow> if sa_HasLogger sa then Some sa else None
      | Some h \<Rightarrow> Some (sa\<lparr>sa_Histogram := h, sa_Count := i64 (sa_Count sa + 1)\<rparr>))"

definition GetPercentiles :: "'h hdr_lib \<Rightarrow> 'h span_aggregator \<Rightarrow> latency_histogram" where
  "GetPercentiles lib sa =
     (if sa_Count sa = 0 then zero_latency
      else let h = sa_Histogram sa in
        \<lparr>lat_Min = from_ms (hdr_Min lib h), lat_Max = from_ms (hdr_Max lib h),
         lat_Mean = from_ms (f64_to_int64 (hdr_Mean lib h)),
         lat_P50 = from_ms (hdr_ValueAtQuantile lib h (f64_of_int 50)),
         lat_P95 = from_ms (hdr_ValueAtQuantile lib h (f64_of_int 95)),
         lat_P99 = from_ms (hdr_ValueAtQuantile lib h (f64_of_int 99)),
         lat_P999 = from_ms (hdr_ValueAtQuantile lib h (f64_round (999 / 10))),
         lat_Count = sa_Count sa\<rparr>)"

definition SpanReset :: "'h hdr_lib \<Rightarrow> go_time \<Rightarrow> 'h span_aggregator \<Rightarrow> 'h span_aggregator" where
  "SpanReset lib now sa =
     sa\<lparr>sa_Histogram := hdr_Reset lib (sa_Histogram sa), sa_Count := 0, sa_StartTime := now\<rparr>"

definition GetCount :: "'h span_aggregator \<Rightarrow> int64" where
  "GetCount sa = sa_Count sa"

section \<open>Metrics collector\<close>

record request_count =
  rc_timestamp :: go_time
  rc_count :: int64

record 'h metrics_collector =
  mc_aggregator :: "'h span_aggregator"
  mc_requestCounts :: "request_count list"
  mc_windowSize :: duration
  mc_peakRPS :: f64
  mc_totalRequests :: int64
  mc_totalErrors :: int64
  mc_statusCodes :: "(int, int64) gomap"
  mc_errorMessages :: "string list"
  mc_startTime :: go_time
  mc_lastReset :: go_time

definition NewMetricsCollector :: "'h hdr_lib \<Rightarrow> duration \<Rightarrow> go_time \<Rightarrow> 'h metrics_collector" where
  "NewMetricsCollector lib windowSize now =
     \<lparr>mc_aggregator = NewSpanAggregator lib False now, mc_requestCounts = [], mc_windowSize = windowSize,
      mc_peakRPS = Fin 0, mc_totalRequests = 0, mc_totalErrors = 0, mc_statusCodes = [],
      mc_errorMessages = [], mc_startTime = now, mc_lastReset = now\<rparr>"

text \<open>At most a hundred messages are kept.\<close>

definition keep_message :: "bool \<Rightarrow> string \<Rightarrow> string list \<Rightarrow> string list" where
  "keep_message present msg msgs = (if present \<and> length msgs < 100 then msgs @ [msg] else msgs)"

definition RecordRequest ::
  "'h hdr_lib \<Rightarrow> go_time \<Rightarrow> bool \<Rightarrow> duration \<Rightarrow> int \<Rightarrow> string \<Rightarrow> 'h metrics_collector \<Rightarrow> 'h metrics_collector option" where
  "RecordRequest lib now success d statusCode message mc =
     (case (if 0 < d then Record lib d (mc_aggregator mc) else Some (mc_aggregator mc)) of
        None \<Rightarrow> None
      | Some agg \<Rightarrow> Some (mc\<lparr>
          mc_aggregator := agg,
          mc_totalRequests := i64 (mc_totalRequests mc + 1),
          mc_totalErrors := (if success then mc_totalErrors mc else i64 (mc_totalErrors mc + 1)),
          mc_errorMessages := (if success then mc_errorMessages mc
             else keep_message (message \<noteq> '''') message (mc_errorMessages mc)),
          mc_statusCodes := AList.update statusCode (i64 (get0 0 (mc_statusCodes mc) statusCode + 1)) (mc_statusCodes mc),
          mc_requestCounts := filter (\<lambda>rc. now - mc_windowSize mc < rc_timestamp rc)
             (mc_requestCounts mc @ [\<lparr>rc_timestamp = now, rc_count = 1\<rparr>])\<rparr>))"

definition RecordError :: "string option \<Rightarrow> 'h metrics_collector \<Rightarrow> 'h metrics_collector" where
  "RecordError err mc = mc\<lparr>mc_totalErrors := i64 (mc_totalErrors mc + 1),
     mc_errorMessages := (case err of None \<Rightarrow> mc_errorMessages mc | Some e \<Rightarrow> keep_message True e (mc_errorMessages mc))\<rparr>"

definition window_seconds :: "duration \<Rightarrow> int64" where
  "window_seconds w = (if go_div w second = 0 then 1 else go_div w second)"

fun sum_counts :: "int64 \<Rightarrow> request_count list \<Rightarrow> int64" where
  "sum_counts t [] = t"
| "sum_counts t (rc # rcs) = sum_counts (i64 (t + rc_count rc)) rcs"

text \<open>
  \<open>now\<close> and \<open>now'\<close> are the two readings of the clock, \<open>ord\<close> the order in which the status codes
  are copied.
\<close>

definition GetSnapshot ::
  "'h hdr_lib \<Rightarrow> int list \<Rightarrow> go_time \<Rightarrow> go_time \<Rightarrow> 'h metrics_collector \<Rightarrow> metric_snapshot \<times> 'h metrics_collector" where
  "GetSnapshot lib ord now now' mc =
     (let totalCount = sum_counts 0 (filter (\<lambda>rc. now - mc_windowSize mc < rc_timestamp rc) (mc_requestCounts mc));
          currentRPS = f64_div (f64_of_int totalCount) (f64_of_int (window_seconds (mc_windowSize mc)));
          peak = (if f64_less (mc_peakRPS mc) currentRPS then currentRPS else mc_peakRPS mc);
          elapsed = Seconds (time_since now' (mc_startTime mc));
          avgRPS = (if f64_less (Fin 0) elapsed then f64_div (f64_of_int (mc_totalRequests mc)) elapsed else Fin 0);
          rate = (if 0 < mc_totalRequests mc \<and> f64_less (Fin 0) elapsed
                  then f64_div (f64_of_int (mc_totalErrors mc)) elapsed else Fin 0);
          percentage = (if 0 < mc_totalRequests mc
                  then f64_mul (f64_div (f64_of_int (mc_totalErrors mc)) (f64_of_int (mc_totalRequests mc))) (f64_of_int 100)
                  else Fin 0)
      in (\<lparr>ms_RPS = \<lparr>rps_Current = currentRPS, rps_Average = avgRPS, rps_Peak = peak,
              rps_WindowSeconds = window_seconds (mc_windowSize mc)\<rparr>,
           ms_Latency = GetPercentiles lib (mc_aggregator mc),
           ms_ErrorRate = \<lparr>er_Rate = rate, er_Percentage = percentage,
              er_StatusCodeCounts = copy_map (range_entries ord (mc_statusCodes mc)) [],
              er_ErrorMessages = mc_errorMessages mc\<rparr>,
           ms_TotalRequests = mc_totalRequests mc, ms_TotalErrors = mc_totalErrors mc,
           ms_Timestamp = now, ms_WorkerID = ''''\<rparr>,
          mc\<lparr>mc_peakRPS := peak\<rparr>))"

definition CollectorReset :: "'h hdr_lib \<Rightarrow> go_time \<Rightarrow> 'h metrics_collector \<Rightarrow> 'h metrics_collector" where
  "CollectorReset lib now mc = mc\<lparr>mc_aggregator := SpanReset lib now (mc_aggregator mc), mc_requestCounts := [],
     mc_totalRequests := 0, mc_totalErrors := 0, mc_statusCodes := [], mc_errorMessages := [],
     mc_peakRPS := Fin 0, mc_startTime := now, mc_lastReset := now\<rparr>"

definition NewMetricBatch :: "go_time \<Rightarrow> string \<Rightarrow> string \<Rightarrow> bool \<Rightarrow> metric_snapshot \<Rightarrow> pb_batch" where
  "NewMetricBatch now workerID testID testActive s =
     \<lparr>pb_WorkerId = workerID,
      pb_LatencyHistogram = Some (let l = ms_Latency s in
        \<lparr>plat_MinMs = to_ms (lat_Min l), plat_MaxMs = to_ms (lat_Max l), plat_MeanMs = to_ms (lat_Mean l),
         plat_P50Ms = to_ms (lat_P50 l), plat_P95Ms = to_ms (lat_P95 l), plat_P99Ms = to_ms (lat_P99 l),
         plat_P999Ms = to_ms (lat_P999 l), plat_Count = lat_Count l\<rparr>),
      pb_RpsSnapshot = Some (let r = ms_RPS s in
        \<lparr>prps_Current = rps_Current r, prps_Average = rps_Average r, prps_Peak = rps_Peak r,
         prps_WindowSeconds = rps_WindowSeconds r\<rparr>),
      pb_ErrorRate = Some \<lparr>per_Rate = er_Rate (ms_ErrorRate s), per_Percentage = er_Percentage (ms_ErrorRate s),
        per_ErrorMessages = []\<rparr>,
      pb_BatchTimestampMs = unix_milli now,
      pb_TotalRequests = ms_TotalRequests s, pb_TotalErrors = ms_TotalErrors s,
      pb_TestId = testID, pb_TestActive = testActive\<rparr>"

section \<open>The collector against its history\<close>

text \<open>What happens to a collector between two resets.\<close>

datatype mc_event = EvRequest go_time bool duration int string | EvError "string option" | EvSnapshot "int list" go_time go_time

fun mc_exec :: "'h hdr_lib \<Rightarrow> mc_event \<Rightarrow> 'h metrics_collector \<Rightarrow> 'h metrics_collector option" where
  "mc_exec lib (EvRequest now success d code msg) mc = RecordRequest lib now success d code msg mc"
| "mc_exec lib (EvError err) mc = Some (RecordError err mc)"
| "mc_exec lib (EvSnapshot ord now now') mc = Some (snd (GetSnapshot lib ord now now' mc))"

fun mc_execs :: "'h hdr_lib \<Rightarrow> mc_event list \<Rightarrow> 'h metrics_collector \<Rightarrow> 'h metrics_collector option" where
  "mc_execs lib [] mc = Some mc"
| "mc_execs lib (e # es) mc = (case mc_exec lib e mc of None \<Rightarrow> None | Some mc' \<Rightarrow> mc_execs lib es mc')"

text \<open>What the history says: the requests, the failures, the messages and the measured latencies.\<close>

fun is_request :: "mc_event \<Rightarrow> bool" where
  "is_request (EvRequest _ _ _ _ _) = True"
| "is_request _ = False"

fun has_status :: "int \<Rightarrow> mc_event \<Rightarrow> bool" where
  "has_status c (EvRequest _ _ _ code _) = (code = c)"
| "has_status c _ = False"

fun is_failure :: "mc_event \<Rightarrow> bool" where
  "is_failure (EvRequest _ success _ _ _) = (\<not> success)"
| "is_failure (EvError _) = True"
| "is_failure _ = False"

fun message_of :: "mc_event \<Rightarrow> string list" where
  "message_of (EvRequest _ success _ _ msg) = (if success \<or> msg = '''' then [] else [msg])"
| "message_of (EvError (Some e)) = [e]"
| "message_of _ = []"

fun latency_of :: "mc_event \<Rightarrow> int64 list" where
  "latency_of (EvRequest _ _ d _ _) = (if 0 < d then [to_ms d] else [])"
| "latency_of _ = []"

fun time_of :: "mc_event \<Rightarrow> go_time list" where
  "time_of (EvRequest t _ _ _ _) = [t]"
| "time_of _ = []"

abbreviation latencies :: "mc_event list \<Rightarrow> int64 list" where
  "latencies es \<equiv> concat (map latency_of es)"

abbreviation req_times :: "mc_event list \<Rightarrow> go_time list" where
  "req_times es \<equiv> concat (map time_of es)"

text \<open>
  What the library documents, for the histogram the collector makes (1 to 3600000, three
  significant digits): a value in range is recorded; the statistics of what was recorded are
  ordered and within the histogram's precision of the range; only positive values give a
  positive minimum. \<open>vals\<close> is what a histogram has recorded, \<open>ok\<close> the histograms so built.
\<close>

definition hdr_contract :: "'h hdr_lib \<Rightarrow> ('h \<Rightarrow> bool) \<Rightarrow> ('h \<Rightarrow> int64 list) \<Rightarrow> bool" where
  "hdr_contract lib ok vals \<longleftrightarrow>
     ok (hdr_New lib 1 3600000 3) \<and> vals (hdr_New lib 1 3600000 3) = []
   \<and> (\<forall>h. ok h \<longrightarrow> ok (hdr_Reset lib h) \<and> vals (hdr_Reset lib h) = [])
   \<and> (\<forall>h v. ok h \<and> 0 \<le> v \<and> v \<le> 3600000 \<longrightarrow>
        (\<exists>h'. hdr_RecordValue lib h v = Some h' \<and> ok h' \<and> vals h' = vals h @ [v]))
   \<and> (\<forall>h. ok h \<and> vals h \<noteq> [] \<and> (\<forall>v \<in> set (vals h). 0 < v) \<longrightarrow>
        0 < hdr_Min lib h \<and> (\<exists>m. hdr_Mean lib h = Fin m \<and> of_int (hdr_Min lib h) \<le> m \<and> m \<le> of_int (hdr_Max lib h))
        \<and> hdr_Max lib h \<le> 3603600
        \<and> hdr_Min lib h \<le> hdr_ValueAtQuantile lib h (f64_of_int 50)
        \<and> hdr_ValueAtQuantile lib h (f64_of_int 50) \<le> hdr_ValueAtQuantile lib h (f64_of_int 95)
        \<and> hdr_ValueAtQuantile lib h (f64_of_int 95) \<le> hdr_ValueAtQuantile lib h (f64_of_int 99)
        \<and> hdr_ValueAtQuantile lib h (f64_of_int 99) \<le> hdr_ValueAtQuantile lib h (f64_round (999 / 10))
        \<and> hdr_ValueAtQuantile lib h (f64_round (999 / 10)) \<le> hdr_Max lib h)"

lemma hdr_record:
  "hdr_contract lib ok vals \<Longrightarrow> ok h \<Longrightarrow> 0 \<le> v \<Longrightarrow> v \<le> 3600000 \<Longrightarrow>
   \<exists>h'. hdr_RecordValue lib h v = Some h' \<and> ok h' \<and> vals h' = vals h @ [v]"
  by (simp add: hdr_contract_def)

text \<open>The abstraction: a collector that agrees with a history.\<close>

definition counters_agree :: "mc_event list \<Rightarrow> 'h metrics_collector \<Rightarrow> bool" where
  "counters_agree es mc \<longleftrightarrow>
     mc_totalRequests mc = i64 (int (length (filter is_request es)))
   \<and> mc_totalErrors mc = i64 (int (length (filter is_failure es)))
   \<and> (\<forall>c. get0 0 (mc_statusCodes mc) c = i64 (int (length (filter (has_status c) es))))
   \<and> mc_errorMessages mc = take 100 (concat (map message_of es))"

definition histogram_agrees :: "('h \<Rightarrow> bool) \<Rightarrow> ('h \<Rightarrow> int64 list) \<Rightarrow> mc_event list \<Rightarrow> 'h metrics_collector \<Rightarrow> bool" where
  "histogram_agrees ok vals es mc \<longleftrightarrow>
     ok (sa_Histogram (mc_aggregator mc)) \<and> vals (sa_Histogram (mc_aggregator mc)) = latencies es
   \<and> sa_Count (mc_aggregator mc) = i64 (int (length (latencies es)))"

lemma i64_count: "i64 (i64 (int n) + 1) = i64 (int n + 1)" "i64 (1 + i64 (int n)) = i64 (int n + 1)"
  "i64 (1 + int n) = i64 (int n + 1)"
  using i64_i64_add [of "int n" 1] by (simp_all add: add.commute)

lemma keep_message_take: "keep_message p m (take 100 ms) = take 100 (ms @ (if p then [m] else []))"
  by (auto simp: keep_message_def min_def)

lemma counters_step:
  assumes "counters_agree es mc" and "mc_exec lib e mc = Some mc'"
  shows "counters_agree (es @ [e]) mc'"
proof (cases e)
  case (EvRequest now s d c m)
  then show ?thesis using assms
    by (auto simp: counters_agree_def RecordRequest_def i64_count get0_put keep_message_take split: option.splits)
next
  case (EvError err)
  then show ?thesis using assms
    by (auto simp: counters_agree_def RecordError_def i64_count keep_message_take split: option.splits)
next
  case (EvSnapshot ord now now')
  then show ?thesis using assms by (auto simp: counters_agree_def GetSnapshot_def Let_def)
qed

lemma counters_execs:
  "mc_execs lib fs mc = Some mc' \<Longrightarrow> counters_agree es mc \<Longrightarrow> counters_agree (es @ fs) mc'"
proof (induction fs arbitrary: es mc)
  case (Cons f fs)
  then obtain mc1 where "mc_exec lib f mc = Some mc1" and "mc_execs lib fs mc1 = Some mc'"
    by (auto split: option.splits)
  with Cons.IH [of mc1 "es @ [f]"] counters_step [OF Cons.prems(2)] show ?case by simp
qed simp

lemma counters_reset: "counters_agree [] (CollectorReset lib now mc)" "counters_agree [] (NewMetricsCollector lib w now)"
  by (simp_all add: counters_agree_def CollectorReset_def NewMetricsCollector_def get0_def)

definition in_range_events :: "mc_event list \<Rightarrow> bool" where
  "in_range_events es \<longleftrightarrow> (\<forall>v \<in> set (latencies es). v \<le> 3600000)"

lemma to_ms_nonneg: "0 < d \<Longrightarrow> 0 \<le> to_ms d"
  by (simp add: to_ms_def go_div_nonneg millisecond_def)

lemma histogram_step:
  assumes con: "hdr_contract lib ok vals" and agree: "histogram_agrees ok vals es mc"
    and range: "\<forall>v \<in> set (latency_of e). v \<le> 3600000"
  shows "\<exists>mc'. mc_exec lib e mc = Some mc' \<and> histogram_agrees ok vals (es @ [e]) mc'"
proof (cases e)
  case (EvRequest now s d c m)
  show ?thesis
  proof (cases "0 < d")
    case True
    with hdr_record [OF con, of "sa_Histogram (mc_aggregator mc)" "to_ms d"] agree range EvRequest to_ms_nonneg [OF True]
    obtain h' where "hdr_RecordValue lib (sa_Histogram (mc_aggregator mc)) (to_ms d) = Some h'" "ok h'"
      "vals h' = vals (sa_Histogram (mc_aggregator mc)) @ [to_ms d]"
      by (auto simp: histogram_agrees_def)
    with True EvRequest agree show ?thesis
      by (simp add: RecordRequest_def Record_def histogram_agrees_def i64_count)
  qed (use EvRequest agree in \<open>simp add: RecordRequest_def histogram_agrees_def\<close>)
next
  case (EvError err)
  then show ?thesis using agree by (simp add: RecordError_def histogram_agrees_def)
next
  case (EvSnapshot ord now now')
  then show ?thesis using agree by (simp add: GetSnapshot_def histogram_agrees_def Let_def)
qed

lemma histogram_execs:
  assumes con: "hdr_contract lib ok vals"
  shows "histogram_agrees ok vals es mc \<Longrightarrow> in_range_events fs \<Longrightarrow>
    \<exists>mc'. mc_execs lib fs mc = Some mc' \<and> histogram_agrees ok vals (es @ fs) mc'"
proof (induction fs arbitrary: es mc)
  case (Cons f fs)
  from histogram_step [OF con Cons.prems(1), of f] Cons.prems(2)
  obtain mc1 where "mc_exec lib f mc = Some mc1" and "histogram_agrees ok vals (es @ [f]) mc1"
    by (auto simp: in_range_events_def)
  with Cons.IH [of "es @ [f]" mc1] Cons.prems(2) show ?case by (auto simp: in_range_events_def)
qed simp

lemma histogram_reset:
  "hdr_contract lib ok vals \<Longrightarrow> ok (sa_Histogram (mc_aggregator mc)) \<Longrightarrow>
   histogram_agrees ok vals [] (CollectorReset lib now mc)"
  by (simp add: hdr_contract_def histogram_agrees_def CollectorReset_def SpanReset_def)

lemma histogram_new: "hdr_contract lib ok vals \<Longrightarrow> histogram_agrees ok vals [] (NewMetricsCollector lib w now)"
  by (simp add: hdr_contract_def histogram_agrees_def NewMetricsCollector_def NewSpanAggregator_def)

section \<open>Requests per second\<close>

lemma sum_counts_eq: "\<forall>rc \<in> set rcs. rc_count rc = 1 \<Longrightarrow> sum_counts (i64 n) rcs = i64 (n + int (length rcs))"
proof (induction rcs arbitrary: n)
  case (Cons rc rcs)
  from Cons.IH [of "n + 1"] Cons.prems show ?case using i64_i64_add [of n 1] by (simp add: algebra_simps)
qed simp

lemma filter_stamps: "map rc_timestamp (filter (\<lambda>rc. c < rc_timestamp rc) rcs) = filter (\<lambda>t. c < t) (map rc_timestamp rcs)"
  by (induction rcs) auto

definition stamps :: "duration \<Rightarrow> go_time list \<Rightarrow> go_time list" where
  "stamps w ts = (if ts = [] then [] else filter (\<lambda>t. last ts - w < t) ts)"

definition window_is :: "duration \<Rightarrow> go_time list \<Rightarrow> 'h metrics_collector \<Rightarrow> bool" where
  "window_is w ts mc \<longleftrightarrow> mc_windowSize mc = w \<and> (\<forall>rc \<in> set (mc_requestCounts mc). rc_count rc = 1)
     \<and> map rc_timestamp (mc_requestCounts mc) = stamps w ts"

lemma stamps_later: "\<forall>t \<in> set ts. t \<le> now \<Longrightarrow> filter (\<lambda>t. now - w < t) (stamps w ts) = filter (\<lambda>t. now - w < t) ts"
  unfolding stamps_def by (cases "ts = []") (auto intro!: filter_cong dest: bspec [OF _ last_in_set])

lemma window_step:
  assumes w: "window_is w (req_times es) mc" and e: "mc_exec lib e mc = Some mc'" and s: "sorted (req_times (es @ [e]))"
  shows "window_is w (req_times (es @ [e])) mc'"
proof (cases e)
  case (EvRequest now s d c m)
  have "filter (\<lambda>t. now - w < t) (stamps w (req_times es)) = filter (\<lambda>t. now - w < t) (req_times es)"
    using s EvRequest by (intro stamps_later) (auto simp: sorted_append)
  with w e EvRequest show ?thesis
    by (auto simp: window_is_def RecordRequest_def filter_stamps stamps_def split: option.splits)
next
  case (EvError err)
  with w e show ?thesis by (auto simp: window_is_def RecordError_def)
next
  case (EvSnapshot ord now now')
  with w e show ?thesis by (auto simp: window_is_def GetSnapshot_def Let_def)
qed

lemma window_execs:
  "mc_execs lib fs mc = Some mc' \<Longrightarrow> window_is w (req_times es) mc \<Longrightarrow> sorted (req_times (es @ fs)) \<Longrightarrow>
   window_is w (req_times (es @ fs)) mc'"
proof (induction fs arbitrary: es mc)
  case (Cons f fs)
  then obtain mc1 where one: "mc_exec lib f mc = Some mc1" and rest: "mc_execs lib fs mc1 = Some mc'"
    by (auto split: option.splits)
  have "sorted (req_times (es @ [f]))" using Cons.prems(3) by (simp add: sorted_append)
  from Cons.IH [OF rest window_step [OF Cons.prems(2) one this]] Cons.prems(3) show ?case by simp
qed simp

lemma f64_less_irrefl: "\<not> f64_less x x"
  by (cases x) auto

lemma peak_le: "\<not> f64_less (if f64_less p c then c else p) c"
  by (simp add: f64_less_irrefl)

text \<open>Functional. As long as the clock does not run backwards, the requests per second a worker
  reports are exactly the requests recorded in the last window (ten seconds) over the window's
  length, although the collector prunes its list as it goes; the peak is never below them.\<close>

theorem snapshot_rps_exact:
  assumes "mc_execs lib es (CollectorReset lib start mc) = Some mc'"
    and "sorted (req_times es)" and "\<forall>t \<in> set (req_times es). t \<le> now"
  shows "let r = ms_RPS (fst (GetSnapshot lib ord now now' mc'));
             n = length (filter (\<lambda>t. now - mc_windowSize mc < t) (req_times es)) in
     rps_Current r = f64_div (f64_of_int (i64 (int n))) (f64_of_int (window_seconds (mc_windowSize mc)))
     \<and> \<not> f64_less (rps_Peak r) (rps_Current r)"
proof -
  let ?w = "mc_windowSize mc"
  have "window_is ?w (req_times []) (CollectorReset lib start mc)"
    by (simp add: window_is_def CollectorReset_def stamps_def)
  from window_execs [OF assms(1) this] assms(2) have w: "window_is ?w (req_times es) mc'" by simp
  let ?rcs = "filter (\<lambda>rc. now - ?w < rc_timestamp rc) (mc_requestCounts mc')"
  have "length ?rcs = length (map rc_timestamp ?rcs)" by simp
  also have "\<dots> = length (filter (\<lambda>t. now - ?w < t) (stamps ?w (req_times es)))"
    using w by (simp only: filter_stamps window_is_def)
  also have "filter (\<lambda>t. now - ?w < t) (stamps ?w (req_times es)) = filter (\<lambda>t. now - ?w < t) (req_times es)"
    using assms(3) by (rule stamps_later)
  finally have n: "length ?rcs = length (filter (\<lambda>t. now - ?w < t) (req_times es))" .
  have "sum_counts 0 ?rcs = i64 (int (length ?rcs))"
    using w sum_counts_eq [of ?rcs 0] by (simp add: window_is_def)
  moreover have "mc_windowSize mc' = ?w" using w by (simp add: window_is_def)
  ultimately show ?thesis
    by (simp add: GetSnapshot_def Let_def n f64_less_irrefl)
qed

text \<open>An exact histogram, to show that the library's contract can be met.\<close>

fun list_quantile :: "int64 list \<Rightarrow> f64 \<Rightarrow> int64" where
  "list_quantile h (Fin q) = sort h ! min (length h - 1) (nat \<lfloor>q * of_nat (length h) / 100\<rfloor>)"
| "list_quantile h _ = 0"

definition list_hdr :: "int64 list hdr_lib" where
  "list_hdr = \<lparr>hdr_New = (\<lambda>_ _ _. []), hdr_RecordValue = (\<lambda>h v. if 0 \<le> v \<and> v \<le> 3600000 then Some (h @ [v]) else None),
     hdr_Min = (\<lambda>h. hd (sort h)), hdr_Max = (\<lambda>h. last (sort h)),
     hdr_Mean = (\<lambda>h. Fin (of_int (sum_list h) / of_nat (length h))),
     hdr_ValueAtQuantile = list_quantile, hdr_Reset = (\<lambda>_. [])\<rparr>"

lemma list_quantile_mono:
  "p \<le> q \<Longrightarrow> h \<noteq> [] \<Longrightarrow> list_quantile h (Fin p) \<le> list_quantile h (Fin q)"
proof -
  assume pq: "p \<le> q" and h: "h \<noteq> []"
  then have "nat \<lfloor>p * of_nat (length h) / 100\<rfloor> \<le> nat \<lfloor>q * of_nat (length h) / 100\<rfloor>"
    by (intro nat_mono floor_mono divide_right_mono mult_right_mono) auto
  moreover have "min (length h - 1) k < length (sort h)" for k using h by (cases h) auto
  ultimately show ?thesis by (auto intro!: sorted_nth_mono)
qed

lemma list_quantile_bounds:
  assumes "h \<noteq> []"
  shows "hd (sort h) \<le> list_quantile h (Fin q)" and "list_quantile h (Fin q) \<le> last (sort h)"
proof -
  let ?i = "min (length h - 1) (nat \<lfloor>q * of_nat (length h) / 100\<rfloor>)"
  have ne: "sort h \<noteq> []" using assms by (metis set_empty set_sort)
  have "?i < length (sort h)" "length (sort h) - 1 < length (sort h)" using assms by (cases h; simp)+
  then have "sort h ! 0 \<le> sort h ! ?i" "sort h ! ?i \<le> sort h ! (length (sort h) - 1)"
    by (auto intro!: sorted_nth_mono)
  then show "hd (sort h) \<le> list_quantile h (Fin q)" "list_quantile h (Fin q) \<le> last (sort h)"
    using ne by (simp_all add: hd_conv_nth last_conv_nth)
qed

lemma list_mean_bounds:
  assumes "h \<noteq> []"
  shows "of_int (hd (sort h)) \<le> (of_int (sum_list h) / of_nat (length h) :: rat)"
    and "(of_int (sum_list h) / of_nat (length h) :: rat) \<le> of_int (last (sort h))"
proof -
  have ne: "sort h \<noteq> []" using assms by (metis set_empty set_sort)
  have lo: "hd (sort h) \<le> x" and hi: "x \<le> last (sort h)" if "x \<in> set h" for x
  proof -
    from that have "x \<in> set (sort h)" by simp
    then obtain i where i: "i < length (sort h)" "sort h ! i = x" unfolding in_set_conv_nth by blast
    have "sort h ! 0 \<le> sort h ! i" "sort h ! i \<le> sort h ! (length (sort h) - 1)"
      using i(1) by (auto intro!: sorted_nth_mono)
    then show "hd (sort h) \<le> x" "x \<le> last (sort h)" unfolding hd_conv_nth [OF ne] last_conv_nth [OF ne] i(2) .
  qed
  have "of_nat (length h) * hd (sort h) \<le> sum_list h"
    using sum_list_mono [of h "\<lambda>_. hd (sort h)" "\<lambda>x. x", OF lo] by (simp only: sum_list_triv list.map_ident)
  moreover have "sum_list h \<le> of_nat (length h) * last (sort h)"
    using sum_list_mono [of h "\<lambda>x. x" "\<lambda>_. last (sort h)", OF hi] by (simp only: sum_list_triv list.map_ident)
  moreover have "0 < (of_nat (length h) :: rat)" using assms by simp
  moreover have "(of_int (of_nat (length h) * hd (sort h)) :: rat) \<le> of_int (sum_list h)"
    "(of_int (sum_list h) :: rat) \<le> of_int (of_nat (length h) * last (sort h))"
    using calculation(1,2) by (simp_all only: of_int_le_iff)
  ultimately have "of_nat (length h) * of_int (hd (sort h)) \<le> (of_int (sum_list h) :: rat)"
    "(of_int (sum_list h) :: rat) \<le> of_nat (length h) * of_int (last (sort h))" and pos: "0 < (of_nat (length h) :: rat)"
    by (simp_all only: of_int_mult of_int_of_nat_eq)
  then show "of_int (hd (sort h)) \<le> (of_int (sum_list h) / of_nat (length h) :: rat)"
    "(of_int (sum_list h) / of_nat (length h) :: rat) \<le> of_int (last (sort h))"
    by (simp_all only: pos_le_divide_eq [OF pos] pos_divide_le_eq [OF pos] mult.commute)
qed

lemma frnd_999: "f64_round (999 / 10) = Fin (frnd (999 / 10))" "99 \<le> frnd (999 / 10)"
  using f64_round_small [of "999 / 10"] frnd_ge_int [where k = 99 and x = "999 / 10"] by simp_all

lemma list_hdr_contract: "hdr_contract list_hdr (\<lambda>h. \<forall>v \<in> set h. v \<le> 3600000) (\<lambda>h. h)"
  unfolding hdr_contract_def
proof (intro conjI allI impI)
  fix h :: "int64 list" assume a: "(\<forall>v\<in>set h. v \<le> 3600000) \<and> h \<noteq> [] \<and> (\<forall>v\<in>set h. 0 < v)"
  then have h: "h \<noteq> []" and "sort h \<noteq> []" by (simp, metis set_empty set_sort)
  then have "hd (sort h) \<in> set h" "last (sort h) \<in> set h" by (metis hd_in_set set_sort, metis last_in_set set_sort)
  with a show "0 < hdr_Min list_hdr h" "hdr_Max list_hdr h \<le> 3603600"
    by (auto simp: list_hdr_def)
  show "\<exists>m. hdr_Mean list_hdr h = Fin m \<and> of_int (hdr_Min list_hdr h) \<le> m \<and> m \<le> of_int (hdr_Max list_hdr h)"
    using list_mean_bounds [OF h] by (simp add: list_hdr_def)
  have c: "f64_of_int 50 = Fin 50" "f64_of_int 95 = Fin 95" "f64_of_int 99 = Fin 99"
    using f64_of_int_small [of 50] f64_of_int_small [of 95] f64_of_int_small [of 99] by simp_all
  show "hdr_Min list_hdr h \<le> hdr_ValueAtQuantile list_hdr h (f64_of_int 50)"
    "hdr_ValueAtQuantile list_hdr h (f64_of_int 50) \<le> hdr_ValueAtQuantile list_hdr h (f64_of_int 95)"
    "hdr_ValueAtQuantile list_hdr h (f64_of_int 95) \<le> hdr_ValueAtQuantile list_hdr h (f64_of_int 99)"
    "hdr_ValueAtQuantile list_hdr h (f64_of_int 99) \<le> hdr_ValueAtQuantile list_hdr h (f64_round (999 / 10))"
    "hdr_ValueAtQuantile list_hdr h (f64_round (999 / 10)) \<le> hdr_Max list_hdr h"
    using list_quantile_bounds [OF h] list_quantile_mono [OF _ h] frnd_999(2)
    by (simp_all add: list_hdr_def c frnd_999(1) del: list_quantile.simps)
qed (auto simp: list_hdr_def)

section \<open>Properties\<close>


definition demo_events :: "mc_event list" where
  "demo_events = [EvRequest 1 True 5000000 200 '''', EvRequest 2 False 7000000 500 ''status 500'']"


theorem snapshot_rps_exact_witness:
  "rps_Current (ms_RPS (fst (GetSnapshot list_hdr [] 3 3 (the (mc_execs list_hdr demo_events
      (CollectorReset list_hdr 0 (NewMetricsCollector list_hdr second 0))))))) = f64_div (f64_of_int 2) (f64_of_int 1)"
proof -
  let ?mc = "CollectorReset list_hdr 0 (NewMetricsCollector list_hdr second 0)"
  have "mc_execs list_hdr demo_events ?mc \<noteq> None"
    by (simp add: demo_events_def RecordRequest_def Record_def CollectorReset_def SpanReset_def list_hdr_def
        NewMetricsCollector_def NewSpanAggregator_def to_ms_def millisecond_def go_div_def)
  then obtain mc' where e: "mc_execs list_hdr demo_events ?mc = Some mc'" by auto
  from snapshot_rps_exact [OF e, of 3 "[]" 3]
  show ?thesis unfolding e
    by (simp add: demo_events_def Let_def NewMetricsCollector_def second_def window_seconds_def go_div_def i64_id in64_def)
qed

lemma from_ms_small: "0 \<le> m \<Longrightarrow> m \<le> 3603600 \<Longrightarrow> from_ms m = m * 1000000"
  by (simp add: from_ms_def millisecond_def i64_id in64_def)

lemma to_ms_mult: "to_ms (m * 1000000) = m"
  using go_div_mult_cancel [of millisecond m] by (simp add: to_ms_def millisecond_def)

lemma f64_to_int64_between:
  assumes "of_int a \<le> m" and "m \<le> of_int b" and "0 \<le> a" and "b \<le> 3603600"
  shows "a \<le> f64_to_int64 (Fin m) \<and> f64_to_int64 (Fin m) \<le> b"
proof -
  have "a \<le> \<lfloor>m\<rfloor>" "\<lfloor>m\<rfloor> \<le> b" using assms(1,2) by (simp_all add: le_floor_iff floor_le_iff)
  moreover have "0 \<le> m" using assms(1,3) by (meson dual_order.trans of_int_0_le_iff)
  ultimately show ?thesis using assms(3,4) by (simp add: rat_trunc_def in64_def, linarith)
qed

lemma percentiles_of:
  assumes con: "hdr_contract lib ok vals" and h: "ok (sa_Histogram sa)"
    and "vals (sa_Histogram sa) \<noteq> []" and "\<forall>v \<in> set (vals (sa_Histogram sa)). 0 < v"
    and "0 < sa_Count sa"
  shows "lat_sane (GetPercentiles lib sa) \<and> percentiles_sane (GetPercentiles lib sa)
     \<and> (\<forall>f \<in> {lat_Min, lat_Max, lat_Mean, lat_P50, lat_P95, lat_P99, lat_P999}.
          from_ms (to_ms (f (GetPercentiles lib sa))) = f (GetPercentiles lib sa))
     \<and> lat_Count (GetPercentiles lib sa) = sa_Count sa"
proof -
  let ?h = "sa_Histogram sa"
  let ?q = "hdr_ValueAtQuantile lib ?h"
  from assms obtain m where m: "hdr_Mean lib ?h = Fin m" "of_int (hdr_Min lib ?h) \<le> m" "m \<le> of_int (hdr_Max lib ?h)"
    and p: "0 < hdr_Min lib ?h" "hdr_Max lib ?h \<le> 3603600" "hdr_Min lib ?h \<le> ?q (f64_of_int 50)"
      "?q (f64_of_int 50) \<le> ?q (f64_of_int 95)" "?q (f64_of_int 95) \<le> ?q (f64_of_int 99)"
      "?q (f64_of_int 99) \<le> ?q (f64_round (999 / 10))" "?q (f64_round (999 / 10)) \<le> hdr_Max lib ?h"
    unfolding hdr_contract_def by blast
  have mean: "hdr_Min lib ?h \<le> f64_to_int64 (Fin m)" "f64_to_int64 (Fin m) \<le> hdr_Max lib ?h"
    using f64_to_int64_between [OF m(2,3)] p by auto
  show ?thesis
    using p mean assms(5)
    by (simp add: GetPercentiles_def Let_def m(1) from_ms_small to_ms_mult lat_sane_def percentiles_sane_def
        del: f64_to_int64.simps)
qed

text \<open>Invariant. A worker's batch is one the fleet's rollup is sound for: taken at any moment of
  a test in which every request took at least a millisecond and at most an hour, the snapshot the
  aggregator builds from it has a positive minimum, a mean between minimum and maximum and ordered
  percentiles, counts each request once, and never has more errors than requests.\<close>

theorem worker_batch_sane:
  assumes con: "hdr_contract lib ok vals" and ok: "ok (sa_Histogram (mc_aggregator mc))"
    and run: "mc_execs lib es (CollectorReset lib start mc) = Some mc'"
    and "latencies es \<noteq> []" and "\<forall>v \<in> set (latencies es). 0 < v \<and> v \<le> 3600000"
    and "\<forall>e \<in> set es. \<forall>err. e \<noteq> EvError err" and "int (length es) < 2 ^ 63"
  shows "\<exists>s. batch_snapshot w (NewMetricBatch t w testID running (fst (GetSnapshot lib ord now now' mc'))) = Some s
     \<and> (let l = ms_Latency s in 0 < lat_Min l \<and> lat_Min l \<le> lat_Mean l \<and> lat_Mean l \<le> lat_Max l
          \<and> 0 \<le> lat_P50 l \<and> lat_P50 l \<le> lat_P95 l \<and> lat_P95 l \<le> lat_P99 l \<and> lat_P99 l \<le> lat_P999 l
          \<and> lat_Count l = int (length (latencies es)))
     \<and> ms_TotalRequests s = int (length (filter is_request es))
     \<and> 0 \<le> ms_TotalErrors s \<and> ms_TotalErrors s \<le> ms_TotalRequests s"
proof -
  have "in_range_events es" using assms(5) by (simp add: in_range_events_def)
  from histogram_execs [OF con histogram_reset [OF con ok, of start] this] run
  have h: "histogram_agrees ok vals es mc'" by auto
  from counters_execs [OF run counters_reset(1)] have c: "counters_agree es mc'" by simp
  let ?n = "length (filter is_request es)"
  have one: "length (latency_of e) \<le> (if is_request e then 1 else 0)" for e by (cases e) auto
  have len: "length (latencies es) \<le> ?n"
  proof (induction es)
    case (Cons e es)
    then show ?case using one [of e] by (auto split: if_splits)
  qed simp
  have "is_failure e \<Longrightarrow> is_request e" if "e \<in> set es" for e using assms(6) that by (cases e) auto
  then have fail: "length (filter is_failure es) \<le> ?n"
    by (induction es) auto
  have n: "int ?n < 2 ^ 63" using assms(7) length_filter_le [of is_request es] by linarith
  have wrap: "k \<le> ?n \<Longrightarrow> i64 (int k) = int k" for k using n by (intro i64_id) (simp add: in64_def)
  let ?sa = "mc_aggregator mc'"
  have sa: "sa_Count ?sa = int (length (latencies es))" "vals (sa_Histogram ?sa) = latencies es" "ok (sa_Histogram ?sa)"
    using h len by (simp_all add: histogram_agrees_def wrap)
  have tot: "mc_totalRequests mc' = int ?n" "mc_totalErrors mc' = int (length (filter is_failure es))"
    using c fail by (simp_all add: counters_agree_def wrap)
  have "0 < sa_Count ?sa" using assms(4) by (simp only: sa(1)) simp
  with percentiles_of [OF con sa(3)] assms(4,5) sa
  have P: "lat_sane (GetPercentiles lib ?sa)" "percentiles_sane (GetPercentiles lib ?sa)"
     "lat_Count (GetPercentiles lib ?sa) = int (length (latencies es))"
     "\<forall>f \<in> {lat_Min, lat_Max, lat_Mean, lat_P50, lat_P95, lat_P99, lat_P999}.
          from_ms (to_ms (f (GetPercentiles lib ?sa))) = f (GetPercentiles lib ?sa)" by auto
  have S: "ms_Latency (fst (GetSnapshot lib ord now now' mc')) = GetPercentiles lib ?sa"
    "ms_TotalRequests (fst (GetSnapshot lib ord now now' mc')) = int ?n"
    "ms_TotalErrors (fst (GetSnapshot lib ord now now' mc')) = int (length (filter is_failure es))"
    by (simp_all add: GetSnapshot_def Let_def tot)
  show ?thesis
    using P fail by (simp add: batch_snapshot_def NewMetricBatch_def S Let_def lat_sane_def percentiles_sane_def)
qed

theorem worker_batch_sane_witness:
  "\<exists>mc' s. mc_execs list_hdr demo_events (CollectorReset list_hdr 0 (NewMetricsCollector list_hdr second 0)) = Some mc'
     \<and> batch_snapshot ''w'' (NewMetricBatch 9 ''w'' ''t'' True (fst (GetSnapshot list_hdr [] 3 3 mc'))) = Some s
     \<and> ms_TotalRequests s = 2 \<and> 0 < lat_Min (ms_Latency s)"
proof -
  let ?mc = "NewMetricsCollector list_hdr second 0"
  have ok: "\<forall>v \<in> set (sa_Histogram (mc_aggregator ?mc)). v \<le> 3600000"
    by (simp add: NewMetricsCollector_def NewSpanAggregator_def list_hdr_def)
  have "mc_execs list_hdr demo_events (CollectorReset list_hdr 0 ?mc) \<noteq> None"
    by (simp add: demo_events_def RecordRequest_def Record_def CollectorReset_def SpanReset_def list_hdr_def
        NewMetricsCollector_def NewSpanAggregator_def to_ms_def millisecond_def go_div_def)
  then obtain mc' where e: "mc_execs list_hdr demo_events (CollectorReset list_hdr 0 ?mc) = Some mc'" by auto
  have "latencies demo_events \<noteq> []" "\<forall>v \<in> set (latencies demo_events). 0 < v \<and> v \<le> 3600000"
    "\<forall>e \<in> set demo_events. \<forall>err. e \<noteq> EvError err" "int (length demo_events) < 2 ^ 63"
    "length (filter is_request demo_events) = 2"
    by (simp_all add: demo_events_def to_ms_def millisecond_def go_div_def)
  with worker_batch_sane [OF list_hdr_contract ok e, of "''w''" 9 "''t''" True "[]" 3 3] e
  show ?thesis by (auto simp: Let_def)
qed

end
