(* ===== verification/Virtual_User.thy ===== *)
theory Virtual_User
  imports Worker_Metrics Go_Strings
begin

text \<open>
  A virtual user, \<open>internal/worker/virtual_user.go\<close> and the client it calls
  (\<open>internal/worker/http_client.go\<close>). \<open>check_assertion\<close>, \<open>build_request\<close> and \<open>executeRequest\<close> are the
  functions; the loop of \<open>Run\<close> is the step relation \<open>vu_step\<close>, one step per \<open>select\<close> or clock
  reading, with its goroutine's program counter. The network, the clock and the context are the
  environment: time passes by \<open>tick\<close>, the context is cancelled at any moment by \<open>cancelled\<close>
  (a stop) or when its deadline has passed. What a user records it records on the shared
  collector: its steps are labelled with the calls it makes (\<open>mc_event\<close>).
\<close>

section \<open>Assertions\<close>

fun assertion_type_string :: "assertion_type \<Rightarrow> string" where
  "assertion_type_string AssertionTypeUnset = ''''"
| "assertion_type_string AssertionTypeStatusCode = ''status_code''"
| "assertion_type_string AssertionTypeResponseTime = ''response_time''"
| "assertion_type_string AssertionTypeBodyContains = ''body_contains''"

definition checkAssertion :: "assertion \<Rightarrow> int \<Rightarrow> duration \<Rightarrow> string \<Rightarrow> bool" where
  "checkAssertion a statusCode d body =
     (case as_Type a of
        AssertionTypeStatusCode \<Rightarrow>
          (case as_Value a of AnyInt v \<Rightarrow> statusCode = v | AnyInt32 v \<Rightarrow> statusCode = v | _ \<Rightarrow> False)
      | AssertionTypeResponseTime \<Rightarrow> (case as_Threshold a of AnyDuration t \<Rightarrow> d \<le> t | _ \<Rightarrow> False)
      | AssertionTypeBodyContains \<Rightarrow> (case as_Value a of AnyString s \<Rightarrow> str_contains body s | _ \<Rightarrow> False)
      | AssertionTypeUnset \<Rightarrow> True)"

section \<open>Requests\<close>

text \<open>
  \<open>http.Header.Set\<close> stores under the canonical form of the key: a letter at the start and after
  each hyphen in upper case, the others in lower case; a key with a byte that no header name may
  have is left as it is.
\<close>

definition token_char :: "char \<Rightarrow> bool" where
  "token_char c \<longleftrightarrow> is_digit c \<or> 97 \<le> byte (lower_char c) \<and> byte (lower_char c) \<le> 122 \<or> c \<in> set ''!#$%&*+-.^_`|~'' \<or> c = CHR 0x27"

fun canonical_chars :: "bool \<Rightarrow> string \<Rightarrow> string" where
  "canonical_chars upper [] = []"
| "canonical_chars upper (c # cs) =
     (if upper then upper_char c else lower_char c) # canonical_chars (c = CHR ''-'') cs"

definition canonical_key :: "string \<Rightarrow> string" where
  "canonical_key k = (if list_all token_char k then canonical_chars True k else k)"

fun set_headers :: "(string \<times> string) list \<Rightarrow> (string, string) gomap \<Rightarrow> (string, string) gomap" where
  "set_headers [] h = h"
| "set_headers ((k, v) # es) h = set_headers es (AList.update (canonical_key k) v h)"

record http_request =
  hr_Method :: string
  hr_URL :: string
  hr_Header :: "(string, string) gomap"
  hr_Body :: "string option"
  hr_ContentLength :: int64

text \<open>\<open>o1\<close> and \<open>o2\<close> are the orders in which the two header maps are iterated.\<close>

definition build_request :: "string list \<Rightarrow> string list \<Rightarrow> http_config \<Rightarrow> request \<Rightarrow> http_request" where
  "build_request o1 o2 scenario req =
     \<lparr>hr_Method = rq_Method req, hr_URL = hc_BaseURL scenario @ rq_Path req,
      hr_Header = set_headers (range_entries o2 (rq_Headers req)) (set_headers (range_entries o1 (hc_Headers scenario)) []),
      hr_Body = (if 0 < length (rq_Body req) then Some (rq_Body req) else None),
      hr_ContentLength = (if 0 < length (rq_Body req) then int (length (rq_Body req)) else 0)\<rparr>"

text \<open>
  What a request can meet: \<open>NewRequest\<close> refuses it, the client returns an error, or there is a
  response, with the bytes of its body that could be read.
\<close>

datatype http_outcome = BuildError string | TransportError string | Response int string

fun assertion_loop :: "assertion list \<Rightarrow> int \<Rightarrow> duration \<Rightarrow> string \<Rightarrow> bool \<times> string \<Rightarrow> bool \<times> string" where
  "assertion_loop [] code d body r = r"
| "assertion_loop (a # as) code d body r =
     assertion_loop as code d body
       (if checkAssertion a code d body then r
        else (False, ''assertion '' @ assertion_type_string (as_Type a) @ '' failed''))"

text \<open>
  \<open>executeRequest\<close>: the error it returns and the calls on the collector. \<open>d\<close> is the measured
  duration, \<open>now\<close> the time at which it records.
\<close>

fun executeRequest :: "request \<Rightarrow> duration \<Rightarrow> go_time \<Rightarrow> http_outcome \<Rightarrow> string option \<times> mc_event list" where
  "executeRequest req d now (BuildError e) = (Some (''failed to create request: '' @ e), [])"
| "executeRequest req d now (TransportError e) = (Some e, [EvRequest now False d 0 e])"
| "executeRequest req d now (Response code body) =
     (let r = assertion_loop (rq_Assertions req) code d body (200 \<le> code \<and> code < 300, '''');
          msg = (if \<not> fst r \<and> snd r \<noteq> '''' then snd r
                 else if \<not> fst r then ''status '' @ int_string code else '''')
      in (None, [EvRequest now (fst r) d code msg]))"

text \<open>The body of the loop over the requests: an error is recorded once more.\<close>

definition perform_request :: "request \<Rightarrow> duration \<Rightarrow> go_time \<Rightarrow> http_outcome \<Rightarrow> mc_event list" where
  "perform_request req d now out =
     (case executeRequest req d now out of
        (None, evs) \<Rightarrow> evs
      | (Some e, evs) \<Rightarrow> evs @ [EvRequest now False 0 0 e])"

section \<open>Run\<close>

record vu_config =
  vc_scenario :: http_config
  vc_duration :: duration
  vc_rampUp :: duration
  vc_begin :: go_time
  vc_ctxDeadline :: go_time

abbreviation requests :: "vu_config \<Rightarrow> request list" where
  "requests c \<equiv> hc_Requests (vc_scenario c)"

datatype vu_pc = Ramping | LoopTop | AtRequest nat | InFlight nat go_time | Thinking nat go_time | Pacing | Returned "string option"

text \<open>
  \<open>vs_ctx\<close> is \<open>ctx.Err()\<close>; \<open>vs_loop\<close> is the time the ticker was made, \<open>vs_ticks\<close> the index of the
  last tick taken from it.
\<close>

record vu_state =
  vs_pc :: vu_pc
  vs_now :: go_time
  vs_ctx :: "string option"
  vs_loop :: go_time
  vs_ticks :: int

definition tick_interval :: duration where
  "tick_interval = 100 * millisecond"

definition deadline :: "vu_config \<Rightarrow> vu_state \<Rightarrow> go_time" where
  "deadline c s = vs_loop s + vc_duration c"

definition ctx_at :: "vu_config \<Rightarrow> go_time \<Rightarrow> string option \<Rightarrow> string option" where
  "ctx_at c t err = (if err = None \<and> vc_ctxDeadline c \<le> t then Some ''context deadline exceeded'' else err)"

definition vu_start :: "vu_config \<Rightarrow> vu_state" where
  "vu_start c = \<lparr>vs_pc = (if 0 < vc_rampUp c then Ramping else LoopTop), vs_now = vc_begin c,
     vs_ctx = ctx_at c (vc_begin c) None, vs_loop = vc_begin c, vs_ticks = 0\<rparr>"

text \<open>The labels: the start of the attempt at a request, and the calls on the collector.\<close>

datatype vu_label = Tau | Attempt nat | Recorded "mc_event list"

text \<open>After a request: its think time, or the next one.\<close>

definition after_request :: "vu_config \<Rightarrow> nat \<Rightarrow> go_time \<Rightarrow> vu_pc" where
  "after_request c i now = (if 0 < rq_ThinkTime (requests c ! i) then Thinking i now else AtRequest (Suc i))"

inductive vu_step :: "vu_config \<Rightarrow> vu_state \<Rightarrow> vu_label \<Rightarrow> vu_state \<Rightarrow> bool" for c where
  tick: "vs_now s \<le> t \<Longrightarrow> vu_step c s Tau (s\<lparr>vs_now := t, vs_ctx := ctx_at c t (vs_ctx s)\<rparr>)"
| cancelled: "vs_ctx s = None \<Longrightarrow> vu_step c s Tau (s\<lparr>vs_ctx := Some ''context canceled''\<rparr>)"
| ramp_abort: "vs_pc s = Ramping \<Longrightarrow> vs_ctx s = Some e \<Longrightarrow> vu_step c s Tau (s\<lparr>vs_pc := Returned (Some e)\<rparr>)"
| ramp_done: "vs_pc s = Ramping \<Longrightarrow> vc_begin c + vc_rampUp c \<le> vs_now s \<Longrightarrow>
    vu_step c s Tau (s\<lparr>vs_pc := LoopTop, vs_loop := vs_now s, vs_ticks := 0\<rparr>)"
| top_abort: "vs_pc s = LoopTop \<Longrightarrow> vs_ctx s = Some e \<Longrightarrow> vu_step c s Tau (s\<lparr>vs_pc := Returned (Some e)\<rparr>)"
| top_over: "vs_pc s = LoopTop \<Longrightarrow> vs_ctx s = None \<Longrightarrow> deadline c s < vs_now s \<Longrightarrow>
    vu_step c s Tau (s\<lparr>vs_pc := Returned None\<rparr>)"
| top_pass: "vs_pc s = LoopTop \<Longrightarrow> vs_ctx s = None \<Longrightarrow> vs_now s \<le> deadline c s \<Longrightarrow>
    vu_step c s Tau (s\<lparr>vs_pc := AtRequest 0\<rparr>)"
| attempt: "vs_pc s = AtRequest i \<Longrightarrow> i < length (requests c) \<Longrightarrow>
    vu_step c s (Attempt i) (s\<lparr>vs_pc := InFlight i (vs_now s)\<rparr>)"
| finished: "vs_pc s = InFlight i t \<Longrightarrow>
    vu_step c s (Recorded (perform_request (requests c ! i) (vs_now s - t) (vs_now s) out))
      (s\<lparr>vs_pc := after_request c i (vs_now s)\<rparr>)"
| think_abort: "vs_pc s = Thinking i t \<Longrightarrow> vs_ctx s = Some e \<Longrightarrow> vu_step c s Tau (s\<lparr>vs_pc := Returned (Some e)\<rparr>)"
| think_done: "vs_pc s = Thinking i t \<Longrightarrow> t + rq_ThinkTime (requests c ! i) \<le> vs_now s \<Longrightarrow>
    vu_step c s Tau (s\<lparr>vs_pc := AtRequest (Suc i)\<rparr>)"
| pass_end: "vs_pc s = AtRequest i \<Longrightarrow> \<not> i < length (requests c) \<Longrightarrow> vu_step c s Tau (s\<lparr>vs_pc := Pacing\<rparr>)"
| pace_abort: "vs_pc s = Pacing \<Longrightarrow> vs_ctx s = Some e \<Longrightarrow> vu_step c s Tau (s\<lparr>vs_pc := Returned (Some e)\<rparr>)"
| pace: "vs_pc s = Pacing \<Longrightarrow> vs_loop s + (vs_ticks s + 1) * tick_interval \<le> vs_now s \<Longrightarrow>
    vu_step c s Tau (s\<lparr>vs_pc := LoopTop, vs_ticks := (vs_now s - vs_loop s) div tick_interval\<rparr>)"

inductive vu_run :: "vu_config \<Rightarrow> vu_state \<Rightarrow> vu_label list \<Rightarrow> vu_state \<Rightarrow> bool" for c where
  stop: "vu_run c s [] s"
| step: "vu_run c s ls s' \<Longrightarrow> vu_step c s' l s'' \<Longrightarrow> vu_run c s (ls @ [l]) s''"

inductive_cases vu_runE: "vu_run c s ls s'"

fun attempt_of :: "vu_label \<Rightarrow> nat list" where
  "attempt_of (Attempt i) = [i]"
| "attempt_of _ = []"

fun recorded_of :: "vu_label \<Rightarrow> mc_event list" where
  "recorded_of (Recorded es) = es"
| "recorded_of _ = []"

abbreviation attempts :: "vu_label list \<Rightarrow> nat list" where
  "attempts ls \<equiv> concat (map attempt_of ls)"

abbreviation records :: "vu_label list \<Rightarrow> mc_event list" where
  "records ls \<equiv> concat (map recorded_of ls)"

section \<open>The order and the number of requests\<close>

text \<open>How far the current pass over the requests is, and that its index is at most \<open>vs_ticks\<close>.\<close>

fun position :: "nat \<Rightarrow> vu_pc \<Rightarrow> nat" where
  "position n (AtRequest i) = i"
| "position n (InFlight i t) = Suc i"
| "position n (Thinking i t) = Suc i"
| "position n Pacing = n"
| "position n _ = 0"

fun in_pass :: "vu_pc \<Rightarrow> bool" where
  "in_pass (AtRequest i) = True"
| "in_pass (InFlight i t) = True"
| "in_pass (Thinking i t) = True"
| "in_pass Pacing = True"
| "in_pass _ = False"

abbreviation max_pass :: "vu_config \<Rightarrow> int" where
  "max_pass c \<equiv> vc_duration c div tick_interval"

definition pass_inv :: "vu_config \<Rightarrow> nat list \<Rightarrow> vu_state \<Rightarrow> bool" where
  "pass_inv c a s \<longleftrightarrow>
     (let n = length (requests c) in
       a = map (\<lambda>j. j mod n) [0..<length a]
     \<and> position n (vs_pc s) \<le> n
     \<and> 0 \<le> vs_ticks s \<and> vs_loop s + vs_ticks s * tick_interval \<le> vs_now s
     \<and> (in_pass (vs_pc s) \<longrightarrow> vs_ticks s \<le> max_pass c)
     \<and> (case vs_pc s of
          Ramping \<Rightarrow> a = [] \<and> vs_ticks s = 0
        | Returned _ \<Rightarrow> int (length a) \<le> (max 0 (max_pass c + 1)) * int n
        | pc \<Rightarrow> (\<exists>k. length a = k * n + position n pc \<and> int k \<le> vs_ticks s
            \<and> int k \<le> (if in_pass pc then max_pass c else max 0 (max_pass c + 1)))))"

lemma tick_pos: "0 < tick_interval"
  by (simp add: tick_interval_def millisecond_def)

lemma cyc_snoc: "a = map (\<lambda>j. j mod n) [0..<length a] \<Longrightarrow> length a = k * n + i \<Longrightarrow> i < n \<Longrightarrow>
    a @ [i] = map (\<lambda>j. j mod n) [0..<length (a @ [i])]"
  by simp

lemma pass_bound: "int k \<le> M \<Longrightarrow> p \<le> n \<Longrightarrow> int (k * n + p) \<le> (M + 1) * int n"
proof -
  assume "int k \<le> M" and "p \<le> n"
  then have "int k * int n \<le> M * int n" and "int p \<le> int n" by (simp_all add: mult_right_mono)
  then show ?thesis by (simp add: algebra_simps)
qed

lemma returned_bound: "int k \<le> M \<Longrightarrow> p \<le> n \<Longrightarrow> int (k * n + p) \<le> max 0 (M + 1) * int n"
  using pass_bound [of k M p n] by (simp add: max_def)

lemma pass_inv_abort:
  assumes "pass_inv c a s" and "in_pass (vs_pc s)"
  shows "pass_inv c a (s\<lparr>vs_pc := Returned r\<rparr>)"
proof -
  from assms obtain k where "length a = k * length (requests c) + position (length (requests c)) (vs_pc s)"
    "int k \<le> max_pass c" "position (length (requests c)) (vs_pc s) \<le> length (requests c)"
    by (cases "vs_pc s") (auto simp: pass_inv_def Let_def)
  then have "int (length a) \<le> max 0 (max_pass c + 1) * int (length (requests c))"
    using returned_bound by simp
  then show ?thesis using assms by (simp add: pass_inv_def Let_def)
qed

lemma pass_inv_start: "pass_inv c [] (vu_start c)"
  by (auto simp: pass_inv_def vu_start_def Let_def intro: exI [of _ 0])

lemma pass_inv_step:
  assumes "vu_step c s l s'" and "pass_inv c a s"
  shows "pass_inv c (a @ attempt_of l) s'"
  using assms
proof (cases rule: vu_step.cases)
  case (tick t)
  then show ?thesis using assms(2) by (auto simp: pass_inv_def Let_def split: vu_pc.splits)
next
  case cancelled
  then show ?thesis using assms(2) by (auto simp: pass_inv_def Let_def split: vu_pc.splits)
next
  case (ramp_abort e)
  then show ?thesis using assms(2) by (auto simp: pass_inv_def Let_def)
next
  case ramp_done
  then show ?thesis using assms(2) by (auto simp: pass_inv_def Let_def)
next
  case (top_abort e)
  then show ?thesis using assms(2) by (auto simp: pass_inv_def Let_def intro!: mult_right_mono)
next
  case top_over
  then show ?thesis using assms(2) by (auto simp: pass_inv_def Let_def intro!: mult_right_mono)
next
  case top_pass
  then have "vs_ticks s * tick_interval \<le> vc_duration c"
    using assms(2) by (auto simp: pass_inv_def Let_def deadline_def)
  then have "vs_ticks s \<le> max_pass c" using tick_pos by (metis zdiv_mono1 nonzero_mult_div_cancel_right less_irrefl)
  then show ?thesis using top_pass assms(2) by (auto simp: pass_inv_def Let_def)
next
  case (attempt i)
  then show ?thesis using assms(2) cyc_snoc by (auto simp: pass_inv_def Let_def)
next
  case (finished i t out)
  then show ?thesis using assms(2) by (auto simp: pass_inv_def Let_def after_request_def)
next
  case (think_abort i t e)
  then show ?thesis using pass_inv_abort [OF assms(2), of "Some e"] by simp
next
  case (think_done i t)
  then show ?thesis using assms(2) by (auto simp: pass_inv_def Let_def)
next
  case (pass_end i)
  then show ?thesis using assms(2) by (auto simp: pass_inv_def Let_def)
next
  case (pace_abort e)
  then show ?thesis using pass_inv_abort [OF assms(2), of "Some e"] by simp
next
  case pace
  from assms(2) pace obtain k where a: "a = map (\<lambda>j. j mod length (requests c)) [0..<length a]"
    and k: "length a = k * length (requests c) + length (requests c)" "int k \<le> vs_ticks s" "int k \<le> max_pass c" and t: "0 \<le> vs_ticks s"
    by (auto simp: pass_inv_def Let_def)
  have "vs_ticks s + 1 \<le> (vs_now s - vs_loop s) div tick_interval"
    using pace(4) tick_pos zdiv_mono1 [of "(vs_ticks s + 1) * tick_interval" "vs_now s - vs_loop s" tick_interval]
    by (simp only: nonzero_mult_div_cancel_right)
  moreover have "(vs_now s - vs_loop s) div tick_interval * tick_interval \<le> vs_now s - vs_loop s"
    using tick_pos by (simp add: minus_mod_eq_div_mult [symmetric])
  ultimately show ?thesis using pace(1-3) a k t
    by (auto simp: pass_inv_def Let_def intro!: exI [of _ "Suc k"])
qed

lemma pass_inv_run: "vu_run c s0 ls s \<Longrightarrow> pass_inv c [] s0 \<Longrightarrow> pass_inv c (attempts ls) s"
proof (induction rule: vu_run.induct)
  case (step s0 ls s l s')
  then show ?case using pass_inv_step [OF step(2)] by simp
qed simp

lemma pass_inv_bound:
  assumes inv: "pass_inv c a s" and M: "0 \<le> max_pass c"
  shows "int (length a) \<le> (max_pass c + 1) * int (length (requests c))"
proof (cases "in_pass (vs_pc s)")
  let ?n = "length (requests c)"
  case True
  with inv obtain k where "length a = k * ?n + position ?n (vs_pc s)" "int k \<le> max_pass c" "position ?n (vs_pc s) \<le> ?n"
    by (cases "vs_pc s") (auto simp: pass_inv_def Let_def)
  with pass_bound show ?thesis by metis
next
  let ?n = "length (requests c)"
  case False
  have "int (length a) \<le> max 0 (max_pass c + 1) * int ?n"
  proof (cases "vs_pc s")
    case LoopTop
    then obtain k where "length a = k * ?n" "int k \<le> max 0 (max_pass c + 1)"
      using inv by (auto simp: pass_inv_def Let_def)
    then show ?thesis by (simp add: mult_right_mono)
  qed (use inv False in \<open>auto simp: pass_inv_def Let_def\<close>)
  with M show ?thesis by simp
qed

text \<open>C32: bounds. A virtual user works through its scenario in order, pass after pass: the attempts of
  any run are the first ones of the endless repetition of the requests, and, however fast the
  server answers, there are never more of them than one pass per tenth of a second of the stage
  and one.\<close>

theorem vu_attempts_in_order:
  assumes "vu_run c (vu_start c) ls s" and "0 \<le> vc_duration c"
  shows "attempts ls = map (\<lambda>j. j mod length (requests c)) [0..<length (attempts ls)]
     \<and> int (length (attempts ls)) \<le> (vc_duration c div tick_interval + 1) * int (length (requests c))"
proof -
  from pass_inv_run [OF assms(1) pass_inv_start] have inv: "pass_inv c (attempts ls) s" .
  have "0 \<le> max_pass c" using assms(2) tick_pos by (simp add: pos_imp_zdiv_nonneg_iff)
  from pass_inv_bound [OF inv this] inv show ?thesis by (simp only: pass_inv_def Let_def)
qed

section \<open>Stopping\<close>

text \<open>What is left of the pass a user is in.\<close>

fun remaining :: "nat \<Rightarrow> vu_pc \<Rightarrow> nat" where
  "remaining n (AtRequest i) = n - i"
| "remaining n (InFlight i t) = n - Suc i"
| "remaining n (Thinking i t) = n - Suc i"
| "remaining n _ = 0"

lemma remaining_step:
  assumes "vu_step c s l s'" and "vs_ctx s \<noteq> None"
  shows "vs_ctx s' \<noteq> None
     \<and> length (attempt_of l) + remaining (length (requests c)) (vs_pc s') \<le> remaining (length (requests c)) (vs_pc s)"
  using assms by (cases rule: vu_step.cases) (auto simp: ctx_at_def after_request_def)

lemma remaining_run:
  "vu_run c s ls s' \<Longrightarrow> vs_ctx s \<noteq> None \<Longrightarrow>
   vs_ctx s' \<noteq> None \<and> length (attempts ls) + remaining (length (requests c)) (vs_pc s') \<le> remaining (length (requests c)) (vs_pc s)"
proof (induction rule: vu_run.induct)
  case (step s ls s' l s'')
  then show ?case using remaining_step [OF step(2)] by fastforce
qed simp

text \<open>Safety. Once its context is done (a stop, or the end of the stage) a virtual user starts
  no further pass: it attempts at most the requests left of the pass it is in, and none when it is
  ramping up, thinking after the last request or between two passes.\<close>

theorem vu_stops_within_pass:
  assumes "vu_run c s ls s'" and "vs_ctx s \<noteq> None"
  shows "length (attempts ls) \<le> remaining (length (requests c)) (vs_pc s)"
  using remaining_run [OF assms] by simp

text \<open>A run of two requests without think time that is cancelled at the first one.\<close>

definition demo_request :: request where
  "demo_request = \<lparr>rq_Method = ''GET'', rq_Path = ''/'', rq_Headers = [], rq_Body = '''', rq_Assertions = [], rq_ThinkTime = 0\<rparr>"

definition demo_vu :: vu_config where
  "demo_vu = \<lparr>vc_scenario = \<lparr>hc_BaseURL = ''http://h'', hc_Requests = [demo_request, demo_request], hc_Headers = [], hc_Timeout = 0\<rparr>,
     vc_duration = second, vc_rampUp = 0, vc_begin = 0, vc_ctxDeadline = second\<rparr>"

definition demo_at :: "vu_pc \<Rightarrow> string option \<Rightarrow> vu_state" where
  "demo_at pc ctx = \<lparr>vs_pc = pc, vs_now = 0, vs_ctx = ctx, vs_loop = 0, vs_ticks = 0\<rparr>"

lemma demo_vu_start: "vu_start demo_vu = demo_at LoopTop None"
  by (simp add: vu_start_def demo_vu_def demo_at_def ctx_at_def second_def)

lemma demo_vu_attempt: "i < 2 \<Longrightarrow> vu_step demo_vu (demo_at (AtRequest i) ctx) (Attempt i) (demo_at (InFlight i 0) ctx)"
  using vu_step.attempt [of "demo_at (AtRequest i) ctx" i demo_vu] by (simp add: demo_at_def demo_vu_def)

theorem vu_attempts_in_order_witness:
  "\<exists>ls s. vu_run demo_vu (vu_start demo_vu) ls s \<and> attempts ls = [0] \<and> int (length (attempts ls)) \<le> 22"
proof -
  have "vu_step demo_vu (demo_at LoopTop None) Tau (demo_at (AtRequest 0) None)"
    using vu_step.top_pass [of "demo_at LoopTop None" demo_vu] by (simp add: demo_at_def deadline_def demo_vu_def second_def)
  then have r: "vu_run demo_vu (vu_start demo_vu) [Tau, Attempt 0] (demo_at (InFlight 0 0) None)"
    using vu_run.step [OF vu_run.step [OF vu_run.stop]] demo_vu_attempt [of 0 None] unfolding demo_vu_start by fastforce
  from vu_attempts_in_order [OF r] have "int (length (attempts [Tau, Attempt 0])) \<le> 22"
    by (simp add: demo_vu_def second_def tick_interval_def millisecond_def)
  with r show ?thesis by (intro exI [of _ "[Tau, Attempt 0]"]) auto
qed

theorem vu_stops_within_pass_witness:
  "\<exists>s'. vu_run demo_vu (demo_at (AtRequest 1) (Some ''context canceled'')) [Attempt 1] s' \<and> length (attempts [Attempt 1]) \<le> 1"
proof -
  have r: "vu_run demo_vu (demo_at (AtRequest 1) (Some ''context canceled'')) [Attempt 1] (demo_at (InFlight 1 0) (Some ''context canceled''))"
    using vu_run.step [OF vu_run.stop demo_vu_attempt [of 1]] by simp
  from vu_stops_within_pass [OF r] r show ?thesis by (auto simp: demo_at_def demo_vu_def)
qed

lemma ramp_step:
  assumes "vu_step c s l s'" and "vc_ctxDeadline c \<le> vc_begin c + vc_rampUp c"
    and "vs_pc s = Ramping \<or> vs_pc s = LoopTop \<and> vs_ctx s \<noteq> None \<or> (\<exists>r. vs_pc s = Returned r)"
    and "vc_ctxDeadline c \<le> vs_now s \<longrightarrow> vs_ctx s \<noteq> None"
  shows "(vs_pc s' = Ramping \<or> vs_pc s' = LoopTop \<and> vs_ctx s' \<noteq> None \<or> (\<exists>r. vs_pc s' = Returned r))
     \<and> (vc_ctxDeadline c \<le> vs_now s' \<longrightarrow> vs_ctx s' \<noteq> None) \<and> attempt_of l = [] \<and> recorded_of l = []"
  using assms by (cases rule: vu_step.cases) (auto simp: ctx_at_def)

text \<open>Functional. The ramp up is waited for inside the stage's own time: when it is at least as
  long as the stage, no virtual user sends any request in it.\<close>

theorem long_ramp_sends_nothing:
  assumes "vu_run c (vu_start c) ls s" and "0 < vc_rampUp c" and "vc_ctxDeadline c \<le> vc_begin c + vc_rampUp c"
  shows "attempts ls = [] \<and> records ls = []"
proof -
  have "(vs_pc s = Ramping \<or> vs_pc s = LoopTop \<and> vs_ctx s \<noteq> None \<or> (\<exists>r. vs_pc s = Returned r))
     \<and> (vc_ctxDeadline c \<le> vs_now s \<longrightarrow> vs_ctx s \<noteq> None) \<and> attempts ls = [] \<and> records ls = []"
    using assms(1)
  proof (induction "vu_start c" ls s rule: vu_run.induct)
    case stop
    then show ?case using assms(2) by (simp add: vu_start_def ctx_at_def)
  next
    case (step ls s l s')
    then show ?case using ramp_step [OF step(3) assms(3)] by simp
  qed
  then show ?thesis by simp
qed

definition demo_ramp :: vu_config where
  "demo_ramp = demo_vu\<lparr>vc_rampUp := second\<rparr>"

theorem long_ramp_sends_nothing_witness:
  "\<exists>ls s. vu_run demo_ramp (vu_start demo_ramp) ls s \<and> vs_pc s = LoopTop \<and> attempts ls = []"
proof -
  let ?s0 = "\<lparr>vs_pc = Ramping, vs_now = 0, vs_ctx = None, vs_loop = 0, vs_ticks = 0\<rparr>"
  let ?s1 = "\<lparr>vs_pc = Ramping, vs_now = second, vs_ctx = Some ''context deadline exceeded'', vs_loop = 0, vs_ticks = 0\<rparr>"
  let ?s2 = "\<lparr>vs_pc = LoopTop, vs_now = second, vs_ctx = Some ''context deadline exceeded'', vs_loop = second, vs_ticks = 0\<rparr>"
  have s0: "vu_start demo_ramp = ?s0"
    by (simp add: vu_start_def demo_ramp_def demo_vu_def ctx_at_def second_def)
  have "vu_step demo_ramp ?s0 Tau ?s1"
    using vu_step.tick [of ?s0 second demo_ramp] by (simp add: ctx_at_def demo_ramp_def demo_vu_def second_def)
  moreover have "vu_step demo_ramp ?s1 Tau ?s2"
    using vu_step.ramp_done [of ?s1 demo_ramp] by (simp add: demo_ramp_def demo_vu_def)
  ultimately have r: "vu_run demo_ramp (vu_start demo_ramp) [Tau, Tau] ?s2"
    using vu_run.step [OF vu_run.step [OF vu_run.stop]] unfolding s0 by fastforce
  from long_ramp_sends_nothing [OF r] r show ?thesis
    by (intro exI [of _ "[Tau, Tau]"] exI [of _ ?s2]) (auto simp: demo_ramp_def demo_vu_def second_def)
qed

section \<open>What a request records\<close>

lemma assertion_loop_result:
  "assertion_loop as code d body r =
     (case rev (filter (\<lambda>a. \<not> checkAssertion a code d body) as) of
        [] \<Rightarrow> r
      | a # _ \<Rightarrow> (False, ''assertion '' @ assertion_type_string (as_Type a) @ '' failed''))"
  by (induction as arbitrary: r) (auto split: list.splits)

text \<open>Functional. A response is recorded exactly once, with its status and latency; it counts as
  a success exactly when the status is in the 200s and every assertion of the request holds, and a
  failure carries the last assertion that failed or else the status.\<close>

theorem response_recorded:
  "\<exists>ok msg. perform_request req d now (Response code body) = [EvRequest now ok d code msg]
     \<and> (ok \<longleftrightarrow> 200 \<le> code \<and> code < 300 \<and> (\<forall>a \<in> set (rq_Assertions req). checkAssertion a code d body))
     \<and> msg = (case rev (filter (\<lambda>a. \<not> checkAssertion a code d body) (rq_Assertions req)) of
          a # _ \<Rightarrow> ''assertion '' @ assertion_type_string (as_Type a) @ '' failed''
        | [] \<Rightarrow> if 200 \<le> code \<and> code < 300 then '''' else ''status '' @ int_string code)"
proof (cases "rev (filter (\<lambda>a. \<not> checkAssertion a code d body) (rq_Assertions req))")
  case Nil
  then have "\<forall>a \<in> set (rq_Assertions req). checkAssertion a code d body"
    by (simp add: filter_empty_conv)
  with Nil show ?thesis by (auto simp: perform_request_def assertion_loop_result Let_def)
next
  case (Cons a as)
  then have "a \<in> set (filter (\<lambda>a. \<not> checkAssertion a code d body) (rq_Assertions req))"
    by (metis list.set_intros(1) set_rev)
  then have "\<not> (\<forall>a \<in> set (rq_Assertions req). checkAssertion a code d body)" by auto
  with Cons show ?thesis by (simp add: perform_request_def assertion_loop_result Let_def)
qed

theorem response_recorded_witness:
  "\<exists>ok msg. perform_request (demo_request\<lparr>rq_Assertions := [\<lparr>as_Type = AssertionTypeStatusCode, as_Value = AnyInt 201, as_Threshold = AnyNil\<rparr>]\<rparr>)
     5000000 9 (Response 200 '''') = [EvRequest 9 ok 5000000 200 msg] \<and> \<not> ok \<and> msg = ''assertion status_code failed''"
  using response_recorded [of "demo_request\<lparr>rq_Assertions := [\<lparr>as_Type = AssertionTypeStatusCode, as_Value = AnyInt 201, as_Threshold = AnyNil\<rparr>]\<rparr>"
    5000000 9 200 "''''"]
  by (simp add: checkAssertion_def)

text \<open>Functional. A request that fails in transport is counted twice: \<open>executeRequest\<close> records the
  failure and \<open>Run\<close> records the error it returns again, so one request the server never answered
  adds two requests and two errors to the worker's totals.\<close>

theorem transport_error_counted_twice:
  assumes "hdr_contract lib ok vals" and "ok (sa_Histogram (mc_aggregator mc))" and "to_ms d \<le> 3600000"
  shows "\<exists>mc'. mc_execs lib (perform_request req d now (TransportError e)) mc = Some mc'
     \<and> mc_totalRequests mc' = i64 (i64 (mc_totalRequests mc + 1) + 1)
     \<and> mc_totalErrors mc' = i64 (i64 (mc_totalErrors mc + 1) + 1)
     \<and> get0 0 (mc_statusCodes mc') 0 = i64 (i64 (get0 0 (mc_statusCodes mc) 0 + 1) + 1)"
proof -
  have "\<exists>mc1. RecordRequest lib now False d 0 e mc = Some mc1"
    using hdr_record [OF assms(1,2), of "to_ms d"] assms(3) to_ms_nonneg [of d]
    by (auto simp: RecordRequest_def Record_def split: option.splits)
  then obtain mc1 where one: "RecordRequest lib now False d 0 e mc = Some mc1" ..
  have "mc_totalRequests mc1 = i64 (mc_totalRequests mc + 1)" "mc_totalErrors mc1 = i64 (mc_totalErrors mc + 1)"
    "get0 0 (mc_statusCodes mc1) 0 = i64 (get0 0 (mc_statusCodes mc) 0 + 1)"
    using one by (auto simp: RecordRequest_def get0_put split: option.splits)
  with one show ?thesis
    by (simp add: perform_request_def) (simp add: RecordRequest_def get0_put)
qed

theorem transport_error_counted_twice_witness:
  "\<exists>mc'. mc_execs list_hdr (perform_request demo_request 5000000 9 (TransportError ''refused'')) (NewMetricsCollector list_hdr second 0) = Some mc'
     \<and> mc_totalRequests mc' = 2 \<and> mc_totalErrors mc' = 2"
proof -
  let ?mc = "NewMetricsCollector list_hdr second 0"
  have "\<forall>v \<in> set (sa_Histogram (mc_aggregator ?mc)). v \<le> 3600000"
    by (simp add: NewMetricsCollector_def NewSpanAggregator_def list_hdr_def)
  moreover have "to_ms 5000000 \<le> 3600000" by (simp add: to_ms_def millisecond_def go_div_def)
  ultimately show ?thesis
    using transport_error_counted_twice [OF list_hdr_contract, of ?mc 5000000 demo_request 9 "''refused''"]
    by (auto simp: NewMetricsCollector_def i64_id in64_def)
qed

lemma set_headers_lookup:
  "map_of (set_headers es h) k =
     (case filter (\<lambda>e. canonical_key (fst e) = k) (rev es) of [] \<Rightarrow> map_of h k | e # _ \<Rightarrow> Some (snd e))"
proof (induction es arbitrary: h)
  case (Cons e es)
  obtain n v where [simp]: "e = (n, v)" by (cases e)
  show ?case using Cons.IH [of "AList.update (canonical_key n) v h"]
    by (auto simp: map_of_put split: list.splits)
qed simp

text \<open>A header of the request is sent with the request's value, whatever the plan's
  own headers say and in whatever order Go iterates the two maps, as long as no other key of the
  request has the same canonical form.\<close>

theorem request_header_wins:
  assumes "gomap_ok (rq_Headers req)" and "range_order o2 (rq_Headers req)" and "(k, v) \<in> set (rq_Headers req)"
    and "\<forall>e \<in> set (rq_Headers req). canonical_key (fst e) = canonical_key k \<longrightarrow> fst e = k"
  shows "map_of (hr_Header (build_request o1 o2 scenario req)) (canonical_key k) = Some v"
proof -
  let ?es = "range_entries o2 (rq_Headers req)"
  let ?f = "filter (\<lambda>e. canonical_key (fst e) = canonical_key k) (rev ?es)"
  have mem: "set ?es = set (rq_Headers req)" using assms(1,2) by (intro set_range_entries)
  then have "(k, v) \<in> set ?f" using assms(3) by simp
  moreover have "e = (k, v)" if "e \<in> set ?f" for e
  proof -
    from that have e: "e \<in> set (rq_Headers req)" "canonical_key (fst e) = canonical_key k" using mem by auto
    with assms(4) have "fst e = k" by blast
    with gomap_ok_mem [OF assms(1)] e(1) assms(3) show ?thesis by (metis option.inject prod.collapse)
  qed
  ultimately obtain rest where "?f = (k, v) # rest"
    by (metis list.set_intros(1) list.exhaust list.distinct(1) empty_iff empty_set)
  then show ?thesis by (simp add: build_request_def set_headers_lookup)
qed

theorem request_header_wins_witness:
  "map_of (hr_Header (build_request [''x-id''] [''X-ID'', ''a'']
     \<lparr>hc_BaseURL = '''', hc_Requests = [], hc_Headers = [(''x-id'', ''plan'')], hc_Timeout = 0\<rparr>
     (demo_request\<lparr>rq_Headers := [(''X-ID'', ''mine''), (''a'', ''b'')]\<rparr>))) (canonical_key ''X-ID'') = Some ''mine''"
  by (rule request_header_wins)
     (auto simp: gomap_ok_def range_order_def demo_request_def canonical_key_def token_char_def is_digit_def byte_def
        lower_char_def upper_char_def)

end
