(* ===== verification/Scenario_DSL.thy ===== *)
theory Scenario_DSL
  imports Go_Duration Proto_Messages
begin

text \<open>
  The plan language of \<open>internal/runtime\<close>: the decoded YAML or JSON plan (\<open>scenario.go\<close>), its
  conversion to a validated scenario (\<open>dsl_parser.go\<close>), and the wire format a scenario is sent
  in (\<open>proto.go\<close>). The YAML decoder and the file system are not part of the repository: they
  are arguments of \<open>Parse\<close> and \<open>ParseFile\<close>. The process environment is the argument \<open>env\<close>, a
  list of \<open>key=value\<close> strings. \<open>substituteVars\<close> iterates the variable map once per call, so
  \<open>FromSpec\<close> takes one order per call.
\<close>

section \<open>The decoded plan\<close>

record yaml_stage =
  ys_Duration :: string
  ys_TargetVUs :: int32
  ys_RampUp :: string

record yaml_assertion =
  ya_StatusCode :: "int32 option"
  ya_ResponseTimeP99 :: "int32 option"
  ya_ResponseTimeP95 :: "int32 option"
  ya_ResponseTimeP50 :: "int32 option"
  ya_BodyContains :: "string option"

record yaml_request =
  yr_Method :: string
  yr_Path :: string
  yr_Headers :: "(string, string) gomap"
  yr_Body :: string
  yr_Assertions :: "yaml_assertion list"
  yr_ThinkTime :: string

record yaml_http_config =
  yh_BaseURL :: string
  yh_Requests :: "yaml_request list"
  yh_Headers :: "(string, string) gomap"
  yh_Timeout :: string

record yaml_test_plan =
  yp_Name :: string
  yp_Stages :: "yaml_stage list"
  yp_HTTP :: yaml_http_config
  yp_Variables :: "(string, string) gomap"

record scenario =
  sc_Name :: string
  sc_Stages :: "stage list"
  sc_HTTP :: http_config
  sc_Vars :: "(string, string) gomap"

section \<open>Validation\<close>

datatype scenario_error =
    NoStages
  | StageTargetNotPositive nat
  | StageDurationNotPositive nat
  | BaseURLRequired
  | NoRequests
  | RequestMethodRequired nat
  | RequestPathRequired nat

fun validate_stages :: "nat \<Rightarrow> stage list \<Rightarrow> scenario_error option" where
  "validate_stages i [] = None"
| "validate_stages i (st # sts) =
     (if st_TargetVUs st \<le> 0 then Some (StageTargetNotPositive i)
      else if st_Duration st \<le> 0 then Some (StageDurationNotPositive i)
      else validate_stages (Suc i) sts)"

fun validate_requests :: "nat \<Rightarrow> request list \<Rightarrow> scenario_error option" where
  "validate_requests i [] = None"
| "validate_requests i (r # rs) =
     (if rq_Method r = '''' then Some (RequestMethodRequired i)
      else if rq_Path r = '''' then Some (RequestPathRequired i)
      else validate_requests (Suc i) rs)"

definition Validate :: "scenario \<Rightarrow> scenario_error option" where
  "Validate s =
     (if sc_Stages s = [] then Some NoStages
      else case validate_stages 0 (sc_Stages s) of
        Some e \<Rightarrow> Some e
      | None \<Rightarrow>
          if hc_BaseURL (sc_HTTP s) = '''' then Some BaseURLRequired
          else if hc_Requests (sc_HTTP s) = [] then Some NoRequests
          else validate_requests 0 (hc_Requests (sc_HTTP s)))"

section \<open>Parsing\<close>

datatype duration_error = DurationEmpty | DurationMalformed dur_error

datatype plan_error =
    InvalidStageDuration duration_error
  | InvalidStageRampUp duration_error
  | InvalidHTTPTimeout duration_error
  | InvalidThinkTime duration_error
  | ValidationFailed scenario_error
  | YAMLError string
  | FileError string

definition ParseDuration :: "string \<Rightarrow> duration_error + duration" where
  "ParseDuration s =
     (if s = '''' then Inl DurationEmpty
      else case parse_duration s of Inl e \<Rightarrow> Inl (DurationMalformed e) | Inr d \<Rightarrow> Inr d)"

text \<open>One assertion: the first field that is set decides; none set gives the unset type.\<close>

definition parse_assertion :: "yaml_assertion \<Rightarrow> assertion" where
  "parse_assertion y =
     (case ya_StatusCode y of
        Some code \<Rightarrow> \<lparr>as_Type = AssertionTypeStatusCode, as_Value = AnyInt32 code, as_Threshold = AnyNil\<rparr>
      | None \<Rightarrow> (case ya_ResponseTimeP99 y of
          Some ms \<Rightarrow> \<lparr>as_Type = AssertionTypeResponseTime, as_Value = AnyString ''P99'', as_Threshold = AnyDuration (from_ms ms)\<rparr>
        | None \<Rightarrow> (case ya_ResponseTimeP95 y of
            Some ms \<Rightarrow> \<lparr>as_Type = AssertionTypeResponseTime, as_Value = AnyString ''P95'', as_Threshold = AnyDuration (from_ms ms)\<rparr>
          | None \<Rightarrow> (case ya_ResponseTimeP50 y of
              Some ms \<Rightarrow> \<lparr>as_Type = AssertionTypeResponseTime, as_Value = AnyString ''P50'', as_Threshold = AnyDuration (from_ms ms)\<rparr>
            | None \<Rightarrow> (case ya_BodyContains y of
                Some s \<Rightarrow> \<lparr>as_Type = AssertionTypeBodyContains, as_Value = AnyString s, as_Threshold = AnyNil\<rparr>
              | None \<Rightarrow> \<lparr>as_Type = AssertionTypeUnset, as_Value = AnyNil, as_Threshold = AnyNil\<rparr>)))))"

definition ParseRequest :: "yaml_request \<Rightarrow> plan_error + request" where
  "ParseRequest y =
     (case (if yr_ThinkTime y = '''' then Inr 0 else ParseDuration (yr_ThinkTime y)) of
        Inl e \<Rightarrow> Inl (InvalidThinkTime e)
      | Inr thinkTime \<Rightarrow> Inr
          \<lparr>rq_Method = yr_Method y, rq_Path = yr_Path y, rq_Headers = yr_Headers y, rq_Body = yr_Body y,
           rq_Assertions = filter (\<lambda>a. as_Type a \<noteq> AssertionTypeUnset) (map parse_assertion (yr_Assertions y)),
           rq_ThinkTime = thinkTime\<rparr>)"

definition placeholder :: "string \<Rightarrow> string" where
  "placeholder key = ''${'' @ key @ ''}''"

fun subst_entries :: "(string \<times> string) list \<Rightarrow> string \<Rightarrow> string" where
  "subst_entries [] s = s"
| "subst_entries ((key, value) # es) s = subst_entries es (replace_all s (placeholder key) value)"

fun subst_env :: "string list \<Rightarrow> string \<Rightarrow> string" where
  "subst_env [] s = s"
| "subst_env (env # es) s =
     (case split2 (CHR ''='') env of
        [key, value] \<Rightarrow> subst_env es (replace_all s (placeholder key) value)
      | _ \<Rightarrow> subst_env es s)"

definition substituteVars :: "string list \<Rightarrow> string list \<Rightarrow> string \<Rightarrow> (string, string) gomap \<Rightarrow> string" where
  "substituteVars env ord s vars = subst_env env (subst_entries (range_entries ord vars) s)"

fun parse_stages :: "yaml_stage list \<Rightarrow> plan_error + stage list" where
  "parse_stages [] = Inr []"
| "parse_stages (y # ys) =
     (case ParseDuration (ys_Duration y) of
        Inl e \<Rightarrow> Inl (InvalidStageDuration e)
      | Inr duration \<Rightarrow>
          (case (if ys_RampUp y = '''' then Inr 0 else ParseDuration (ys_RampUp y)) of
             Inl e \<Rightarrow> Inl (InvalidStageRampUp e)
           | Inr rampUp \<Rightarrow>
               (case parse_stages ys of
                  Inl e \<Rightarrow> Inl e
                | Inr sts \<Rightarrow>
                    Inr (\<lparr>st_Duration = duration, st_TargetVUs = ys_TargetVUs y, st_RampUp = rampUp\<rparr> # sts))))"

text \<open>The requests: \<open>ords i\<close> is the order of the \<open>i\<close>th call of \<open>substituteVars\<close>.\<close>

fun parse_requests ::
  "string list \<Rightarrow> (nat \<Rightarrow> string list) \<Rightarrow> (string, string) gomap \<Rightarrow> nat \<Rightarrow> yaml_request list \<Rightarrow> plan_error + request list" where
  "parse_requests env ords vars i [] = Inr []"
| "parse_requests env ords vars i (y # ys) =
     (case ParseRequest y of
        Inl e \<Rightarrow> Inl e
      | Inr r \<Rightarrow>
          (case parse_requests env ords vars (Suc i) ys of
             Inl e \<Rightarrow> Inl e
           | Inr rs \<Rightarrow>
               Inr (r\<lparr>rq_Path := substituteVars env (ords i) (rq_Path r) vars,
                      rq_Method := to_upper (rq_Method r)\<rparr> # rs)))"

definition FromSpec :: "string list \<Rightarrow> (nat \<Rightarrow> string list) \<Rightarrow> yaml_test_plan \<Rightarrow> plan_error + scenario" where
  "FromSpec env ords y =
     (case parse_stages (yp_Stages y) of
        Inl e \<Rightarrow> Inl e
      | Inr stages \<Rightarrow>
          (case (if yh_Timeout (yp_HTTP y) = '''' then Inr (30 * second) else ParseDuration (yh_Timeout (yp_HTTP y))) of
             Inl e \<Rightarrow> Inl (InvalidHTTPTimeout e)
           | Inr timeout \<Rightarrow>
               (case parse_requests env ords (yp_Variables y) 0 (yh_Requests (yp_HTTP y)) of
                  Inl e \<Rightarrow> Inl e
                | Inr requests \<Rightarrow>
                    let s = \<lparr>sc_Name = yp_Name y, sc_Stages = stages,
                        sc_HTTP = \<lparr>hc_BaseURL = substituteVars env (ords (length requests)) (yh_BaseURL (yp_HTTP y)) (yp_Variables y),
                          hc_Requests = requests, hc_Headers = yh_Headers (yp_HTTP y), hc_Timeout = timeout\<rparr>,
                        sc_Vars = yp_Variables y\<rparr>
                    in case Validate s of Some e \<Rightarrow> Inl (ValidationFailed e) | None \<Rightarrow> Inr s)))"

text \<open>The decoder and the file system are parameters.\<close>

definition Parse ::
  "(string \<Rightarrow> string + yaml_test_plan) \<Rightarrow> string list \<Rightarrow> (nat \<Rightarrow> string list) \<Rightarrow> string \<Rightarrow> plan_error + scenario" where
  "Parse unmarshal env ords data =
     (case unmarshal data of Inl e \<Rightarrow> Inl (YAMLError e) | Inr y \<Rightarrow> FromSpec env ords y)"

definition ParseFile ::
  "(string \<Rightarrow> string + string) \<Rightarrow> (string \<Rightarrow> string + yaml_test_plan) \<Rightarrow> string list \<Rightarrow> (nat \<Rightarrow> string list) \<Rightarrow>
   string \<Rightarrow> plan_error + scenario" where
  "ParseFile readFile unmarshal env ords filename =
     (case readFile filename of Inl e \<Rightarrow> Inl (FileError e) | Inr data \<Rightarrow> Parse unmarshal env ords data)"

section \<open>The wire format\<close>

definition assertion_to_proto :: "assertion \<Rightarrow> pb_assertion option" where
  "assertion_to_proto a =
     (case as_Type a of
        AssertionTypeStatusCode \<Rightarrow>
          Some (PbStatusCode (case as_Value a of AnyInt v \<Rightarrow> i32 v | AnyInt32 v \<Rightarrow> v | _ \<Rightarrow> 0))
      | AssertionTypeResponseTime \<Rightarrow>
          Some (PbResponseTime (case as_Value a of AnyString s \<Rightarrow> s | _ \<Rightarrow> '''')
            (i32 (to_ms (case as_Threshold a of AnyDuration d \<Rightarrow> d | _ \<Rightarrow> 0))))
      | AssertionTypeBodyContains \<Rightarrow> Some (PbBodyContains (case as_Value a of AnyString s \<Rightarrow> s | _ \<Rightarrow> ''''))
      | AssertionTypeUnset \<Rightarrow> None)"

definition assertionsToProto :: "assertion list \<Rightarrow> pb_assertion list" where
  "assertionsToProto as = List.map_filter assertion_to_proto as"

definition stage_to_proto :: "stage \<Rightarrow> pb_stage" where
  "stage_to_proto s =
     \<lparr>pst_Duration = duration_string (st_Duration s), pst_TargetVus = st_TargetVUs s,
      pst_RampUp = (if 0 < st_RampUp s then duration_string (st_RampUp s) else '''')\<rparr>"

definition request_to_proto :: "request \<Rightarrow> pb_request" where
  "request_to_proto r =
     \<lparr>prq_Method = rq_Method r, prq_Path = rq_Path r, prq_Headers = rq_Headers r, prq_Body = rq_Body r,
      prq_Assertions = assertionsToProto (rq_Assertions r), prq_ThinkTimeMs = i32 (to_ms (rq_ThinkTime r))\<rparr>"

fun peak_vus :: "int32 \<Rightarrow> stage list \<Rightarrow> int32" where
  "peak_vus peakVUs [] = peakVUs"
| "peak_vus peakVUs (s # ss) = peak_vus (if peakVUs < st_TargetVUs s then st_TargetVUs s else peakVUs) ss"

definition ScenarioToProto :: "scenario \<Rightarrow> string \<Rightarrow> pb_test_plan" where
  "ScenarioToProto s testID =
     \<lparr>ptp_Id = testID, ptp_Name = sc_Name s, ptp_Stages = map stage_to_proto (sc_Stages s),
      ptp_Http = Some \<lparr>phc_BaseUrl = hc_BaseURL (sc_HTTP s),
        phc_Requests = map request_to_proto (hc_Requests (sc_HTTP s)),
        phc_Headers = hc_Headers (sc_HTTP s),
        phc_TimeoutMs = i32 (to_ms (hc_Timeout (sc_HTTP s)))\<rparr>,
      ptp_Variables = sc_Vars s, ptp_TotalVirtualUsers = peak_vus 0 (sc_Stages s)\<rparr>"

section \<open>What validation and parsing guarantee\<close>

lemma validate_stages_None: "validate_stages i sts = None \<longleftrightarrow> (\<forall>st \<in> set sts. 0 < st_TargetVUs st \<and> 0 < st_Duration st)"
  by (induction sts arbitrary: i) auto

lemma validate_requests_None: "validate_requests i rs = None \<longleftrightarrow> (\<forall>r \<in> set rs. rq_Method r \<noteq> '''' \<and> rq_Path r \<noteq> '''')"
  by (induction rs arbitrary: i) auto

lemma Validate_None:
  "Validate s = None \<longleftrightarrow>
     sc_Stages s \<noteq> [] \<and> (\<forall>st \<in> set (sc_Stages s). 0 < st_TargetVUs st \<and> 0 < st_Duration st)
     \<and> hc_BaseURL (sc_HTTP s) \<noteq> '''' \<and> hc_Requests (sc_HTTP s) \<noteq> []
     \<and> (\<forall>r \<in> set (hc_Requests (sc_HTTP s)). rq_Method r \<noteq> '''' \<and> rq_Path r \<noteq> '''')"
  using validate_stages_None [of 0 "sc_Stages s"]
  by (cases "validate_stages 0 (sc_Stages s)") (auto simp: Validate_def validate_requests_None)

lemma FromSpec_Inr:
  assumes "FromSpec env ords y = Inr s"
  shows "parse_stages (yp_Stages y) = Inr (sc_Stages s)"
    and "parse_requests env ords (yp_Variables y) 0 (yh_Requests (yp_HTTP y)) = Inr (hc_Requests (sc_HTTP s))"
    and "(if yh_Timeout (yp_HTTP y) = '''' then Inr (30 * second) else ParseDuration (yh_Timeout (yp_HTTP y)))
           = Inr (hc_Timeout (sc_HTTP s))"
    and "Validate s = None" and "sc_Name s = yp_Name y" and "sc_Vars s = yp_Variables y"
  using assms by (auto simp: FromSpec_def Let_def split: sum.splits option.splits)

definition stage_spec :: "yaml_stage \<Rightarrow> stage \<Rightarrow> bool" where
  "stage_spec y st \<longleftrightarrow> ParseDuration (ys_Duration y) = Inr (st_Duration st) \<and> st_TargetVUs st = ys_TargetVUs y
     \<and> (if ys_RampUp y = '''' then st_RampUp st = 0 else ParseDuration (ys_RampUp y) = Inr (st_RampUp st))"

lemma parse_stages_spec: "parse_stages ys = Inr sts \<Longrightarrow> list_all2 stage_spec ys sts"
  by (induction ys arbitrary: sts) (auto simp: stage_spec_def split: sum.splits if_splits)

definition request_spec :: "yaml_request \<Rightarrow> request \<Rightarrow> bool" where
  "request_spec y r \<longleftrightarrow> rq_Method r = to_upper (yr_Method y) \<and> rq_Headers r = yr_Headers y \<and> rq_Body r = yr_Body y
     \<and> rq_Assertions r = filter (\<lambda>a. as_Type a \<noteq> AssertionTypeUnset) (map parse_assertion (yr_Assertions y))
     \<and> (if yr_ThinkTime y = '''' then rq_ThinkTime r = 0 else ParseDuration (yr_ThinkTime y) = Inr (rq_ThinkTime r))"

lemma parse_requests_spec: "parse_requests env ords vars i ys = Inr rs \<Longrightarrow> list_all2 request_spec ys rs"
  by (induction ys arbitrary: i rs) (auto simp: request_spec_def ParseRequest_def split: sum.splits if_splits)

lemma ParseDuration_Inr: "ParseDuration s = Inr d \<longleftrightarrow> s \<noteq> '''' \<and> parse_duration s = Inr d"
  by (auto simp: ParseDuration_def split: sum.splits)

section \<open>Substitution\<close>

lemma replace_all_absent: "\<not> str_contains s old \<Longrightarrow> replace_all s old new = s"
proof (induction s)
  case (Cons c cs)
  then show ?case by (subst replace_all.simps) auto
qed (simp add: replace_all.simps)

lemma placeholder_dollar: "CHR ''$'' \<notin> set s \<Longrightarrow> \<not> str_contains s (placeholder key)"
  by (auto simp: str_contains_iff placeholder_def)

lemma subst_entries_plain: "CHR ''$'' \<notin> set s \<Longrightarrow> subst_entries es s = s"
  by (induction es s rule: subst_entries.induct) (simp_all add: replace_all_absent placeholder_dollar)

lemma subst_env_plain: "CHR ''$'' \<notin> set s \<Longrightarrow> subst_env es s = s"
proof (induction es)
  case (Cons e es)
  then show ?case
    by (cases "split2 (CHR ''='') e" rule: remdups_adj.cases)
       (auto simp: replace_all_absent placeholder_dollar split: list.splits)
qed simp

section \<open>Properties\<close>


definition demo_yaml :: yaml_test_plan where
  "demo_yaml = \<lparr>yp_Name = ''demo'',
     yp_Stages = [\<lparr>ys_Duration = ''30s'', ys_TargetVUs = 5, ys_RampUp = ''500ms''\<rparr>],
     yp_HTTP = \<lparr>yh_BaseURL = ''http://${host}'',
       yh_Requests = [\<lparr>yr_Method = ''get'', yr_Path = ''/x'', yr_Headers = [], yr_Body = '''',
         yr_Assertions = [\<lparr>ya_StatusCode = Some 200, ya_ResponseTimeP99 = None, ya_ResponseTimeP95 = None,
           ya_ResponseTimeP50 = None, ya_BodyContains = None\<rparr>], yr_ThinkTime = ''2s''\<rparr>],
       yh_Headers = [], yh_Timeout = ''''\<rparr>,
     yp_Variables = [(''host'', ''h'')]\<rparr>"

definition demo_scenario :: scenario where
  "demo_scenario = \<lparr>sc_Name = ''demo'',
     sc_Stages = [\<lparr>st_Duration = 30000000000, st_TargetVUs = 5, st_RampUp = 500000000\<rparr>],
     sc_HTTP = \<lparr>hc_BaseURL = ''http://h'',
       hc_Requests = [\<lparr>rq_Method = ''GET'', rq_Path = ''/x'', rq_Headers = [], rq_Body = '''',
         rq_Assertions = [\<lparr>as_Type = AssertionTypeStatusCode, as_Value = AnyInt32 200, as_Threshold = AnyNil\<rparr>],
         rq_ThinkTime = 2000000000\<rparr>],
       hc_Headers = [], hc_Timeout = 30000000000\<rparr>,
     sc_Vars = [(''host'', ''h'')]\<rparr>"

lemma demo_durations:
  "parse_duration ''30s'' = Inr 30000000000" "parse_duration ''500ms'' = Inr 500000000" "parse_duration ''2s'' = Inr 2000000000"
  by (simp_all add: parse_duration_def parse_units.simps parse_component_def is_digit_def byte_def digit_val_def Let_def
        fraction_part_def unit_char_def unit_map_def component_value_def)

lemma demo_FromSpec: "FromSpec [] (\<lambda>_. [''host'']) demo_yaml = Inr demo_scenario"
proof -
  have "substituteVars [] [''host''] ''http://${host}'' [(''host'', ''h'')] = ''http://h''"
    "substituteVars [] [''host''] ''/x'' [(''host'', ''h'')] = ''/x''"
    by (simp_all add: substituteVars_def replace_all.simps placeholder_def has_prefix_def)
  moreover have "to_upper ''get'' = ''GET''" by (simp add: to_upper_def upper_char_def byte_def char_of_eq_iff)
  ultimately show ?thesis
    by (simp add: FromSpec_def demo_yaml_def demo_scenario_def ParseDuration_def demo_durations ParseRequest_def
        parse_assertion_def Let_def Validate_def second_def)
qed


text \<open>Text without a dollar sign is left alone by variable substitution, whatever the
  variables, the environment and the iteration order.\<close>

theorem substituteVars_plain:
  assumes "CHR ''$'' \<notin> set s"
  shows "substituteVars env ord s vars = s"
  using assms by (simp add: substituteVars_def subst_entries_plain subst_env_plain)

theorem substituteVars_plain_witness:
  "substituteVars [''HOME=/root''] [''host''] ''/x'' [(''host'', ''h'')] = ''/x''"
  by (rule substituteVars_plain) simp

end
