(* ===== verification/Worker_Service.thy ===== *)
theory Worker_Service
  imports Scenario_DSL Orchestrator_Server
begin

text \<open>
  The worker's side of the wire, \<open>cmd/worker/main.go\<close>: the conversion of the plan it is sent and
  the handler that starts a test. The engine the handlers drive is in its own theory. The
  properties here follow a plan from the decoded YAML to the worker.
\<close>

section \<open>Conversion\<close>

datatype worker_conv_error = WInvalidDuration string dur_error | WInvalidRampUp string dur_error

fun worker_stages :: "pb_stage list \<Rightarrow> worker_conv_error + stage list" where
  "worker_stages [] = Inr []"
| "worker_stages (p # ps) =
     (case parse_duration (pst_Duration p) of
        Inl e \<Rightarrow> Inl (WInvalidDuration (pst_Duration p) e)
      | Inr duration \<Rightarrow>
          (case (if pst_RampUp p = '''' then Inr 0 else parse_duration (pst_RampUp p)) of
             Inl e \<Rightarrow> Inl (WInvalidRampUp (pst_RampUp p) e)
           | Inr rampUp \<Rightarrow>
               (case worker_stages ps of
                  Inl e \<Rightarrow> Inl e
                | Inr sts \<Rightarrow>
                    Inr (\<lparr>st_Duration = duration, st_TargetVUs = pst_TargetVus p, st_RampUp = rampUp\<rparr> # sts))))"

text \<open>An assertion whose oneof is not set is dropped.\<close>

definition worker_request_of :: "pb_request \<Rightarrow> request" where
  "worker_request_of p =
     \<lparr>rq_Method = prq_Method p, rq_Path = prq_Path p, rq_Headers = prq_Headers p, rq_Body = prq_Body p,
      rq_Assertions = filter (\<lambda>a. as_Type a \<noteq> AssertionTypeUnset) (map convert_assertion (prq_Assertions p)),
      rq_ThinkTime = from_ms (prq_ThinkTimeMs p)\<rparr>"

definition convertProtoPlan :: "pb_test_plan \<Rightarrow> worker_conv_error + test_plan" where
  "convertProtoPlan p =
     (case worker_stages (ptp_Stages p) of
        Inl e \<Rightarrow> Inl e
      | Inr stages \<Rightarrow> Inr
          \<lparr>tp_ID = ptp_Id p, tp_Name = ptp_Name p, tp_Stages = stages,
           tp_HTTP = (case ptp_Http p of
               None \<Rightarrow> \<lparr>hc_BaseURL = '''', hc_Requests = [], hc_Headers = [], hc_Timeout = 0\<rparr>
             | Some http \<Rightarrow> \<lparr>hc_BaseURL = phc_BaseUrl http, hc_Requests = map worker_request_of (phc_Requests http),
                 hc_Headers = phc_Headers http, hc_Timeout = from_ms (phc_TimeoutMs http)\<rparr>),
           tp_Variables = ptp_Variables p, tp_TotalVirtualUsers = ptp_TotalVirtualUsers p\<rparr>)"

datatype run_error = PlanRequired | PlanInvalid worker_conv_error

text \<open>The handler \<open>RunTest\<close>: the answer, and the test it starts in a goroutine.\<close>

definition WorkerRunTest :: "run_request \<Rightarrow> (run_error + unit) \<times> (string \<times> test_plan \<times> int32) option" where
  "WorkerRunTest req =
     (case rn_Plan req of
        None \<Rightarrow> (Inl PlanRequired, None)
      | Some p \<Rightarrow>
          (case convertProtoPlan p of
             Inl e \<Rightarrow> (Inl (PlanInvalid e), None)
           | Inr plan \<Rightarrow> (Inr (), Some (rn_TestId req, plan, rn_AssignedVus req))))"

section \<open>The two conversions agree\<close>

lemma worker_stages_eq:
  "(case worker_stages ps of Inl _ \<Rightarrow> None | Inr sts \<Rightarrow> Some sts) = (case convert_stages ps of Inl _ \<Rightarrow> None | Inr sts \<Rightarrow> Some sts)"
  by (induction ps) (auto split: sum.splits if_splits)

lemma worker_stages_Inr: "worker_stages ps = Inr sts \<longleftrightarrow> convert_stages ps = Inr sts"
  using worker_stages_eq [of ps] by (auto split: sum.splits)

lemma convert_assertion_type: "as_Type (convert_assertion a) = AssertionTypeUnset \<longleftrightarrow> a = PbAssertionUnset"
  by (cases a) auto

section \<open>From the decoded plan to the worker\<close>

lemma parse_duration_in64: "parse_duration s = Inr d \<Longrightarrow> in64 d"
  by (auto simp: parse_duration_def Let_def in64_def [of 0] split: sum.splits if_splits) (simp_all add: in64_def)

text \<open>What the millisecond fields of the wire format keep of a duration.\<close>

definition wire_ms :: "duration \<Rightarrow> duration" where
  "wire_ms d = from_ms (i32 (to_ms d))"

lemma wire_ms_exact: "in32 k \<Longrightarrow> wire_ms (from_ms k) = from_ms k"
  by (simp add: wire_ms_def to_ms_from_ms in32_def in64_def millisecond_def i32_id)

lemma wire_ms_close:
  assumes "0 \<le> d" and "d < 2 ^ 31 * millisecond"
  shows "wire_ms d \<le> d \<and> d < wire_ms d + millisecond"
proof -
  have q: "to_ms d = d div millisecond" using assms(1) by (simp add: to_ms_def go_div_nonneg millisecond_def)
  have "0 \<le> d div millisecond" using assms(1) by (simp add: millisecond_def pos_imp_zdiv_nonneg_iff)
  have "d \<le> 2147483647999999" using assms(2) by (simp add: millisecond_def)
  then have "d div 1000000 \<le> 2147483647999999 div 1000000" by (rule zdiv_mono1) simp
  then have "d div millisecond < 2 ^ 31" by (simp add: millisecond_def)
  with \<open>0 \<le> d div millisecond\<close> have w: "wire_ms d = d div millisecond * millisecond"
    by (simp add: wire_ms_def q i32_id in32_def from_ms_def i64_id in64_def millisecond_def)
  have "d = d div millisecond * millisecond + d mod millisecond" by simp
  moreover have "0 \<le> d mod millisecond" "d mod millisecond < millisecond" by (simp_all add: millisecond_def)
  ultimately show ?thesis unfolding w by linarith
qed

definition wire_stage :: "stage \<Rightarrow> stage" where
  "wire_stage st = st\<lparr>st_RampUp := max 0 (st_RampUp st)\<rparr>"

lemma duration_string_nonempty: "duration_string d \<noteq> ''''"
proof
  assume e: "duration_string d = ''''"
  have "abs_duration_string u \<noteq> ''''" for u using numeric_abs [of u] by (auto simp: numeric_def)
  with e show False by (simp add: duration_string_def split: if_splits)
qed

lemma stage_over_the_wire:
  assumes "in64 (st_Duration st)" and "in64 (st_RampUp st)"
  shows "worker_stages (stage_to_proto st # ps) =
    (case worker_stages ps of Inl e \<Rightarrow> Inl e | Inr sts \<Rightarrow> Inr (wire_stage st # sts))"
proof -
  obtain d v r where "st = \<lparr>st_Duration = d, st_TargetVUs = v, st_RampUp = r\<rparr>" by (cases st)
  with assms show ?thesis
    by (simp add: stage_to_proto_def read_back duration_string_nonempty wire_stage_def max_def split: sum.split)
qed

lemma stages_over_the_wire:
  "\<forall>st \<in> set sts. in64 (st_Duration st) \<and> in64 (st_RampUp st) \<Longrightarrow>
   worker_stages (map stage_to_proto sts) = Inr (map wire_stage sts)"
  by (induction sts) (simp_all add: stage_over_the_wire del: worker_stages.simps(2))

definition wire_assertion :: "assertion \<Rightarrow> assertion option" where
  "wire_assertion a = map_option convert_assertion (assertion_to_proto a)"

definition wire_request :: "request \<Rightarrow> request" where
  "wire_request r = r\<lparr>rq_Assertions := List.map_filter wire_assertion (rq_Assertions r),
     rq_ThinkTime := wire_ms (rq_ThinkTime r)\<rparr>"

lemma request_over_the_wire: "worker_request_of (request_to_proto r) = wire_request r"
proof -
  have "filter (\<lambda>a. as_Type a \<noteq> AssertionTypeUnset) (map convert_assertion (assertionsToProto as)) =
      List.map_filter wire_assertion as" for as
    by (induction as)
       (auto simp: assertionsToProto_def List.map_filter_simps wire_assertion_def assertion_to_proto_def
          split: option.splits assertion_type.splits)
  then show ?thesis by (cases r) (simp add: worker_request_of_def request_to_proto_def wire_request_def wire_ms_def)
qed

definition wire_plan :: "scenario \<Rightarrow> string \<Rightarrow> test_plan" where
  "wire_plan s i = \<lparr>tp_ID = i, tp_Name = sc_Name s, tp_Stages = map wire_stage (sc_Stages s),
     tp_HTTP = (sc_HTTP s)\<lparr>hc_Requests := map wire_request (hc_Requests (sc_HTTP s)),
                           hc_Timeout := wire_ms (hc_Timeout (sc_HTTP s))\<rparr>,
     tp_Variables = sc_Vars s, tp_TotalVirtualUsers = peak_vus 0 (sc_Stages s)\<rparr>"

lemma plan_over_the_wire:
  assumes "\<forall>st \<in> set (sc_Stages s). in64 (st_Duration st) \<and> in64 (st_RampUp st)"
  shows "convertProtoPlan (ScenarioToProto s i) = Inr (wire_plan s i)"
  using stages_over_the_wire [OF assms]
  by (cases "sc_HTTP s")
     (simp add: convertProtoPlan_def ScenarioToProto_def wire_plan_def request_over_the_wire o_def wire_ms_def)

lemma list_all2_right: "list_all2 P xs ys \<Longrightarrow> y \<in> set ys \<Longrightarrow> \<exists>x \<in> set xs. P x y"
  by (induction rule: list_all2_induct) auto

text \<open>An assertion as the worker holds it: the status code is an \<open>int\<close> instead of an \<open>int32\<close>.\<close>

definition worker_form :: "assertion \<Rightarrow> assertion" where
  "worker_form a = (case as_Value a of AnyInt32 c \<Rightarrow> a\<lparr>as_Value := AnyInt c\<rparr> | _ \<Rightarrow> a)"

definition yaml_assertion_ok :: "yaml_assertion \<Rightarrow> bool" where
  "yaml_assertion_ok y \<longleftrightarrow> (\<forall>f \<in> {ya_ResponseTimeP99 y, ya_ResponseTimeP95 y, ya_ResponseTimeP50 y}. \<forall>ms. f = Some ms \<longrightarrow> in32 ms)"

lemma wire_parsed_assertion:
  assumes "yaml_assertion_ok y"
  shows "wire_assertion (parse_assertion y) =
    (if as_Type (parse_assertion y) = AssertionTypeUnset then None else Some (worker_form (parse_assertion y)))"
proof -
  have "to_ms (from_ms ms) = ms \<and> i32 ms = ms" if "in32 ms" for ms
    using that by (auto simp: to_ms_from_ms in64_def in32_def millisecond_def i32_id)
  with assms show ?thesis
    by (auto simp: wire_assertion_def parse_assertion_def assertion_to_proto_def worker_form_def yaml_assertion_ok_def
        split: option.splits)
qed

lemma wire_parsed_assertions:
  "\<forall>y \<in> set ys. yaml_assertion_ok y \<Longrightarrow>
   List.map_filter wire_assertion (filter (\<lambda>a. as_Type a \<noteq> AssertionTypeUnset) (map parse_assertion ys))
   = map worker_form (filter (\<lambda>a. as_Type a \<noteq> AssertionTypeUnset) (map parse_assertion ys))"
  by (induction ys) (simp_all add: List.map_filter_simps wire_parsed_assertion)

section \<open>Properties\<close>

text \<open>The two copies of the plan conversion agree: on a plan with an HTTP section and
  no assertion left unset, the server accepts it exactly when the worker does, and the worker's plan
  is the server's except for the think times, which the server drops.\<close>

theorem conversions_agree:
  assumes "ptp_Http p = Some http"
    and "\<And>r. r \<in> set (phc_Requests http) \<Longrightarrow> PbAssertionUnset \<notin> set (prq_Assertions r)"
  shows "(case convertProtoPlan p of
      Inr plan \<Rightarrow> convertPlan p = Reply (Inr (plan\<lparr>tp_HTTP := (tp_HTTP plan)\<lparr>hc_Requests :=
        map (\<lambda>r. r\<lparr>rq_ThinkTime := 0\<rparr>) (hc_Requests (tp_HTTP plan))\<rparr>\<rparr>))
    | Inl _ \<Rightarrow> (\<exists>e. convertPlan p = Reply (Inl e)))"
proof -
  have "convert_request r = (worker_request_of r)\<lparr>rq_ThinkTime := 0\<rparr>" if "r \<in> set (phc_Requests http)" for r
  proof -
    have "filter (\<lambda>a. as_Type a \<noteq> AssertionTypeUnset) (map convert_assertion (prq_Assertions r)) =
        map convert_assertion (prq_Assertions r)"
      using assms(2) [OF that] by (auto simp: filter_id_conv convert_assertion_type)
    then show ?thesis by (simp add: convert_request_def worker_request_of_def)
  qed
  then have reqs: "map convert_request (phc_Requests http) = map (\<lambda>r. (worker_request_of r)\<lparr>rq_ThinkTime := 0\<rparr>) (phc_Requests http)"
    by simp
  show ?thesis
  proof (cases "worker_stages (ptp_Stages p)")
    case (Inl e)
    then obtain e' where "convert_stages (ptp_Stages p) = Inl e'"
      using worker_stages_Inr [of "ptp_Stages p"] by (cases "convert_stages (ptp_Stages p)") auto
    with Inl show ?thesis by (simp add: convertProtoPlan_def convertPlan_def)
  next
    case (Inr sts)
    then have "convert_stages (ptp_Stages p) = Inr sts" by (simp add: worker_stages_Inr)
    with Inr show ?thesis by (simp add: convertProtoPlan_def convertPlan_def assms(1) reqs o_def)
  qed
qed

theorem conversions_agree_witness:
  "\<exists>plan. convertProtoPlan (demo_pb_plan 1 2) = Inr plan \<and> tp_ID plan = ''t''"
proof -
  obtain plan where S: "convertPlan (demo_pb_plan 1 2) = Reply (Inr plan)" using demo_convert [of 1 2] by (elim exE conjE)
  then have i: "tp_ID plan = ''t''" by (auto simp: convertPlan_def demo_pb_plan_def split: sum.splits)
  have "case convertProtoPlan (demo_pb_plan 1 2) of
      Inr plan \<Rightarrow> convertPlan (demo_pb_plan 1 2) = Reply (Inr (plan\<lparr>tp_HTTP := (tp_HTTP plan)\<lparr>hc_Requests :=
        map (\<lambda>r. r\<lparr>rq_ThinkTime := 0\<rparr>) (hc_Requests (tp_HTTP plan))\<rparr>\<rparr>))
    | Inl _ \<Rightarrow> (\<exists>e. convertPlan (demo_pb_plan 1 2) = Reply (Inl e))"
    by (rule conversions_agree [where http = "\<lparr>phc_BaseUrl = ''http://h'', phc_Requests = [], phc_Headers = [], phc_TimeoutMs = 0\<rparr>"])
       (simp_all add: demo_pb_plan_def)
  with S i show ?thesis by (cases "convertProtoPlan (demo_pb_plan 1 2)") auto
qed

text \<open>A request as the worker holds it, against the one that was parsed.\<close>

definition as_written :: "request \<Rightarrow> request \<Rightarrow> bool" where
  "as_written r r' \<longleftrightarrow> rq_Method r' = rq_Method r \<and> rq_Path r' = rq_Path r \<and> rq_Headers r' = rq_Headers r
     \<and> rq_Body r' = rq_Body r \<and> rq_Assertions r' = map worker_form (rq_Assertions r)
     \<and> rq_ThinkTime r' \<le> rq_ThinkTime r \<and> rq_ThinkTime r < rq_ThinkTime r' + millisecond"

lemma plan_as_written:
  assumes "FromSpec env ords y = Inr s"
    and "\<forall>r \<in> set (yh_Requests (yp_HTTP y)). \<forall>a \<in> set (yr_Assertions r). yaml_assertion_ok a"
    and "\<forall>st \<in> set (sc_Stages s). 0 \<le> st_RampUp st"
    and "\<forall>r \<in> set (hc_Requests (sc_HTTP s)). 0 \<le> rq_ThinkTime r \<and> rq_ThinkTime r < 2 ^ 31 * millisecond"
  shows "convertProtoPlan (ScenarioToProto s testID) = Inr (wire_plan s testID)" (is ?W)
    and "map wire_stage (sc_Stages s) = sc_Stages s" (is ?S)
    and "list_all2 as_written (hc_Requests (sc_HTTP s)) (hc_Requests (tp_HTTP (wire_plan s testID)))" (is ?R)
proof -
  note F = FromSpec_Inr [OF assms(1)]
  have "in64 (st_Duration st) \<and> in64 (st_RampUp st)" if st: "st \<in> set (sc_Stages s)" for st
  proof -
    obtain ys where "stage_spec ys st"
      using list_all2_right [OF parse_stages_spec [OF F(1)] st] by blast
    then show ?thesis
      by (auto simp: stage_spec_def ParseDuration_Inr in64_def [of 0] split: if_splits dest: parse_duration_in64)
  qed
  then have W: "convertProtoPlan (ScenarioToProto s testID) = Inr (wire_plan s testID)"
    by (intro plan_over_the_wire) blast
  have stages: "map wire_stage (sc_Stages s) = sc_Stages s"
    using assms(3) by (intro map_idI) (simp add: wire_stage_def max_def)
  have asserts: "rq_Assertions (wire_request r) = map worker_form (rq_Assertions r)" if r: "r \<in> set (hc_Requests (sc_HTTP s))" for r
  proof -
    obtain yr where yr: "request_spec yr r" "yr \<in> set (yh_Requests (yp_HTTP y))"
      using list_all2_right [OF parse_requests_spec [OF F(2)] r] by blast
    with assms(2) have "\<forall>a \<in> set (yr_Assertions yr). yaml_assertion_ok a" by blast
    from wire_parsed_assertions [OF this] yr(1) show ?thesis by (simp add: wire_request_def request_spec_def)
  qed
  show ?W by (rule W)
  show ?S by (rule stages)
  show ?R using asserts assms(4) wire_ms_close
    by (auto simp: wire_plan_def list_all2_map2 wire_request_def as_written_def intro!: list_all2_same [THEN iffD2])
qed

text \<open>C5: roundtrip. A plan reaches the worker as it was written. For every decoded plan that
  \<open>FromSpec\<close> accepts, with millisecond bounds of type \<open>int32\<close>, no negative ramp-up or think time and
  think times below \<open>2 ^ 31\<close> milliseconds, the worker decodes from the wire: the same stages, the
  same base URL and headers, and the same requests in order with the same method, path, headers,
  body and assertions; only think times are cut to whole milliseconds.\<close>

theorem plan_reaches_worker:
  assumes "FromSpec env ords y = Inr s"
    and "\<forall>r \<in> set (yh_Requests (yp_HTTP y)). \<forall>a \<in> set (yr_Assertions r). yaml_assertion_ok a"
    and "\<forall>st \<in> set (sc_Stages s). 0 \<le> st_RampUp st"
    and "\<forall>r \<in> set (hc_Requests (sc_HTTP s)). 0 \<le> rq_ThinkTime r \<and> rq_ThinkTime r < 2 ^ 31 * millisecond"
  shows "\<exists>plan. convertProtoPlan (ScenarioToProto s testID) = Inr plan
    \<and> tp_ID plan = testID \<and> tp_Stages plan = sc_Stages s
    \<and> hc_BaseURL (tp_HTTP plan) = hc_BaseURL (sc_HTTP s) \<and> hc_Headers (tp_HTTP plan) = hc_Headers (sc_HTTP s)
    \<and> list_all2 as_written (hc_Requests (sc_HTTP s)) (hc_Requests (tp_HTTP plan))"
  using plan_as_written(2) [OF assms] plan_as_written(1,3) [OF assms, of testID]
  by (intro exI [of _ "wire_plan s testID"]) (simp add: wire_plan_def)

theorem plan_reaches_worker_witness:
  "\<exists>plan. convertProtoPlan (ScenarioToProto demo_scenario ''t'') = Inr plan \<and> tp_Stages plan = sc_Stages demo_scenario"
proof -
  have "\<forall>r \<in> set (yh_Requests (yp_HTTP demo_yaml)). \<forall>a \<in> set (yr_Assertions r). yaml_assertion_ok a"
    "\<forall>st \<in> set (sc_Stages demo_scenario). 0 \<le> st_RampUp st"
    "\<forall>r \<in> set (hc_Requests (sc_HTTP demo_scenario)). 0 \<le> rq_ThinkTime r \<and> rq_ThinkTime r < 2 ^ 31 * millisecond"
    by (simp_all add: demo_yaml_def demo_scenario_def yaml_assertion_ok_def millisecond_def)
  from plan_reaches_worker [OF demo_FromSpec this] show ?thesis by blast
qed

end
