(* ===== verification/Worker_Engine.thy ===== *)
theory Worker_Engine
  imports Virtual_User Worker_Service
begin

text \<open>
  The worker's engine and reporter, \<open>internal/worker/engine.go\<close> and \<open>internal/worker/reporter.go\<close>,
  and the handlers and the keep-alive of \<open>cmd/worker/main.go\<close> that drive them.

  Every accepted \<open>RunTest\<close> is a goroutine with its own program counter \<open>run_pc\<close>; the fields of the
  engine and of the reporter are shared, each read or written under its mutex in one step. The
  relation \<open>en_step\<close> interleaves the goroutines, the report loops, the keep-alive, the handlers and
  the clock. What the worker sends is the list \<open>en_sent\<close> of test identifier and active flag. The
  virtual users of a stage are the subject of \<open>Virtual_User\<close>; here a stage holds their number.
\<close>

section \<open>State\<close>

datatype run_result = ROk | RStageFailed nat string | RPanic

datatype run_pc =
    Spawned
  | Locked
  | WasReset
  | Reporting
  | NextStage nat
  | InStage nat int32 go_time
  | Leaving run_result
  | Unflagged run_result
  | LoopStopped run_result
  | Done run_result

record engine_run =
  ru_Test :: string
  ru_Plan :: test_plan
  ru_Assigned :: int32
  ru_pc :: run_pc
  ru_cancelled :: bool
  ru_began :: go_time

record engine =
  en_now :: go_time
  en_runs :: "engine_run list"
  en_currentTestID :: string
  en_testActive :: bool
  en_testCancel :: "nat option"
  en_virtualUsers :: nat
  en_activeVUs :: int32
  en_repTestID :: string
  en_repCancel :: "nat option"
  en_loops :: "nat set"
  en_pending :: "(string \<times> bool) list"
  en_sent :: "(string \<times> bool) list"
  en_crashed :: bool

definition NewEngine :: "go_time \<Rightarrow> engine" where
  "NewEngine now = \<lparr>en_now = now, en_runs = [], en_currentTestID = '''', en_testActive = False, en_testCancel = None,
     en_virtualUsers = 0, en_activeVUs = 0, en_repTestID = '''', en_repCancel = None, en_loops = {},
     en_pending = [], en_sent = [], en_crashed = False\<rparr>"

definition set_pc :: "nat \<Rightarrow> run_pc \<Rightarrow> engine \<Rightarrow> engine" where
  "set_pc i pc s = s\<lparr>en_runs := (en_runs s)[i := (en_runs s ! i)\<lparr>ru_pc := pc\<rparr>]\<rparr>"

section \<open>Operations\<close>

definition CurrentTest :: "engine \<Rightarrow> string \<times> bool" where
  "CurrentTest s = (en_currentTestID s, en_testActive s)"

definition GetActiveVUs :: "engine \<Rightarrow> int32" where
  "GetActiveVUs s = en_activeVUs s"

text \<open>\<open>cancel()\<close> of a run's context; a context that is done already stays so.\<close>

definition cancel_run :: "nat \<Rightarrow> engine \<Rightarrow> engine" where
  "cancel_run i s = s\<lparr>en_runs := (en_runs s)[i := (en_runs s ! i)\<lparr>ru_cancelled := True\<rparr>]\<rparr>"

definition EngineStopTest :: "engine \<Rightarrow> engine" where
  "EngineStopTest s = (case en_testCancel s of None \<Rightarrow> s | Some i \<Rightarrow> cancel_run i s)"

text \<open>The handler ignores the test named in the request and the engine never fails.\<close>

definition WorkerStopTest :: "string \<Rightarrow> engine \<Rightarrow> stop_response \<times> engine" where
  "WorkerStopTest testID s = (\<lparr>sr_Success = True, sr_Message = ''test stopped''\<rparr>, EngineStopTest s)"

definition ReporterStart :: "nat \<Rightarrow> string \<Rightarrow> engine \<Rightarrow> engine" where
  "ReporterStart i testID s = s\<lparr>
     en_loops := insert i (case en_repCancel s of None \<Rightarrow> en_loops s | Some j \<Rightarrow> en_loops s - {j}),
     en_repCancel := Some i, en_repTestID := testID\<rparr>"

definition ReporterStop :: "engine \<Rightarrow> engine" where
  "ReporterStop s = (case en_repCancel s of None \<Rightarrow> s | Some j \<Rightarrow> s\<lparr>en_loops := en_loops s - {j}, en_repCancel := None\<rparr>)"

definition report :: "bool \<Rightarrow> engine \<Rightarrow> engine" where
  "report testActive s = s\<lparr>en_sent := en_sent s @ [(en_repTestID s, testActive)]\<rparr>"

text \<open>
  The number of virtual users of a stage: the worker's share, capped by the users allocated for the
  test and by the slice of built ones. A negative number makes \<open>vus[:activeVUs]\<close> panic when the
  stage ends.
\<close>

definition stage_vus :: "stage \<Rightarrow> int32 \<Rightarrow> nat \<Rightarrow> int32" where
  "stage_vus stg total_vus built =
     (let a = st_TargetVUs stg;
          b = (if total_vus < a then total_vus else a)
      in if int built < b then i32 (int built) else b)"

abbreviation stages_of :: "engine_run \<Rightarrow> stage list" where
  "stages_of r \<equiv> tp_Stages (ru_Plan r)"

definition new_run :: "string \<times> test_plan \<times> int32 \<Rightarrow> engine_run" where
  "new_run job = \<lparr>ru_Test = fst job, ru_Plan = fst (snd job), ru_Assigned = snd (snd job), ru_pc = Spawned,
     ru_cancelled = False, ru_began = 0\<rparr>"

text \<open>The two ends of \<open>runStage\<close>.\<close>

definition enter_stage :: "nat \<Rightarrow> nat \<Rightarrow> engine \<Rightarrow> engine" where
  "enter_stage i k s =
     (let r = en_runs s ! i; a = stage_vus (stages_of r ! k) (ru_Assigned r) (en_virtualUsers s)
      in set_pc i (InStage k a (en_now s)) (s\<lparr>en_activeVUs := i32 (en_activeVUs s + max 0 a)\<rparr>))"

definition leave_stage :: "nat \<Rightarrow> nat \<Rightarrow> int32 \<Rightarrow> engine \<Rightarrow> engine" where
  "leave_stage i k a s =
     set_pc i (if a < 0 then Leaving RPanic
               else if ru_cancelled (en_runs s ! i) then Leaving (RStageFailed k ''context canceled'')
               else NextStage (Suc k))
       (s\<lparr>en_activeVUs := i32 (en_activeVUs s - max 0 a)\<rparr>)"

section \<open>Steps\<close>

inductive en_step :: "engine \<Rightarrow> engine \<Rightarrow> bool" where
  tick: "en_now s \<le> t \<Longrightarrow> en_step s (s\<lparr>en_now := t\<rparr>)"
| run_test: "WorkerRunTest req = (Inr (), Some job) \<Longrightarrow> en_step s (s\<lparr>en_runs := en_runs s @ [new_run job]\<rparr>)"
| lock: "i < length (en_runs s) \<Longrightarrow> ru_pc (en_runs s ! i) = Spawned \<Longrightarrow>
    en_step s (set_pc i Locked (s\<lparr>en_currentTestID := ru_Test (en_runs s ! i), en_testActive := True, en_testCancel := Some i\<rparr>))"
| reset: "i < length (en_runs s) \<Longrightarrow> ru_pc (en_runs s ! i) = Locked \<Longrightarrow> en_step s (set_pc i WasReset s)"
| start_reporter: "i < length (en_runs s) \<Longrightarrow> ru_pc (en_runs s ! i) = WasReset \<Longrightarrow>
    en_step s (set_pc i Reporting (ReporterStart i (ru_Test (en_runs s ! i)) s))"
| build_users: "i < length (en_runs s) \<Longrightarrow> ru_pc (en_runs s ! i) = Reporting \<Longrightarrow> 0 \<le> ru_Assigned (en_runs s ! i) \<Longrightarrow>
    en_step s (set_pc i (NextStage 0) (s\<lparr>en_virtualUsers := nat (ru_Assigned (en_runs s ! i)),
      en_runs := (en_runs s)[i := (en_runs s ! i)\<lparr>ru_began := en_now s\<rparr>]\<rparr>))"
| build_panic: "i < length (en_runs s) \<Longrightarrow> ru_pc (en_runs s ! i) = Reporting \<Longrightarrow> ru_Assigned (en_runs s ! i) < 0 \<Longrightarrow>
    en_step s (set_pc i (Leaving RPanic) s)"
| stage_begin: "i < length (en_runs s) \<Longrightarrow> ru_pc (en_runs s ! i) = NextStage k \<Longrightarrow> k < length (stages_of (en_runs s ! i)) \<Longrightarrow>
    en_step s (enter_stage i k s)"
| stage_end: "i < length (en_runs s) \<Longrightarrow> ru_pc (en_runs s ! i) = InStage k a t \<Longrightarrow>
    ru_cancelled (en_runs s ! i) \<or> t + st_Duration (stages_of (en_runs s ! i) ! k) \<le> en_now s \<Longrightarrow>
    en_step s (leave_stage i k a s)"
| stages_done: "i < length (en_runs s) \<Longrightarrow> ru_pc (en_runs s ! i) = NextStage k \<Longrightarrow> \<not> k < length (stages_of (en_runs s ! i)) \<Longrightarrow>
    en_step s (set_pc i (Leaving ROk) s)"
| unflag: "i < length (en_runs s) \<Longrightarrow> ru_pc (en_runs s ! i) = Leaving res \<Longrightarrow>
    en_step s (set_pc i (Unflagged res) (s\<lparr>en_testActive := False\<rparr>))"
| stop_loop: "i < length (en_runs s) \<Longrightarrow> ru_pc (en_runs s ! i) = Unflagged res \<Longrightarrow>
    en_step s (set_pc i (LoopStopped res) (ReporterStop s))"
| final_report: "i < length (en_runs s) \<Longrightarrow> ru_pc (en_runs s ! i) = LoopStopped res \<Longrightarrow>
    en_step s (set_pc i (Done res) (cancel_run i ((report False s)\<lparr>en_crashed := (res = RPanic)\<rparr>)))"
| loop_report: "i \<in> en_loops s \<Longrightarrow> en_step s (report True s)"
| keep_alive_read: "en_step s (s\<lparr>en_pending := CurrentTest s # en_pending s\<rparr>)"
| keep_alive_send: "b \<in> set (en_pending s) \<Longrightarrow> en_step s (s\<lparr>en_pending := remove1 b (en_pending s), en_sent := en_sent s @ [b]\<rparr>)"
| stop_test: "en_step s (snd (WorkerStopTest testID s))"

fun is_done :: "run_pc \<Rightarrow> bool" where
  "is_done (Done _) = True"
| "is_done _ = False"

text \<open>Reachable states. \<open>overlap\<close> says whether a test may be started while another one runs; a
  crashed process takes no more steps.\<close>

inductive en_reach :: "bool \<Rightarrow> engine \<Rightarrow> bool" for overlap where
  init: "en_reach overlap (NewEngine now)"
| step: "en_reach overlap s \<Longrightarrow> \<not> en_crashed s \<Longrightarrow> en_step s s' \<Longrightarrow>
    overlap \<or> length (en_runs s') = length (en_runs s) \<or> (\<forall>r \<in> set (en_runs s). is_done (ru_pc r)) \<Longrightarrow>
    en_reach overlap s'"

inductive_cases en_stepE: "en_step s s'"

section \<open>One test at a time\<close>

fun ended :: "run_pc \<Rightarrow> bool" where
  "ended (Unflagged _) = True"
| "ended (LoopStopped _) = True"
| "ended (Done _) = True"
| "ended _ = False"

fun holds_flag :: "run_pc \<Rightarrow> bool" where
  "holds_flag Spawned = False"
| "holds_flag pc = (\<not> ended pc)"

fun holds_reporter :: "run_pc \<Rightarrow> bool" where
  "holds_reporter Spawned = False"
| "holds_reporter Locked = False"
| "holds_reporter WasReset = False"
| "holds_reporter (Done _) = False"
| "holds_reporter _ = True"

definition over :: "string \<Rightarrow> engine \<Rightarrow> bool" where
  "over t s \<longleftrightarrow> t = '''' \<or> (\<exists>i < length (en_runs s). ru_Test (en_runs s ! i) = t \<and> ended (ru_pc (en_runs s ! i)))"

definition seq_inv :: "engine \<Rightarrow> bool" where
  "seq_inv s \<longleftrightarrow>
     (\<forall>i < length (en_runs s). \<not> is_done (ru_pc (en_runs s ! i)) \<longrightarrow> Suc i = length (en_runs s))
   \<and> (\<forall>i < length (en_runs s). holds_flag (ru_pc (en_runs s ! i)) \<longrightarrow>
        CurrentTest s = (ru_Test (en_runs s ! i), True) \<and> en_testCancel s = Some i)
   \<and> (\<forall>i < length (en_runs s). holds_reporter (ru_pc (en_runs s ! i)) \<longrightarrow> en_repTestID s = ru_Test (en_runs s ! i))
   \<and> (\<not> en_testActive s \<longrightarrow> over (en_currentTestID s) s)
   \<and> (\<forall>t. (t, False) \<in> set (en_pending s) \<union> set (en_sent s) \<longrightarrow> over t s)
   \<and> (\<forall>i < length (en_runs s). is_done (ru_pc (en_runs s ! i)) \<longrightarrow> (ru_Test (en_runs s ! i), False) \<in> set (en_sent s))"

lemma set_pc_simps [simp]:
  "en_now (set_pc i pc s) = en_now s" "en_currentTestID (set_pc i pc s) = en_currentTestID s"
  "en_testActive (set_pc i pc s) = en_testActive s" "en_testCancel (set_pc i pc s) = en_testCancel s"
  "en_repTestID (set_pc i pc s) = en_repTestID s" "en_pending (set_pc i pc s) = en_pending s"
  "en_sent (set_pc i pc s) = en_sent s" "en_loops (set_pc i pc s) = en_loops s"
  "en_repCancel (set_pc i pc s) = en_repCancel s" "en_crashed (set_pc i pc s) = en_crashed s"
  "en_activeVUs (set_pc i pc s) = en_activeVUs s" "en_virtualUsers (set_pc i pc s) = en_virtualUsers s"
  "length (en_runs (set_pc i pc s)) = length (en_runs s)"
  "i < length (en_runs s) \<Longrightarrow> en_runs (set_pc i pc s) ! j = (if j = i then (en_runs s ! i)\<lparr>ru_pc := pc\<rparr> else en_runs s ! j)"
  by (simp_all add: set_pc_def nth_list_update)

lemma cancel_run_simps [simp]:
  "en_now (cancel_run i s) = en_now s" "en_currentTestID (cancel_run i s) = en_currentTestID s"
  "en_testActive (cancel_run i s) = en_testActive s" "en_testCancel (cancel_run i s) = en_testCancel s"
  "en_repTestID (cancel_run i s) = en_repTestID s" "en_pending (cancel_run i s) = en_pending s"
  "en_sent (cancel_run i s) = en_sent s" "en_crashed (cancel_run i s) = en_crashed s"
  "length (en_runs (cancel_run i s)) = length (en_runs s)"
  "i < length (en_runs s) \<Longrightarrow> en_runs (cancel_run i s) ! j = (if j = i then (en_runs s ! i)\<lparr>ru_cancelled := True\<rparr> else en_runs s ! j)"
  by (simp_all add: cancel_run_def nth_list_update)

lemmas engine_ops = ReporterStart_def ReporterStop_def report_def CurrentTest_def enter_stage_def leave_stage_def
  EngineStopTest_def WorkerStopTest_def Let_def

lemma over_set_pc:
  "i < length (en_runs s) \<Longrightarrow> over t s \<Longrightarrow> ended (ru_pc (en_runs s ! i)) \<longrightarrow> ended pc \<Longrightarrow> over t (set_pc i pc s)"
  by (auto simp: over_def)

lemma over_cong: "en_runs s' = en_runs s \<Longrightarrow> over t s' = over t s"
  by (simp add: over_def)

lemma seq_inv_init: "seq_inv (NewEngine now)"
  by (simp add: seq_inv_def NewEngine_def over_def)

lemma testCancel_valid:
  "en_reach ov s \<Longrightarrow> (\<forall>i. en_testCancel s = Some i \<longrightarrow> i < length (en_runs s))"
proof (induction rule: en_reach.induct)
  case (step s s')
  from step(3) step(5) show ?case
    by (cases rule: en_step.cases) (auto simp: engine_ops split: option.splits intro: less_SucI)
qed (simp add: NewEngine_def)


text \<open>A step of the one run that is not over.\<close>

lemma seq_inv_move:
  assumes inv: "seq_inv s" and i: "i < length (en_runs s)" "\<not> is_done (ru_pc (en_runs s ! i))"
    and len: "length (en_runs s1) = length (en_runs s)"
    and same: "\<And>j. j < length (en_runs s) \<Longrightarrow> ru_Test (en_runs s1 ! j) = ru_Test (en_runs s ! j) \<and> ru_pc (en_runs s1 ! j) = ru_pc (en_runs s ! j)"
    and flag: "holds_flag pc \<Longrightarrow> CurrentTest s1 = (ru_Test (en_runs s ! i), True) \<and> en_testCancel s1 = Some i"
    and rep: "holds_reporter pc \<Longrightarrow> en_repTestID s1 = ru_Test (en_runs s ! i)"
    and mono: "ended (ru_pc (en_runs s ! i)) \<Longrightarrow> ended pc"
    and cur: "\<not> en_testActive s1 \<Longrightarrow> en_currentTestID s1 = ru_Test (en_runs s ! i) \<and> ended pc
      \<or> \<not> en_testActive s \<and> en_currentTestID s1 = en_currentTestID s"
    and pend: "en_pending s1 = en_pending s" and keep: "set (en_sent s) \<subseteq> set (en_sent s1)"
    and sent: "\<And>t. (t, False) \<in> set (en_sent s1) \<Longrightarrow> (t, False) \<in> set (en_sent s) \<or> t = ru_Test (en_runs s ! i) \<and> ended pc"
    and fin: "is_done pc \<Longrightarrow> (ru_Test (en_runs s ! i), False) \<in> set (en_sent s1)"
  shows "seq_inv (set_pc i pc s1)"
proof -
  have over: "over t s \<Longrightarrow> over t (set_pc i pc s1)" for t
    using mono i len same by (fastforce simp: over_def)
  have own: "ended pc \<Longrightarrow> over (ru_Test (en_runs s ! i)) (set_pc i pc s1)"
    using i len same by (auto simp: over_def intro!: exI [of _ i])
  have others: "j < length (en_runs s) \<Longrightarrow> j \<noteq> i \<Longrightarrow> is_done (ru_pc (en_runs s ! j))" for j
  proof -
    assume j: "j < length (en_runs s)" "j \<noteq> i"
    have "\<forall>k < length (en_runs s). \<not> is_done (ru_pc (en_runs s ! k)) \<longrightarrow> Suc k = length (en_runs s)"
      using inv unfolding seq_inv_def by (elim conjE)
    with i j show ?thesis by (metis Suc_inject)
  qed
  have nf: "is_done p \<Longrightarrow> \<not> holds_flag p \<and> \<not> holds_reporter p" for p by (cases p) auto
  show ?thesis
    unfolding seq_inv_def
  proof (intro conjI allI impI)
    fix j assume "j < length (en_runs (set_pc i pc s1))" "\<not> is_done (ru_pc (en_runs (set_pc i pc s1) ! j))"
    then show "Suc j = length (en_runs (set_pc i pc s1))"
      using others i inv len same by (auto simp: seq_inv_def split: if_splits)
  next
    fix j assume j: "j < length (en_runs (set_pc i pc s1))" "holds_flag (ru_pc (en_runs (set_pc i pc s1) ! j))"
    then have "j = i" using others nf i len same by (auto split: if_splits)
    with j flag i len same show "CurrentTest (set_pc i pc s1) = (ru_Test (en_runs (set_pc i pc s1) ! j), True)"
      "en_testCancel (set_pc i pc s1) = Some j" by (auto simp: CurrentTest_def)
  next
    fix j assume j: "j < length (en_runs (set_pc i pc s1))" "holds_reporter (ru_pc (en_runs (set_pc i pc s1) ! j))"
    then have "j = i" using others nf i len same by (auto split: if_splits)
    with j rep i len same show "en_repTestID (set_pc i pc s1) = ru_Test (en_runs (set_pc i pc s1) ! j)" by auto
  next
    assume "\<not> en_testActive (set_pc i pc s1)"
    then show "over (en_currentTestID (set_pc i pc s1)) (set_pc i pc s1)"
      using cur own over inv by (auto simp: seq_inv_def)
  next
    fix t assume "(t, False) \<in> set (en_pending (set_pc i pc s1)) \<union> set (en_sent (set_pc i pc s1))"
    then show "over t (set_pc i pc s1)" using sent [of t] own over inv pend by (auto simp: seq_inv_def)
  next
    fix j assume "j < length (en_runs (set_pc i pc s1))" "is_done (ru_pc (en_runs (set_pc i pc s1) ! j))"
    then show "(ru_Test (en_runs (set_pc i pc s1) ! j), False) \<in> set (en_sent (set_pc i pc s1))"
      using fin keep inv i len same by (auto simp: seq_inv_def split: if_splits)
  qed
qed

lemma seq_inv_run:
  assumes "seq_inv s" and "\<forall>r \<in> set (en_runs s). is_done (ru_pc r)"
  shows "seq_inv (s\<lparr>en_runs := en_runs s @ [new_run job]\<rparr>)"
proof -
  let ?s = "s\<lparr>en_runs := en_runs s @ [new_run job]\<rparr>"
  have over: "over t s \<Longrightarrow> over t ?s" for t by (auto simp: over_def nth_append)
  have "\<forall>j < length (en_runs s). is_done (ru_pc (en_runs s ! j))" using assms(2) by simp
  moreover have "is_done p \<Longrightarrow> \<not> holds_flag p \<and> \<not> holds_reporter p" for p by (cases p) auto
  ultimately show ?thesis using assms(1) over
    by (auto simp: seq_inv_def CurrentTest_def new_run_def less_Suc_eq nth_append)
qed

lemma seq_inv_frame:
  assumes "seq_inv s" and "en_runs s' = en_runs s" and "CurrentTest s' = CurrentTest s" and "en_testCancel s' = en_testCancel s"
    and "en_repTestID s' = en_repTestID s"
    and "\<And>t. (t, False) \<in> set (en_pending s') \<union> set (en_sent s') \<Longrightarrow> over t s" and "set (en_sent s) \<subseteq> set (en_sent s')"
  shows "seq_inv s'"
proof -
  have "over t s' = over t s" for t by (rule over_cong) (rule assms(2))
  then show ?thesis using assms by (auto simp: seq_inv_def CurrentTest_def)
qed


lemma seq_inv_flag: "seq_inv s \<Longrightarrow> i < length (en_runs s) \<Longrightarrow> holds_flag (ru_pc (en_runs s ! i)) \<Longrightarrow>
    en_currentTestID s = ru_Test (en_runs s ! i) \<and> en_testActive s \<and> en_testCancel s = Some i"
  by (simp add: seq_inv_def CurrentTest_def)

lemma seq_inv_rep: "seq_inv s \<Longrightarrow> i < length (en_runs s) \<Longrightarrow> holds_reporter (ru_pc (en_runs s ! i)) \<Longrightarrow>
    en_repTestID s = ru_Test (en_runs s ! i)"
  by (simp add: seq_inv_def)

lemma seq_inv_step:
  assumes inv: "seq_inv s" and step: "en_step s s'" and valid: "\<forall>i. en_testCancel s = Some i \<longrightarrow> i < length (en_runs s)"
    and seq: "length (en_runs s') = length (en_runs s) \<or> (\<forall>r \<in> set (en_runs s). is_done (ru_pc r))"
  shows "seq_inv s'"
  using step
proof (cases rule: en_step.cases)
  case (tick t)
  then show ?thesis using inv by (intro seq_inv_frame [OF inv]) (auto simp: CurrentTest_def seq_inv_def)
next
  case (run_test req job)
  then show ?thesis using seq_inv_run [OF inv] seq by simp
next
  case (lock i)
  then show ?thesis using seq_inv_flag [OF inv, of i] seq_inv_rep [OF inv, of i] by (auto intro!: seq_inv_move [OF inv] simp: CurrentTest_def)
next
  case (reset i)
  then show ?thesis using seq_inv_flag [OF inv, of i] seq_inv_rep [OF inv, of i] by (auto intro!: seq_inv_move [OF inv] simp: CurrentTest_def)
next
  case (start_reporter i)
  then show ?thesis using seq_inv_flag [OF inv, of i] seq_inv_rep [OF inv, of i] by (auto intro!: seq_inv_move [OF inv] simp: engine_ops)
next
  case (build_users i)
  then show ?thesis using seq_inv_flag [OF inv, of i] seq_inv_rep [OF inv, of i] by (auto intro!: seq_inv_move [OF inv] simp: CurrentTest_def nth_list_update)
next
  case (build_panic i)
  then show ?thesis using seq_inv_flag [OF inv, of i] seq_inv_rep [OF inv, of i] by (auto intro!: seq_inv_move [OF inv] simp: CurrentTest_def)
next
  case (stage_begin i k)
  then show ?thesis using seq_inv_flag [OF inv, of i] seq_inv_rep [OF inv, of i] unfolding enter_stage_def Let_def
    by (auto intro!: seq_inv_move [OF inv] simp: CurrentTest_def)
next
  case (stage_end i k a t)
  then show ?thesis using seq_inv_flag [OF inv, of i] seq_inv_rep [OF inv, of i] unfolding leave_stage_def
    by (auto intro!: seq_inv_move [OF inv] simp: CurrentTest_def)
next
  case (stages_done i k)
  then show ?thesis using seq_inv_flag [OF inv, of i] seq_inv_rep [OF inv, of i] by (auto intro!: seq_inv_move [OF inv] simp: CurrentTest_def)
next
  case (unflag i res)
  then show ?thesis using seq_inv_flag [OF inv, of i] seq_inv_rep [OF inv, of i] by (auto intro!: seq_inv_move [OF inv] simp: CurrentTest_def)
next
  case (stop_loop i res)
  then show ?thesis using seq_inv_flag [OF inv, of i] seq_inv_rep [OF inv, of i] by (auto intro!: seq_inv_move [OF inv] simp: ReporterStop_def split: option.splits)
next
  case (final_report i res)
  then show ?thesis using seq_inv_flag [OF inv, of i] seq_inv_rep [OF inv, of i] by (auto intro!: seq_inv_move [OF inv] simp: report_def)
next
  case (loop_report i)
  then show ?thesis using inv by (intro seq_inv_frame [OF inv]) (auto simp: CurrentTest_def seq_inv_def report_def)
next
  case keep_alive_read
  then show ?thesis using inv by (intro seq_inv_frame [OF inv]) (auto simp: CurrentTest_def seq_inv_def)
next
  case (keep_alive_send b)
  then show ?thesis using inv
    by (intro seq_inv_frame [OF inv]) (auto simp: CurrentTest_def seq_inv_def dest: set_remove1_subset [THEN subsetD])
next
  case (stop_test testID)
  show ?thesis
  proof (cases "en_testCancel s")
    case None
    then show ?thesis using stop_test inv by (simp add: WorkerStopTest_def EngineStopTest_def)
  next
    case (Some i)
    have "over t (cancel_run i s) = over t s" for t using Some valid by (auto simp: over_def)
    moreover have i: "i < length (en_runs s)" using Some valid by simp
    moreover have "ru_Test (en_runs (cancel_run i s) ! j) = ru_Test (en_runs s ! j)"
      "ru_pc (en_runs (cancel_run i s) ! j) = ru_pc (en_runs s ! j)" for j using i by simp_all
    ultimately have "seq_inv (cancel_run i s) = seq_inv s"
      by (simp only: seq_inv_def CurrentTest_def cancel_run_simps)
    then show ?thesis using stop_test Some inv by (simp add: WorkerStopTest_def EngineStopTest_def)
  qed
qed

lemma seq_inv_reach: "en_reach False s \<Longrightarrow> seq_inv s"
proof (induction rule: en_reach.induct)
  case (step s s')
  show ?case
    by (rule seq_inv_step [OF step(5) step(3) testCancel_valid [OF step(1)]]) (use step(4) in auto)
qed (rule seq_inv_init)

section \<open>The time a test takes\<close>

abbreviation durations :: "stage list \<Rightarrow> int" where
  "durations sts \<equiv> sum_list (map st_Duration sts)"

fun time_ok :: "go_time \<Rightarrow> go_time \<Rightarrow> stage list \<Rightarrow> run_pc \<Rightarrow> bool" where
  "time_ok now b sts (NextStage k) = (b + durations (take k sts) \<le> now)"
| "time_ok now b sts (InStage k a t) = (b + durations (take k sts) \<le> t \<and> k < length sts)"
| "time_ok now b sts (Leaving ROk) = (b + durations sts \<le> now)"
| "time_ok now b sts (Unflagged ROk) = (b + durations sts \<le> now)"
| "time_ok now b sts (LoopStopped ROk) = (b + durations sts \<le> now)"
| "time_ok now b sts (Done ROk) = (b + durations sts \<le> now)"
| "time_ok now b sts pc = True"

definition times_ok :: "engine \<Rightarrow> bool" where
  "times_ok s \<longleftrightarrow> (\<forall>i < length (en_runs s). let r = en_runs s ! i in time_ok (en_now s) (ru_began r) (stages_of r) (ru_pc r))"

lemma time_ok_later: "now \<le> now' \<Longrightarrow> time_ok now b sts pc \<Longrightarrow> time_ok now' b sts pc"
  by (cases "(now, b, sts, pc)" rule: time_ok.cases) auto

lemma durations_Suc: "k < length sts \<Longrightarrow> durations (take (Suc k) sts) = durations (take k sts) + st_Duration (sts ! k)"
  by (simp add: take_Suc_conv_app_nth)

lemma times_ok_step:
  assumes "times_ok s" and "en_step s s'" and valid: "\<forall>i. en_testCancel s = Some i \<longrightarrow> i < length (en_runs s)"
  shows "times_ok s'"
  using assms(2)
proof (cases rule: en_step.cases)
  case (tick t)
  then show ?thesis using assms(1) time_ok_later [OF tick(2)] by (simp add: times_ok_def Let_def)
next
  case (run_test req job)
  then show ?thesis using assms(1) by (auto simp: times_ok_def Let_def nth_append new_run_def less_Suc_eq)
next
  case (stage_end i k a t)
  have "time_ok (en_now s) (ru_began (en_runs s ! i)) (stages_of (en_runs s ! i)) (InStage k a t)"
    using assms(1) stage_end by (auto simp: times_ok_def Let_def)
  then have "\<not> ru_cancelled (en_runs s ! i) \<Longrightarrow>
      time_ok (en_now s) (ru_began (en_runs s ! i)) (stages_of (en_runs s ! i)) (NextStage (Suc k))"
    using stage_end(4) by (auto simp: durations_Suc)
  with stage_end assms(1) show ?thesis by (auto simp: times_ok_def leave_stage_def Let_def)
next
  case (stages_done i k)
  then have "time_ok (en_now s) (ru_began (en_runs s ! i)) (stages_of (en_runs s ! i)) (NextStage k)"
    using assms(1) by (auto simp: times_ok_def Let_def)
  with stages_done assms(1) show ?thesis by (auto simp: times_ok_def Let_def)
next
  case (unflag i res)
  then have "time_ok (en_now s) (ru_began (en_runs s ! i)) (stages_of (en_runs s ! i)) (Leaving res)"
    using assms(1) by (auto simp: times_ok_def Let_def)
  with unflag assms(1) show ?thesis by (cases res) (auto simp: times_ok_def Let_def)
next
  case (stop_loop i res)
  then have "time_ok (en_now s) (ru_began (en_runs s ! i)) (stages_of (en_runs s ! i)) (Unflagged res)"
    using assms(1) by (auto simp: times_ok_def Let_def)
  with stop_loop assms(1) show ?thesis
    by (cases res) (auto simp: times_ok_def ReporterStop_def Let_def split: option.splits)
next
  case (final_report i res)
  then have "time_ok (en_now s) (ru_began (en_runs s ! i)) (stages_of (en_runs s ! i)) (LoopStopped res)"
    using assms(1) by (auto simp: times_ok_def Let_def)
  with final_report assms(1) show ?thesis by (cases res) (auto simp: times_ok_def report_def Let_def)
next
  case (stop_test testID)
  then show ?thesis using assms(1) valid
    by (auto simp: times_ok_def Let_def WorkerStopTest_def EngineStopTest_def split: option.splits)
qed (use assms(1) in \<open>auto simp: times_ok_def Let_def engine_ops nth_list_update split: option.splits\<close>)

lemma times_ok_reach: "en_reach ov s \<Longrightarrow> times_ok s"
proof (induction rule: en_reach.induct)
  case (step s s')
  then show ?case using times_ok_step testCancel_valid by blast
qed (simp add: times_ok_def NewEngine_def)

section \<open>The active users\<close>

fun users_of :: "run_pc \<Rightarrow> int" where
  "users_of (InStage k a t) = max 0 a"
| "users_of _ = 0"

definition users_ok :: "engine \<Rightarrow> bool" where
  "users_ok s \<longleftrightarrow> en_activeVUs s = i32 (sum_list (map (\<lambda>r. users_of (ru_pc r)) (en_runs s)))"

lemma sum_update: "i < length xs \<Longrightarrow> sum_list (map f (xs[i := x])) = sum_list (map f xs) - f (xs ! i) + (f x :: int)"
  by (induction xs arbitrary: i) (auto split: nat.split)

lemma users_set_pc:
  "i < length (en_runs s) \<Longrightarrow> sum_list (map (\<lambda>r. users_of (ru_pc r)) (en_runs (set_pc i pc s))) =
     sum_list (map (\<lambda>r. users_of (ru_pc r)) (en_runs s)) - users_of (ru_pc (en_runs s ! i)) + users_of pc"
  by (simp add: set_pc_def sum_update)

lemma users_cancel:
  "i < length (en_runs s) \<Longrightarrow> sum_list (map (\<lambda>r. users_of (ru_pc r)) (en_runs (cancel_run i s))) =
     sum_list (map (\<lambda>r. users_of (ru_pc r)) (en_runs s))"
  by (simp add: cancel_run_def sum_update)

lemma i32_i32_diff: "i32 (i32 a - b) = i32 (a - b)"
  using i32_i32_add [of a "- b"] by simp

lemma users_ok_step:
  assumes "users_ok s" and "en_step s s'" and valid: "\<forall>i. en_testCancel s = Some i \<longrightarrow> i < length (en_runs s)"
  shows "users_ok s'"
  using assms(2)
proof (cases rule: en_step.cases)
  case (stage_begin i k)
  then show ?thesis using assms(1) by (simp add: users_ok_def enter_stage_def Let_def users_set_pc i32_i32_add)
next
  case (stage_end i k a t)
  then show ?thesis using assms(1) by (simp add: users_ok_def leave_stage_def users_set_pc i32_i32_diff)
next
  case (stop_test testID)
  then show ?thesis using assms(1) valid
    by (auto simp: users_ok_def WorkerStopTest_def EngineStopTest_def users_cancel split: option.splits) (simp add: cancel_run_def)
next
  case (final_report i res)
  then show ?thesis using assms(1)
    by (simp add: users_ok_def users_set_pc users_cancel report_def) (simp add: cancel_run_def)
next
  case (build_users i)
  then show ?thesis using assms(1) by (simp add: users_ok_def users_set_pc sum_update)
qed (use assms(1) in \<open>auto simp: users_ok_def users_set_pc new_run_def ReporterStart_def ReporterStop_def report_def split: option.splits\<close>)

lemma users_ok_reach: "en_reach ov s \<Longrightarrow> users_ok s"
proof (induction rule: en_reach.induct)
  case (step s s')
  then show ?case using users_ok_step testCancel_valid by blast
qed (simp add: users_ok_def NewEngine_def i32_def)

section \<open>Every test ends\<close>

text \<open>The steps a run has left.\<close>

fun steps_left :: "nat \<Rightarrow> run_pc \<Rightarrow> nat" where
  "steps_left n Spawned = 2 * n + 8"
| "steps_left n Locked = 2 * n + 7"
| "steps_left n WasReset = 2 * n + 6"
| "steps_left n Reporting = 2 * n + 5"
| "steps_left n (NextStage k) = 2 * (n - k) + 4"
| "steps_left n (InStage k a t) = 2 * (n - Suc k) + 5"
| "steps_left n (Leaving r) = 3"
| "steps_left n (Unflagged r) = 2"
| "steps_left n (LoopStopped r) = 1"
| "steps_left n (Done r) = 0"

abbreviation left_of :: "engine_run \<Rightarrow> nat" where
  "left_of r \<equiv> steps_left (length (stages_of r)) (ru_pc r)"

definition advances :: "nat \<Rightarrow> engine \<Rightarrow> engine \<Rightarrow> bool" where
  "advances i s s' \<longleftrightarrow> length (en_runs s') = length (en_runs s)
     \<and> ru_Test (en_runs s' ! i) = ru_Test (en_runs s ! i) \<and> stages_of (en_runs s' ! i) = stages_of (en_runs s ! i)
     \<and> left_of (en_runs s' ! i) < left_of (en_runs s ! i)"

lemma run_advances:
  assumes "i < length (en_runs s)" and "\<not> is_done (ru_pc (en_runs s ! i))" and "times_ok s"
    and wait: "\<forall>k a t. ru_pc (en_runs s ! i) = InStage k a t \<longrightarrow> t + st_Duration (stages_of (en_runs s ! i) ! k) \<le> en_now s"
  shows "\<exists>s'. en_step s s' \<and> advances i s s'"
proof (cases "ru_pc (en_runs s ! i)")
  case Spawned
  from en_step.lock [OF assms(1) Spawned] show ?thesis
    using assms(1) Spawned by (intro exI conjI) (auto simp: advances_def)
next
  case Locked
  from en_step.reset [OF assms(1) Locked] show ?thesis
    using assms(1) Locked by (intro exI conjI) (auto simp: advances_def)
next
  case WasReset
  from en_step.start_reporter [OF assms(1) WasReset] show ?thesis
    using assms(1) WasReset by (intro exI conjI) (auto simp: advances_def ReporterStart_def)
next
  case Reporting
  show ?thesis
  proof (cases "0 \<le> ru_Assigned (en_runs s ! i)")
    case True
    from en_step.build_users [OF assms(1) Reporting True] show ?thesis
      using assms(1) Reporting by (intro exI conjI) (auto simp: advances_def)
  next
    case False
    with en_step.build_panic [OF assms(1) Reporting] show ?thesis
      using assms(1) Reporting by (intro exI [of _ "set_pc i (Leaving RPanic) s"] conjI) (auto simp: advances_def)
  qed
next
  case (NextStage k)
  show ?thesis
  proof (cases "k < length (stages_of (en_runs s ! i))")
    case True
    from en_step.stage_begin [OF assms(1) NextStage True] show ?thesis
      using assms(1) NextStage True by (intro exI conjI) (auto simp: advances_def enter_stage_def Let_def)
  next
    case False
    from en_step.stages_done [OF assms(1) NextStage False] show ?thesis
      using assms(1) NextStage by (intro exI conjI) (auto simp: advances_def)
  qed
next
  case (InStage k a t)
  have "k < length (stages_of (en_runs s ! i))" using assms(1,3) InStage by (auto simp: times_ok_def Let_def)
  with en_step.stage_end [OF assms(1) InStage] wait InStage assms(1) show ?thesis
    by (intro exI conjI) (auto simp: advances_def leave_stage_def)
next
  case (Leaving r)
  from en_step.unflag [OF assms(1) Leaving] show ?thesis
    using assms(1) Leaving by (intro exI conjI) (auto simp: advances_def)
next
  case (Unflagged r)
  from en_step.stop_loop [OF assms(1) Unflagged] show ?thesis
    using assms(1) Unflagged by (intro exI conjI) (auto simp: advances_def ReporterStop_def split: option.splits)
next
  case (LoopStopped r)
  from en_step.final_report [OF assms(1) LoopStopped] show ?thesis
    using assms(1) LoopStopped by (intro exI conjI) (auto simp: advances_def report_def)
next
  case (Done r)
  then show ?thesis using assms(2) by simp
qed

lemma run_ends_aux:
  "en_reach ov s \<Longrightarrow> \<not> en_crashed s \<Longrightarrow> i < length (en_runs s) \<Longrightarrow>
   \<exists>s'. en_reach ov s' \<and> length (en_runs s') = length (en_runs s) \<and> ru_Test (en_runs s' ! i) = ru_Test (en_runs s ! i)
     \<and> is_done (ru_pc (en_runs s' ! i))"
proof (induction "left_of (en_runs s ! i)" arbitrary: s rule: less_induct)
  case less
  show ?case
  proof (cases "is_done (ru_pc (en_runs s ! i))")
    case True
    with less.prems show ?thesis by blast
  next
    case nd: False
    define t where "t = (case ru_pc (en_runs s ! i) of
        InStage k a t \<Rightarrow> max (en_now s) (t + st_Duration (stages_of (en_runs s ! i) ! k)) | _ \<Rightarrow> en_now s)"
    let ?s = "s\<lparr>en_now := t\<rparr>"
    have "en_step s ?s" by (rule en_step.tick) (simp add: t_def split: run_pc.split)
    then have r: "en_reach ov ?s" by (rule en_reach.step [OF less.prems(1,2)]) simp
    have "\<exists>s'. en_step ?s s' \<and> advances i ?s s'"
      using less.prems(3) nd times_ok_reach [OF r] by (intro run_advances) (auto simp: t_def)
    then obtain s' where st: "en_step ?s s'" and adv: "advances i ?s s'" by blast
    have r': "en_reach ov s'"
      by (rule en_reach.step [OF r _ st]) (use less.prems(2) adv in \<open>auto simp: advances_def\<close>)
    show ?thesis
    proof (cases "is_done (ru_pc (en_runs s' ! i))")
      case True
      with r' adv show ?thesis by (intro exI [of _ s']) (auto simp: advances_def)
    next
      case False
      have "\<not> en_crashed s'"
        using st adv False less.prems(2,3) by (cases rule: en_step.cases) (auto simp: engine_ops advances_def split: option.splits if_splits)
      with less.hyps [of s'] r' adv less.prems(3) show ?thesis by (auto simp: advances_def)
    qed
  qed
qed

section \<open>Starting a test\<close>

text \<open>The steps of a run from its start to its first stage.\<close>

definition started :: "nat \<Rightarrow> engine \<Rightarrow> engine" where
  "started i s = (let r = en_runs s ! i in
     (ReporterStart i (ru_Test r) (s\<lparr>en_currentTestID := ru_Test r, en_testActive := True, en_testCancel := Some i\<rparr>))
       \<lparr>en_virtualUsers := nat (ru_Assigned r),
        en_runs := (en_runs s)[i := r\<lparr>ru_began := en_now s, ru_pc := NextStage 0\<rparr>]\<rparr>)"

lemma start_run:
  assumes "en_reach ov s" and "\<not> en_crashed s" and "i < length (en_runs s)"
    and "ru_pc (en_runs s ! i) = Spawned" and "0 \<le> ru_Assigned (en_runs s ! i)"
  shows "en_reach ov (started i s)"
proof -
  let ?r = "en_runs s ! i"
  define s1 where "s1 = set_pc i Locked (s\<lparr>en_currentTestID := ru_Test ?r, en_testActive := True, en_testCancel := Some i\<rparr>)"
  define s2 where "s2 = set_pc i WasReset s1"
  define s3 where "s3 = set_pc i Reporting (ReporterStart i (ru_Test (en_runs s2 ! i)) s2)"
  define s4 where "s4 = set_pc i (NextStage 0) (s3\<lparr>en_virtualUsers := nat (ru_Assigned (en_runs s3 ! i)),
      en_runs := (en_runs s3)[i := (en_runs s3 ! i)\<lparr>ru_began := en_now s3\<rparr>]\<rparr>)"
  have "en_step s s1" unfolding s1_def using assms by (intro en_step.lock)
  then have r1: "en_reach ov s1" by (rule en_reach.step [OF assms(1,2)]) (simp add: s1_def)
  have "en_step s1 s2" unfolding s2_def using assms by (intro en_step.reset) (simp_all add: s1_def)
  then have r2: "en_reach ov s2" by (rule en_reach.step [OF r1, rotated]) (use assms in \<open>simp_all add: s2_def s1_def\<close>)
  have "en_step s2 s3" unfolding s3_def using assms by (intro en_step.start_reporter) (simp_all add: s1_def s2_def)
  then have r3: "en_reach ov s3" by (rule en_reach.step [OF r2, rotated]) (use assms in \<open>simp_all add: s3_def s2_def s1_def ReporterStart_def\<close>)
  have "en_step s3 s4" unfolding s4_def using assms
    by (intro en_step.build_users) (simp_all add: s1_def s2_def s3_def ReporterStart_def)
  then have "en_reach ov s4"
    by (rule en_reach.step [OF r3, rotated]) (use assms in \<open>simp_all add: s4_def s3_def s2_def s1_def ReporterStart_def\<close>)
  moreover have "s4 = started i s"
    using assms(3) by (simp add: s4_def s3_def s2_def s1_def started_def ReporterStart_def set_pc_def Let_def nth_list_update split: option.split)
  ultimately show ?thesis by simp
qed

definition demo_run_request :: "string \<Rightarrow> run_request" where
  "demo_run_request t = \<lparr>rn_TestId = t,
     rn_Plan = Some \<lparr>ptp_Id = '''', ptp_Name = '''', ptp_Stages = [\<lparr>pst_Duration = ''0'', pst_TargetVus = 1, pst_RampUp = ''''\<rparr>],
       ptp_Http = None, ptp_Variables = [], ptp_TotalVirtualUsers = 0\<rparr>, rn_AssignedVus = 1, rn_WorkerId = ''''\<rparr>"

definition demo_job_plan :: test_plan where
  "demo_job_plan = \<lparr>tp_ID = '''', tp_Name = '''', tp_Stages = [\<lparr>st_Duration = 0, st_TargetVUs = 1, st_RampUp = 0\<rparr>],
     tp_HTTP = \<lparr>hc_BaseURL = '''', hc_Requests = [], hc_Headers = [], hc_Timeout = 0\<rparr>, tp_Variables = [], tp_TotalVirtualUsers = 0\<rparr>"

lemma demo_accepted: "WorkerRunTest (demo_run_request t) = (Inr (), Some (t, demo_job_plan, 1))"
proof -
  have "parse_duration ''0'' = Inr 0" by (simp add: parse_duration_def)
  then show ?thesis
    by (simp add: WorkerRunTest_def demo_run_request_def convertProtoPlan_def demo_job_plan_def)
qed

text \<open>The first test runs through its only stage; the second is started before it is over.\<close>

definition demo_first :: engine where
  "demo_first = started 0 ((NewEngine 0)\<lparr>en_runs := [new_run (''a'', demo_job_plan, 1)]\<rparr>)"

lemma demo_first_reach: "en_reach ov demo_first"
proof -
  let ?s = "(NewEngine 0)\<lparr>en_runs := [new_run (''a'', demo_job_plan, 1)]\<rparr>"
  have "en_step (NewEngine 0) ?s" using en_step.run_test [OF demo_accepted, of "NewEngine 0"] by (simp add: NewEngine_def)
  then have "en_reach ov ?s" by (rule en_reach.step [OF en_reach.init, rotated]) (simp_all add: NewEngine_def)
  then show ?thesis unfolding demo_first_def by (rule start_run) (simp_all add: NewEngine_def new_run_def)
qed

definition demo_over :: engine where
  "demo_over = set_pc 0 (Leaving ROk) (leave_stage 0 0 1 (enter_stage 0 0 demo_first))"

lemmas demo_states = demo_first_def demo_over_def started_def NewEngine_def new_run_def ReporterStart_def enter_stage_def
  leave_stage_def set_pc_def cancel_run_def demo_job_plan_def stage_vus_def Let_def

lemma demo_over_reach: "en_reach ov demo_over"
proof -
  let ?s1 = "enter_stage 0 0 demo_first"
  let ?s2 = "leave_stage 0 0 1 ?s1"
  have "en_step demo_first ?s1" by (rule en_step.stage_begin) (simp_all add: demo_states)
  then have r1: "en_reach ov ?s1" by (rule en_reach.step [OF demo_first_reach, rotated]) (simp_all add: demo_states)
  have "en_step ?s1 ?s2" by (rule en_step.stage_end [where t = 0]) (simp_all add: demo_states)
  then have r2: "en_reach ov ?s2" by (rule en_reach.step [OF r1, rotated]) (simp_all add: demo_states)
  have "en_step ?s2 demo_over" unfolding demo_over_def by (rule en_step.stages_done [where k = 1]) (simp_all add: demo_states)
  then show ?thesis by (rule en_reach.step [OF r2, rotated]) (simp_all add: demo_states)
qed

definition demo_done :: "nat \<Rightarrow> engine \<Rightarrow> engine" where
  "demo_done i s = (let s1 = set_pc i (Unflagged ROk) (s\<lparr>en_testActive := False\<rparr>); s2 = set_pc i (LoopStopped ROk) (ReporterStop s1)
     in set_pc i (Done ROk) (cancel_run i ((report False s2)\<lparr>en_crashed := False\<rparr>)))"

lemma demo_done_reach:
  assumes "en_reach ov s" and "\<not> en_crashed s" and "i < length (en_runs s)" and "ru_pc (en_runs s ! i) = Leaving ROk"
  shows "en_reach ov (demo_done i s)"
proof -
  let ?s1 = "set_pc i (Unflagged ROk) (s\<lparr>en_testActive := False\<rparr>)"
  let ?s2 = "set_pc i (LoopStopped ROk) (ReporterStop ?s1)"
  have rs: "en_runs (ReporterStop t) = en_runs t" "en_crashed (ReporterStop t) = en_crashed t" for t
    by (simp_all add: ReporterStop_def split: option.split)
  have "en_step s ?s1" using assms by (intro en_step.unflag)
  then have r1: "en_reach ov ?s1" by (rule en_reach.step [OF assms(1,2)]) simp
  have "en_step ?s1 ?s2" using assms by (intro en_step.stop_loop) simp_all
  then have r2: "en_reach ov ?s2" by (rule en_reach.step [OF r1, rotated]) (use assms rs in simp_all)
  have "en_step ?s2 (demo_done i s)"
    using en_step.final_report [of i ?s2 ROk] assms rs by (simp add: demo_done_def Let_def)
  then show ?thesis
    by (rule en_reach.step [OF r2, rotated]) (use assms rs in \<open>simp_all add: demo_done_def Let_def report_def\<close>)
qed

section \<open>Properties\<close>

text \<open>C12: safety. As long as a worker runs one test at a time, it tells the orchestrator that a test is
  over only after that test's stages are over, and every test that has ended has been reported:
  this is what the orchestrator's count of finished workers relies on. It holds whatever the
  keep-alive, the reporter's loop, stops and the clock do in between.\<close>

theorem worker_reports_exactly:
  assumes "en_reach False s"
  shows "(\<forall>t. t \<noteq> '''' \<and> (t, False) \<in> set (en_sent s) \<longrightarrow>
            (\<exists>r \<in> set (en_runs s). ru_Test r = t \<and> ended (ru_pc r)))
     \<and> (\<forall>r \<in> set (en_runs s). is_done (ru_pc r) \<longrightarrow> (ru_Test r, False) \<in> set (en_sent s))"
proof -
  from seq_inv_reach [OF assms] have inv: "seq_inv s" .
  have "over t s \<Longrightarrow> t \<noteq> '''' \<Longrightarrow> \<exists>r \<in> set (en_runs s). ru_Test r = t \<and> ended (ru_pc r)" for t
    unfolding over_def by (metis nth_mem)
  moreover have "(t, False) \<in> set (en_sent s) \<Longrightarrow> over t s" for t using inv by (simp add: seq_inv_def)
  moreover have "r \<in> set (en_runs s) \<Longrightarrow> is_done (ru_pc r) \<Longrightarrow> (ru_Test r, False) \<in> set (en_sent s)" for r
    using inv unfolding seq_inv_def by (metis in_set_conv_nth)
  ultimately show ?thesis by blast
qed

theorem worker_reports_exactly_witness:
  "\<exists>s. en_reach False s \<and> (''a'', False) \<in> set (en_sent s) \<and> (\<exists>r \<in> set (en_runs s). ru_Test r = ''a'' \<and> ended (ru_pc r))"
proof -
  let ?s = "demo_done 0 demo_over"
  have r: "en_reach False ?s" by (rule demo_done_reach [OF demo_over_reach]) (simp_all add: demo_states)
  have "(''a'', False) \<in> set (en_sent ?s)"
    by (simp add: demo_done_def report_def ReporterStop_def demo_states)
  with worker_reports_exactly [OF r] r show ?thesis by blast
qed

text \<open>Safety. Two tests on one worker at a time break this: the engine has one current test and one
  reporter, so the end of the first test reports the second one as finished while it is in its
  first stage and nobody has stopped it.\<close>

theorem overlapping_tests_misreport:
  "\<exists>s. en_reach True s \<and> map ru_Test (en_runs s) = [''a'', ''b'']
     \<and> (\<exists>a t. ru_pc (en_runs s ! 1) = InStage 0 a t) \<and> \<not> ru_cancelled (en_runs s ! 1) \<and> (''b'', False) \<in> set (en_sent s)"
proof -
  let ?s1 = "demo_over\<lparr>en_runs := en_runs demo_over @ [new_run (''b'', demo_job_plan, 1)]\<rparr>"
  let ?s2 = "enter_stage 1 0 (started 1 ?s1)"
  have "en_step demo_over ?s1" by (rule en_step.run_test [OF demo_accepted])
  then have "en_reach True ?s1" by (rule en_reach.step [OF demo_over_reach, rotated]) (simp_all add: demo_states)
  then have r: "en_reach True (started 1 ?s1)" by (rule start_run) (simp_all add: demo_states)
  have "en_step (started 1 ?s1) ?s2" by (rule en_step.stage_begin) (simp_all add: demo_states)
  then have "en_reach True ?s2" by (rule en_reach.step [OF r, rotated]) (simp_all add: demo_states)
  then have "en_reach True (demo_done 0 ?s2)" by (rule demo_done_reach) (simp_all add: demo_states)
  then show ?thesis
    by (intro exI [of _ "demo_done 0 ?s2"]) (simp add: demo_done_def report_def ReporterStop_def demo_states)
qed



text \<open>Functional. A test that ends without an error has held every one of its stages for its full
  duration, however soon the virtual users were done, and the count of active users a worker
  reports is always the sum over the stages in progress.\<close>

theorem completed_test_took_its_time:
  assumes "en_reach ov s"
  shows "(\<forall>r \<in> set (en_runs s). ru_pc r = Done ROk \<longrightarrow> ru_began r + sum_list (map st_Duration (stages_of r)) \<le> en_now s)
     \<and> GetActiveVUs s = i32 (sum_list (map (\<lambda>r. users_of (ru_pc r)) (en_runs s)))"
proof -
  have "r \<in> set (en_runs s) \<Longrightarrow> ru_pc r = Done ROk \<Longrightarrow> ru_began r + durations (stages_of r) \<le> en_now s" for r
    using times_ok_reach [OF assms] by (auto simp: times_ok_def Let_def in_set_conv_nth)
  with users_ok_reach [OF assms] show ?thesis by (simp add: users_ok_def GetActiveVUs_def)
qed

theorem completed_test_took_its_time_witness:
  "en_reach True (demo_done 0 demo_over) \<and> ru_pc (en_runs (demo_done 0 demo_over) ! 0) = Done ROk
   \<and> GetActiveVUs (demo_done 0 demo_over) = i32 (sum_list (map (\<lambda>r. users_of (ru_pc r)) (en_runs (demo_done 0 demo_over))))"
proof -
  have r: "en_reach True (demo_done 0 demo_over)" by (rule demo_done_reach [OF demo_over_reach]) (simp_all add: demo_states)
  have "ru_pc (en_runs (demo_done 0 demo_over) ! 0) = Done ROk"
    by (simp add: demo_done_def report_def ReporterStop_def demo_states)
  with completed_test_took_its_time [OF r] r show ?thesis by simp
qed

section \<open>Stopping\<close>

fun stage_no :: "run_pc \<Rightarrow> nat option" where
  "stage_no (NextStage k) = Some k"
| "stage_no (InStage k a t) = Some k"
| "stage_no _ = None"

fun past_stages :: "run_pc \<Rightarrow> bool" where
  "past_stages (Leaving r) = True"
| "past_stages pc = ended pc"

definition stuck_at :: "nat \<Rightarrow> nat \<Rightarrow> engine \<Rightarrow> bool" where
  "stuck_at i k s \<longleftrightarrow> i < length (en_runs s) \<and> ru_cancelled (en_runs s ! i)
     \<and> (stage_no (ru_pc (en_runs s ! i)) = Some k \<or> past_stages (ru_pc (en_runs s ! i)))"

lemma stuck_step:
  assumes "stuck_at i k s" and "en_step s s'" and valid: "\<forall>i. en_testCancel s = Some i \<longrightarrow> i < length (en_runs s)"
  shows "stuck_at i k s'"
  using assms(2)
proof (cases rule: en_step.cases)
  case (run_test req job)
  then show ?thesis using assms(1) by (auto simp: stuck_at_def nth_append)
next
  case (stop_test testID)
  then show ?thesis using assms(1) valid
    by (auto simp: stuck_at_def WorkerStopTest_def EngineStopTest_def split: option.splits)
qed (use assms(1) in \<open>auto simp: stuck_at_def engine_ops nth_list_update split: option.splits if_splits\<close>)

text \<open>Further steps from a state.\<close>

inductive en_steps :: "bool \<Rightarrow> engine \<Rightarrow> engine \<Rightarrow> bool" for overlap where
  refl: "en_steps overlap s s"
| step: "en_steps overlap s s' \<Longrightarrow> \<not> en_crashed s' \<Longrightarrow> en_step s' s'' \<Longrightarrow>
    overlap \<or> length (en_runs s'') = length (en_runs s') \<or> (\<forall>r \<in> set (en_runs s'). is_done (ru_pc r)) \<Longrightarrow>
    en_steps overlap s s''"

lemma valid_step: "en_step s s' \<Longrightarrow> \<forall>i. en_testCancel s = Some i \<longrightarrow> i < length (en_runs s) \<Longrightarrow>
    \<forall>i. en_testCancel s' = Some i \<longrightarrow> i < length (en_runs s')"
  by (cases rule: en_step.cases) (auto simp: engine_ops split: option.splits intro: less_SucI)

lemma stuck_steps: "en_steps ov s s' \<Longrightarrow> \<forall>i. en_testCancel s = Some i \<longrightarrow> i < length (en_runs s) \<Longrightarrow> stuck_at i k s \<Longrightarrow>
    stuck_at i k s' \<and> (\<forall>i. en_testCancel s' = Some i \<longrightarrow> i < length (en_runs s'))"
proof (induction rule: en_steps.induct)
  case (step s s' s'')
  then show ?case using stuck_step valid_step by metis
qed simp

text \<open>Safety. With one test at a time, a stop reaches the test that is running: its context is
  cancelled, and whatever happens afterwards that run never begins another stage; when the
  stage it is in ends, the run fails. No other run is touched.\<close>

theorem stop_reaches_the_running_test:
  assumes "en_reach False s" and "i < length (en_runs s)" and "stage_no (ru_pc (en_runs s ! i)) = Some k"
    and "en_steps False (snd (WorkerStopTest testID s)) s'"
  shows "ru_cancelled (en_runs s' ! i) \<and> (stage_no (ru_pc (en_runs s' ! i)) = Some k \<or> past_stages (ru_pc (en_runs s' ! i)))
     \<and> (\<forall>j. j \<noteq> i \<longrightarrow> en_runs (snd (WorkerStopTest testID s)) ! j = en_runs s ! j)"
proof -
  let ?s = "snd (WorkerStopTest testID s)"
  have "holds_flag (ru_pc (en_runs s ! i))" using assms(3) by (cases "ru_pc (en_runs s ! i)") auto
  with seq_inv_flag [OF seq_inv_reach [OF assms(1)] assms(2)] have c: "en_testCancel s = Some i" by simp
  have v: "\<forall>i. en_testCancel ?s = Some i \<longrightarrow> i < length (en_runs ?s)"
    by (rule valid_step [OF en_step.stop_test testCancel_valid [OF assms(1)]])
  have "stuck_at i k ?s" using c assms(2,3) by (simp add: stuck_at_def WorkerStopTest_def EngineStopTest_def)
  with stuck_steps [OF assms(4) v] have "stuck_at i k s'" by blast
  with c assms(2) show ?thesis by (auto simp: stuck_at_def WorkerStopTest_def EngineStopTest_def)
qed

theorem stop_reaches_the_running_test_witness:
  "ru_cancelled (en_runs (snd (WorkerStopTest ''a'' (enter_stage 0 0 demo_first))) ! 0)"
proof -
  have "en_step demo_first (enter_stage 0 0 demo_first)" by (rule en_step.stage_begin) (simp_all add: demo_states)
  then have r: "en_reach False (enter_stage 0 0 demo_first)"
    by (rule en_reach.step [OF demo_first_reach, rotated]) (simp_all add: demo_states)
  have "0 < length (en_runs (enter_stage 0 0 demo_first))" "stage_no (ru_pc (en_runs (enter_stage 0 0 demo_first) ! 0)) = Some 0"
    by (simp_all add: demo_states)
  from stop_reaches_the_running_test [OF r this en_steps.refl] show ?thesis by blast
qed

text \<open>A stop that arrives after a test was accepted but before its goroutine has stored
  its cancel function is answered as a success and lost: the run goes on uncancelled.\<close>

theorem early_stop_is_lost:
  "\<exists>s. en_reach False s \<and> map ru_Test (en_runs s) = [''a''] \<and> ru_pc (en_runs s ! 0) = Spawned
     \<and> sr_Success (fst (WorkerStopTest ''a'' s)) \<and> \<not> ru_cancelled (en_runs (snd (WorkerStopTest ''a'' s)) ! 0)"
proof -
  let ?s = "(NewEngine 0)\<lparr>en_runs := [new_run (''a'', demo_job_plan, 1)]\<rparr>"
  have "en_step (NewEngine 0) ?s" using en_step.run_test [OF demo_accepted, of "NewEngine 0"] by (simp add: NewEngine_def)
  then have "en_reach False ?s" by (rule en_reach.step [OF en_reach.init, rotated]) (simp_all add: NewEngine_def)
  then show ?thesis
    by (intro exI [of _ ?s]) (simp add: NewEngine_def new_run_def WorkerStopTest_def EngineStopTest_def)
qed

section \<open>The users of a stage\<close>

text \<open>The users a stage starts never exceed the share the orchestrator sent, the users
  allocated for the test or the slice of built users, and they are exactly the smallest of the
  three, so the loop never indexes past the slice.\<close>

theorem stage_vus_exact:
  assumes "in32 (st_TargetVUs stg)" and "in32 total_vus"
  shows "stage_vus stg total_vus built = min (st_TargetVUs stg) (min total_vus (int built))"
  using assms by (auto simp: stage_vus_def Let_def min_def i32_id in32_def)

theorem stage_vus_exact_witness:
  "stage_vus \<lparr>st_Duration = 0, st_TargetVUs = 7, st_RampUp = 0\<rparr> 5 5 = 5"
  using stage_vus_exact [of "\<lparr>st_Duration = 0, st_TargetVUs = 7, st_RampUp = 0\<rparr>" 5 5] by (simp add: in32_def)

section \<open>The other handlers\<close>

definition WorkerHeartbeat :: "bool \<times> string" where
  "WorkerHeartbeat = (True, ''heartbeat received'')"

record pb_worker_status =
  pws_Status :: string
  pws_ActiveVus :: int32
  pws_UptimeSeconds :: int64

definition WorkerGetStatus :: "go_time \<Rightarrow> go_time \<Rightarrow> engine \<Rightarrow> pb_worker_status" where
  "WorkerGetStatus now startTime s = \<lparr>pws_Status = ''RUNNING'', pws_ActiveVus = GetActiveVUs s,
     pws_UptimeSeconds = f64_to_int64 (Seconds (time_since now startTime))\<rparr>"

text \<open>The identifier of a worker, and the address it registers under: a listen-all address is not
  dialable, so the host name stands for it. \<open>hostname\<close> is what the operating system answers.\<close>

definition worker_id :: "string \<Rightarrow> string \<Rightarrow> int \<Rightarrow> string" where
  "worker_id configured hostname pid = (if configured = '''' then hostname @ ''-'' @ int_string pid else configured)"

definition register_address :: "string \<Rightarrow> int \<Rightarrow> string option \<Rightarrow> string" where
  "register_address addr port hostname =
     (let h = (if addr = '''' \<or> addr = ''0.0.0.0'' then (case hostname of Some h \<Rightarrow> h | None \<Rightarrow> addr) else addr)
      in h @ '':'' @ int_string port)"

text \<open>Three attempts, two seconds apart: \<open>answers\<close> says which calls succeed; the result is whether
  the worker is registered, the calls made and the seconds slept.\<close>

fun register_loop :: "nat \<Rightarrow> (nat \<Rightarrow> bool) \<Rightarrow> nat \<Rightarrow> bool \<times> nat \<times> nat" where
  "register_loop 0 answers attempt = (False, 0, 0)"
| "register_loop (Suc n) answers attempt =
     (if answers attempt then (True, 1, 0)
      else case register_loop n answers (Suc attempt) of
             (ok, calls, slept) \<Rightarrow> (ok, Suc calls, slept + (if attempt < 3 then 2 else 0)))"

definition registerWithOrchestrator :: "(nat \<Rightarrow> bool) \<Rightarrow> bool \<times> nat \<times> nat" where
  "registerWithOrchestrator answers = register_loop 3 answers 1"

definition worker_registration :: "string \<Rightarrow> string \<Rightarrow> int \<Rightarrow> int \<Rightarrow> string option \<Rightarrow> register_request" where
  "worker_registration workerID addr port maxVUs hostname =
     \<lparr>rr_WorkerId = workerID, rr_Address = register_address addr port hostname, rr_MaxVus = i32 maxVUs, rr_Metadata = []\<rparr>"

lemma registration_gives_up:
  "fst (registerWithOrchestrator answers) \<longleftrightarrow> answers 1 \<or> answers 2 \<or> answers 3"
  by (auto simp: registerWithOrchestrator_def numeral_3_eq_3 numeral_2_eq_2)

end
