(* ===== verification/Goroutine_Pool.thy ===== *)
theory Goroutine_Pool
  imports GS_Prelude
begin

text \<open>
  The goroutine pool of \<open>internal/worker/goroutine_pool.go\<close>. The channel is a bounded list, each
  worker goroutine has a program counter, and a \<open>select\<close> with several ready cases is as many
  steps: Go chooses among them at random. Tasks are values of a type \<open>'t\<close>; the environment
  decides when one ends and with which error. A send on the closed channel panics
  (\<open>SubmitPanic\<close>).
\<close>

datatype pool_error = ErrPoolFull | ErrShutdownTimeout | ContextCanceled

fun pool_error_string :: "pool_error \<Rightarrow> string" where
  "pool_error_string ErrPoolFull = ''pool queue is full''"
| "pool_error_string ErrShutdownTimeout = ''pool shutdown timeout''"
| "pool_error_string ContextCanceled = ''context canceled''"

datatype 't worker_pc = Waiting | Running 't | Exited

record 't pool =
  po_size :: nat
  po_queueSize :: nat
  po_queue :: "'t list"
  po_closed :: bool
  po_cancelled :: bool
  po_workers :: "'t worker_pc list"
  po_activeCount :: int32
  po_accepted :: "'t list"
  po_finished :: "'t list"

definition NewPool :: "nat \<Rightarrow> nat \<Rightarrow> 't pool" where
  "NewPool n qs = \<lparr>po_size = n, po_queueSize = qs, po_queue = [], po_closed = False,
     po_cancelled = False, po_workers = [], po_activeCount = 0, po_accepted = [], po_finished = []\<rparr>"

definition StartPool :: "'t pool \<Rightarrow> 't pool" where
  "StartPool p = p\<lparr>po_workers := replicate (po_size p) Waiting\<rparr>"

definition GetActiveCount :: "'t pool \<Rightarrow> int32" where
  "GetActiveCount p = po_activeCount p"

definition GetQueueSize :: "'t pool \<Rightarrow> nat" where
  "GetQueueSize p = length (po_queue p)"

datatype submit_result = SubmitOk | SubmitError pool_error | SubmitPanic

text \<open>\<open>Submit\<close> and \<open>SubmitWithTimeout\<close> differ only in how long they wait before the last case.\<close>

inductive submit :: "'t \<Rightarrow> 't pool \<Rightarrow> submit_result \<Rightarrow> 't pool \<Rightarrow> bool" where
  cancelled: "po_cancelled p \<Longrightarrow> submit t p (SubmitError ContextCanceled) p"
| enqueued: "\<not> po_closed p \<Longrightarrow> length (po_queue p) < po_queueSize p \<Longrightarrow>
    submit t p SubmitOk (p\<lparr>po_queue := po_queue p @ [t], po_accepted := po_accepted p @ [t]\<rparr>)"
| closed: "po_closed p \<Longrightarrow> submit t p SubmitPanic p"
| full: "\<not> po_cancelled p \<Longrightarrow> \<not> po_closed p \<Longrightarrow> \<not> length (po_queue p) < po_queueSize p \<Longrightarrow> submit t p (SubmitError ErrPoolFull) p"

inductive_cases submitE: "submit t p r p'"

definition set_worker :: "nat \<Rightarrow> 't worker_pc \<Rightarrow> 't pool \<Rightarrow> 't pool" where
  "set_worker i pc p = p\<lparr>po_workers := (po_workers p)[i := pc]\<rparr>"

text \<open>One goroutine of the pool.\<close>

inductive work :: "nat \<Rightarrow> 't pool \<Rightarrow> 't pool \<Rightarrow> bool" for i where
  stopping: "i < length (po_workers p) \<Longrightarrow> po_workers p ! i = Waiting \<Longrightarrow> po_cancelled p \<Longrightarrow> work i p (set_worker i Exited p)"
| take_task: "i < length (po_workers p) \<Longrightarrow> po_workers p ! i = Waiting \<Longrightarrow> po_queue p = t # q \<Longrightarrow>
    work i p (set_worker i (Running t) (p\<lparr>po_queue := q, po_activeCount := i32 (po_activeCount p + 1)\<rparr>))"
| drained: "i < length (po_workers p) \<Longrightarrow> po_workers p ! i = Waiting \<Longrightarrow> po_closed p \<Longrightarrow> po_queue p = [] \<Longrightarrow>
    work i p (set_worker i Exited p)"
| finish: "i < length (po_workers p) \<Longrightarrow> po_workers p ! i = Running t \<Longrightarrow>
    work i p (set_worker i Waiting (p\<lparr>po_activeCount := i32 (po_activeCount p - 1), po_finished := po_finished p @ [t]\<rparr>))"

text \<open>\<open>Shutdown\<close> cancels and closes, then waits for the workers or the timeout.\<close>

definition ShutdownBegin :: "'t pool \<Rightarrow> 't pool" where
  "ShutdownBegin p = p\<lparr>po_cancelled := True, po_closed := True\<rparr>"

definition all_exited :: "'t pool \<Rightarrow> bool" where
  "all_exited p \<longleftrightarrow> (\<forall>w \<in> set (po_workers p). w = Exited)"

inductive pool_step :: "'t pool \<Rightarrow> 't pool \<Rightarrow> bool" where
  submit: "submit t p r p' \<Longrightarrow> r \<noteq> SubmitPanic \<Longrightarrow> pool_step p p'"
| work: "work i p p' \<Longrightarrow> pool_step p p'"
| shutdown: "\<not> po_closed p \<Longrightarrow> pool_step p (ShutdownBegin p)"

inductive pool_reach :: "nat \<Rightarrow> nat \<Rightarrow> 't pool \<Rightarrow> bool" for n qs where
  init: "pool_reach n qs (StartPool (NewPool n qs))"
| step: "pool_reach n qs p \<Longrightarrow> pool_step p p' \<Longrightarrow> pool_reach n qs p'"

section \<open>Conservation\<close>

fun running :: "'t worker_pc \<Rightarrow> 't list" where
  "running (Running t) = [t]"
| "running _ = []"

definition pool_inv :: "nat \<Rightarrow> nat \<Rightarrow> 't pool \<Rightarrow> bool" where
  "pool_inv n qs p \<longleftrightarrow> po_queueSize p = qs \<and> length (po_workers p) = n
     \<and> length (po_queue p) \<le> qs
     \<and> po_activeCount p = i32 (int (length (concat (map running (po_workers p)))))
     \<and> mset (po_accepted p) = mset (po_queue p) + mset (concat (map running (po_workers p))) + mset (po_finished p)"

lemma concat_update_mset:
  "i < length ws \<Longrightarrow> mset (concat (map f (ws[i := w]))) + mset (f (ws ! i)) = mset (concat (map f ws)) + mset (f w)"
  by (induction ws arbitrary: i) (auto split: nat.split simp: algebra_simps)

lemma concat_update_length:
  assumes "i < length ws"
  shows "int (length (concat (map f (ws[i := w])))) = int (length (concat (map f ws))) - int (length (f (ws ! i))) + int (length (f w))"
proof -
  have "size (mset (concat (map f (ws[i := w]))) + mset (f (ws ! i))) = size (mset (concat (map f ws)) + mset (f w))"
    by (simp only: concat_update_mset [OF assms])
  then show ?thesis by (simp only: size_union size_mset)
qed

lemma i32_shift: "i32 (i32 a + 1) = i32 (a + 1)" "i32 (i32 a - 1) = i32 (a - 1)"
  using i32_i32_add [of a 1] i32_i32_add [of a "- 1"] by simp_all

lemma pool_inv_set:
  assumes inv: "pool_inv n qs p" and i: "i < length (po_workers p)"
    and q: "po_queueSize p' = po_queueSize p" "po_workers p' = po_workers p" "length (po_queue p') \<le> qs" "po_accepted p' = po_accepted p"
    and count: "po_activeCount p' = i32 (int (length (concat (map running (po_workers p)))) - int (length (running (po_workers p ! i))) + int (length (running w)))"
    and moved: "mset (po_queue p) + mset (running (po_workers p ! i)) + mset (po_finished p) = mset (po_queue p') + mset (running w) + mset (po_finished p')"
  shows "pool_inv n qs (set_worker i w p')"
proof -
  let ?C = "mset (concat (map running (po_workers p)))" and ?C' = "mset (concat (map running ((po_workers p)[i := w])))"
  have c: "?C' + mset (running (po_workers p ! i)) = ?C + mset (running w)" by (rule concat_update_mset [OF i])
  have "mset (po_queue p) + ?C + mset (po_finished p) = mset (po_queue p') + ?C' + mset (po_finished p')"
  proof -
    have "(mset (po_queue p) + ?C + mset (po_finished p)) + (mset (running (po_workers p ! i)) + mset (running w))
        = (mset (po_queue p) + mset (running (po_workers p ! i)) + mset (po_finished p)) + (?C + mset (running w))"
      by (simp only: ac_simps)
    also have "\<dots> = (mset (po_queue p') + mset (running w) + mset (po_finished p')) + (?C' + mset (running (po_workers p ! i)))"
      by (simp only: moved c)
    also have "\<dots> = (mset (po_queue p') + ?C' + mset (po_finished p')) + (mset (running (po_workers p ! i)) + mset (running w))"
      by (simp only: ac_simps)
    finally show ?thesis by (simp only: add_right_cancel)
  qed
  with inv q show ?thesis
    by (simp add: pool_inv_def set_worker_def count concat_update_length [OF i])
qed

lemma pool_inv_step:
  assumes "pool_inv n qs p" and "pool_step p p'"
  shows "pool_inv n qs p'"
  using assms(2)
proof (cases rule: pool_step.cases)
  case (submit t r)
  from submit(1) show ?thesis by cases (use assms(1) in \<open>auto simp: pool_inv_def\<close>)
next
  case (work i)
  from work show ?thesis
  proof cases
    case stopping
    then show ?thesis using assms(1) unfolding stopping(1)
      by (intro pool_inv_set [OF assms(1)]) (auto simp: pool_inv_def)
  next
    case (take_task t q)
    then show ?thesis using assms(1) unfolding take_task(1)
      by (intro pool_inv_set [OF assms(1)]) (auto simp: pool_inv_def i32_shift)
  next
    case drained
    then show ?thesis using assms(1) unfolding drained(1)
      by (intro pool_inv_set [OF assms(1)]) (auto simp: pool_inv_def)
  next
    case (finish t)
    then show ?thesis using assms(1) unfolding finish(1)
      by (intro pool_inv_set [OF assms(1)]) (auto simp: pool_inv_def i32_shift)
  qed
next
  case shutdown
  then show ?thesis using assms(1) by (simp add: pool_inv_def ShutdownBegin_def)
qed

lemma pool_inv_reach: "pool_reach n qs p \<Longrightarrow> pool_inv n qs p"
proof (induction rule: pool_reach.induct)
  case init
  have "concat (map running (replicate n Waiting)) = ([] :: 'a list)" by (induction n) auto
  then show ?case by (simp add: pool_inv_def StartPool_def NewPool_def i32_def)
next
  case (step p p')
  then show ?case using pool_inv_step by blast
qed

text \<open>Invariant. The pool neither loses nor repeats a task: at every moment the tasks it accepted are
  exactly those still queued, being run and finished; at most as many run as there are workers,
  the queue never exceeds its capacity, and the active count is the number of running tasks.\<close>

theorem pool_conserves_tasks:
  assumes "pool_reach n qs p"
  shows "mset (po_accepted p) = mset (po_queue p) + mset (concat (map running (po_workers p))) + mset (po_finished p)
     \<and> length (concat (map running (po_workers p))) \<le> n \<and> GetQueueSize p \<le> qs
     \<and> GetActiveCount p = i32 (int (length (concat (map running (po_workers p)))))"
proof -
  have "length (running w) \<le> 1" for w :: "'a worker_pc" by (cases w) auto
  then have "length (concat (map running ws)) \<le> length ws" for ws :: "'a worker_pc list"
    by (induction ws) (auto intro: order_trans [OF add_mono, of _ 1])
  with pool_inv_reach [OF assms] show ?thesis
    by (simp add: pool_inv_def GetQueueSize_def GetActiveCount_def) metis
qed

theorem pool_conserves_tasks_witness:
  "\<exists>p. pool_reach 1 1 p \<and> mset (po_accepted p) = {#7 :: nat#} \<and> GetQueueSize p = 1"
proof -
  let ?p = "StartPool (NewPool 1 1) :: nat pool"
  let ?p' = "?p\<lparr>po_queue := [7], po_accepted := [7]\<rparr>"
  have "submit 7 ?p SubmitOk ?p'" using submit.enqueued [of ?p 7] by (simp add: StartPool_def NewPool_def)
  then have r: "pool_reach 1 1 ?p'" by (intro pool_reach.step [OF pool_reach.init] pool_step.submit) auto
  from pool_conserves_tasks [OF r] r show ?thesis
    by (intro exI [of _ ?p']) (simp add: GetQueueSize_def StartPool_def NewPool_def)
qed

text \<open>Once shut down, a submission may find the closed channel ready and panic.\<close>

lemma submit_after_shutdown_may_panic: "submit t (ShutdownBegin p) SubmitPanic (ShutdownBegin p)"
  by (rule submit.closed) (simp add: ShutdownBegin_def)

end
