(* ===== verification/Run_Store.thy ===== *)
theory Run_Store
  imports Interfaces Go_Strings "HOL-Library.List_Lexorder"
begin

text \<open>
  The store of \<open>internal/store/store.go\<close> over the tables of \<open>internal/store/schema.go\<close>. A table is
  the list of its rows in \<open>rowid\<close> order; the constraints of the schema (primary keys, the unique
  user name under \<open>NOCASE\<close>, the cascading foreign keys) are written out in the statements that
  can violate them. The pool has one connection, so each method is one step.

  Every method takes the driver's fault first: \<open>Some e\<close> when the statement fails for a reason
  outside the model (I/O, a busy database, a done context), in which case nothing changes. Rows
  with equal sort keys come in \<open>rowid\<close> order.
\<close>

datatype store_error = ErrNotFound | SqlError string

type_synonym fault = "string option"

section \<open>Rows and tables\<close>

record run_row =
  rw_ID :: string
  rw_Name :: string
  rw_PlanSpec :: string
  rw_Status :: string
  rw_StartedAt :: int64
  rw_StartedBy :: string
  rw_FinishedAt :: "int64 option"
  rw_DispatchedAt :: "int64 option"
  rw_Workers :: int
  rw_PeakVUs :: int
  rw_TotalRequests :: int64
  rw_TotalErrors :: int64
  rw_ErrorPct :: f64
  rw_PeakRPS :: f64
  rw_AvgRPS :: f64
  rw_P95Ms :: int64
  rw_P99Ms :: int64

record sample =
  sm_TsMs :: int64
  sm_RPS :: f64
  sm_ErrRate :: f64
  sm_ErrPct :: f64
  sm_P50Ms :: int64
  sm_P95Ms :: int64
  sm_P99Ms :: int64
  sm_Requests :: int64
  sm_Errors :: int64

record user =
  us_ID :: int64
  us_Username :: string
  us_PasswordHash :: string
  us_CreatedAt :: int64

record session_row =
  ss_TokenHash :: string
  ss_UserID :: int64
  ss_ExpiresAt :: int64

record plan_row =
  pl_ID :: int64
  pl_Name :: string
  pl_Spec :: string
  pl_CreatedAt :: int64
  pl_UpdatedAt :: int64

record db =
  db_runs :: "run_row list"
  db_samples :: "(string \<times> sample) list"
  db_users :: "user list"
  db_sessions :: "session_row list"
  db_plans :: "plan_row list"
  db_lastUser :: int64
  db_lastPlan :: int64

definition empty_db :: db where
  "empty_db = \<lparr>db_runs = [], db_samples = [], db_users = [], db_sessions = [], db_plans = [], db_lastUser = 0, db_lastPlan = 0\<rparr>"

definition zero_run :: run_row where
  "zero_run = \<lparr>rw_ID = '''', rw_Name = '''', rw_PlanSpec = '''', rw_Status = '''', rw_StartedAt = 0, rw_StartedBy = '''',
     rw_FinishedAt = None, rw_DispatchedAt = None, rw_Workers = 0, rw_PeakVUs = 0, rw_TotalRequests = 0, rw_TotalErrors = 0,
     rw_ErrorPct = Fin 0, rw_PeakRPS = Fin 0, rw_AvgRPS = Fin 0, rw_P95Ms = 0, rw_P99Ms = 0\<rparr>"

text \<open>\<open>UPDATE ... WHERE p\<close> and the count of the rows it touched.\<close>

definition update_where :: "('a \<Rightarrow> bool) \<Rightarrow> ('a \<Rightarrow> 'a) \<Rightarrow> 'a list \<Rightarrow> 'a list" where
  "update_where p f = map (\<lambda>r. if p r then f r else r)"

definition count_where :: "('a \<Rightarrow> bool) \<Rightarrow> 'a list \<Rightarrow> nat" where
  "count_where p rows = length (filter p rows)"

definition find_run :: "string \<Rightarrow> db \<Rightarrow> run_row option" where
  "find_run i d = find (\<lambda>r. rw_ID r = i) (db_runs d)"

section \<open>Runs\<close>

definition CreateRun :: "fault \<Rightarrow> run_row \<Rightarrow> db \<Rightarrow> (store_error + unit) \<times> db" where
  "CreateRun flt r d =
     (case flt of
        Some e \<Rightarrow> (Inl (SqlError e), d)
      | None \<Rightarrow>
          if find_run (rw_ID r) d \<noteq> None then (Inl (SqlError ''UNIQUE constraint failed: runs.id''), d)
          else (Inr (), d\<lparr>db_runs := db_runs d @ [zero_run\<lparr>rw_ID := rw_ID r, rw_Name := rw_Name r, rw_PlanSpec := rw_PlanSpec r,
                  rw_Status := rw_Status r, rw_StartedAt := rw_StartedAt r, rw_StartedBy := rw_StartedBy r,
                  rw_Workers := rw_Workers r, rw_PeakVUs := rw_PeakVUs r\<rparr>]\<rparr>))"

text \<open>An update of the runs, or \<open>ErrNotFound\<close> when it touches no row.\<close>

definition update_runs :: "fault \<Rightarrow> (run_row \<Rightarrow> bool) \<Rightarrow> (run_row \<Rightarrow> run_row) \<Rightarrow> db \<Rightarrow> (store_error + unit) \<times> db" where
  "update_runs flt p f d =
     (case flt of
        Some e \<Rightarrow> (Inl (SqlError e), d)
      | None \<Rightarrow>
          if count_where p (db_runs d) = 0 then (Inl ErrNotFound, d)
          else (Inr (), d\<lparr>db_runs := update_where p f (db_runs d)\<rparr>))"

text \<open>The driver binds a float that is not a number as \<open>NULL\<close>, which the columns do not take.\<close>

fun null_column :: "(string \<times> f64) list \<Rightarrow> string option" where
  "null_column [] = None"
| "null_column ((c, x) # cs) = (if x = NaN then Some c else null_column cs)"

definition FinishRun :: "fault \<Rightarrow> string \<Rightarrow> string \<Rightarrow> int64 \<Rightarrow> run_row \<Rightarrow> db \<Rightarrow> (store_error + unit) \<times> db" where
  "FinishRun flt i status finishedAt summary d =
     (case null_column [(''error_pct'', rw_ErrorPct summary), (''peak_rps'', rw_PeakRPS summary), (''avg_rps'', rw_AvgRPS summary)] of
        Some c \<Rightarrow>
          update_runs (if flt \<noteq> None \<or> find_run i d = None then flt else Some (''NOT NULL constraint failed: runs.'' @ c))
            (\<lambda>r. rw_ID r = i) (\<lambda>r. r) d
      | None \<Rightarrow>
          update_runs flt (\<lambda>r. rw_ID r = i)
            (\<lambda>r. r\<lparr>rw_Status := status, rw_FinishedAt := Some finishedAt, rw_TotalRequests := rw_TotalRequests summary,
               rw_TotalErrors := rw_TotalErrors summary, rw_ErrorPct := rw_ErrorPct summary, rw_PeakRPS := rw_PeakRPS summary,
               rw_AvgRPS := rw_AvgRPS summary, rw_P95Ms := rw_P95Ms summary, rw_P99Ms := rw_P99Ms summary\<rparr>) d)"

definition GetRun :: "fault \<Rightarrow> string \<Rightarrow> db \<Rightarrow> store_error + run_row" where
  "GetRun flt i d =
     (case flt of Some e \<Rightarrow> Inl (SqlError e)
      | None \<Rightarrow> (case find_run i d of None \<Rightarrow> Inl ErrNotFound | Some r \<Rightarrow> Inr r))"

text \<open>A negative \<open>OFFSET\<close> is no offset.\<close>

definition ListRuns :: "fault \<Rightarrow> int \<Rightarrow> int \<Rightarrow> db \<Rightarrow> store_error + run_row list" where
  "ListRuns flt limit offset d =
     (let n = (if limit \<le> 0 \<or> 200 < limit then 50 else limit)
      in case flt of Some e \<Rightarrow> Inl (SqlError e)
         | None \<Rightarrow> Inr (map (\<lambda>r. r\<lparr>rw_PlanSpec := ''''\<rparr>)
             (take (nat n) (drop (nat offset) (sort_key (\<lambda>r. - rw_StartedAt r) (db_runs d))))))"

definition DeleteRun :: "fault \<Rightarrow> string \<Rightarrow> db \<Rightarrow> (store_error + unit) \<times> db" where
  "DeleteRun flt i d =
     (case flt of
        Some e \<Rightarrow> (Inl (SqlError e), d)
      | None \<Rightarrow>
          if count_where (\<lambda>r. rw_ID r = i) (db_runs d) = 0 then (Inl ErrNotFound, d)
          else (Inr (), d\<lparr>db_runs := filter (\<lambda>r. rw_ID r \<noteq> i) (db_runs d),
                          db_samples := filter (\<lambda>s. fst s \<noteq> i) (db_samples d)\<rparr>))"

definition queued_runs :: "db \<Rightarrow> run_row list" where
  "queued_runs d = sort_key rw_StartedAt (filter (\<lambda>r. rw_Status r = ''QUEUED'') (db_runs d))"

definition NextQueued :: "fault \<Rightarrow> db \<Rightarrow> store_error + run_row" where
  "NextQueued flt d =
     (case flt of Some e \<Rightarrow> Inl (SqlError e)
      | None \<Rightarrow> (case queued_runs d of [] \<Rightarrow> Inl ErrNotFound | r # _ \<Rightarrow> Inr r))"

definition MarkDispatched :: "fault \<Rightarrow> string \<Rightarrow> int \<Rightarrow> int64 \<Rightarrow> db \<Rightarrow> (store_error + unit) \<times> db" where
  "MarkDispatched flt i workers at_ms d =
     update_runs flt (\<lambda>r. rw_ID r = i \<and> rw_Status r = ''QUEUED'')
       (\<lambda>r. r\<lparr>rw_Status := ''RUNNING'', rw_DispatchedAt := Some at_ms, rw_Workers := workers\<rparr>) d"

definition SetRunStatus :: "fault \<Rightarrow> string \<Rightarrow> string \<Rightarrow> db \<Rightarrow> (store_error + unit) \<times> db" where
  "SetRunStatus flt i status d = update_runs flt (\<lambda>r. rw_ID r = i) (\<lambda>r. r\<lparr>rw_Status := status\<rparr>) d"

text \<open>An unknown run makes the inner query \<open>NULL\<close> and the comparison false.\<close>

definition CountQueuedBefore :: "fault \<Rightarrow> string \<Rightarrow> db \<Rightarrow> store_error + nat" where
  "CountQueuedBefore flt i d =
     (case flt of Some e \<Rightarrow> Inl (SqlError e)
      | None \<Rightarrow> Inr (case find_run i d of
          None \<Rightarrow> 0
        | Some me \<Rightarrow> count_where (\<lambda>r. rw_Status r = ''QUEUED'' \<and> rw_StartedAt r < rw_StartedAt me) (db_runs d)))"

definition FailInterruptedRuns :: "fault \<Rightarrow> int64 \<Rightarrow> db \<Rightarrow> (store_error + nat) \<times> db" where
  "FailInterruptedRuns flt now d =
     (case flt of
        Some e \<Rightarrow> (Inl (SqlError e), d)
      | None \<Rightarrow> (Inr (count_where (\<lambda>r. rw_Status r = ''RUNNING'') (db_runs d)),
          d\<lparr>db_runs := update_where (\<lambda>r. rw_Status r = ''RUNNING'')
              (\<lambda>r. r\<lparr>rw_Status := ''FAILED'', rw_FinishedAt := Some now\<rparr>) (db_runs d)\<rparr>))"

section \<open>Samples\<close>

definition AddSample :: "fault \<Rightarrow> string \<Rightarrow> sample \<Rightarrow> db \<Rightarrow> (store_error + unit) \<times> db" where
  "AddSample flt runID sm d =
     (case flt of
        Some e \<Rightarrow> (Inl (SqlError e), d)
      | None \<Rightarrow>
          (case null_column [(''rps'', sm_RPS sm), (''err_rate'', sm_ErrRate sm), (''err_pct'', sm_ErrPct sm)] of
             Some c \<Rightarrow> (Inl (SqlError (''NOT NULL constraint failed: samples.'' @ c)), d)
           | None \<Rightarrow>
               if find_run runID d = None then (Inl (SqlError ''FOREIGN KEY constraint failed''), d)
               else if \<exists>s \<in> set (db_samples d). fst s = runID \<and> sm_TsMs (snd s) = sm_TsMs sm
               then (Inr (), d\<lparr>db_samples := update_where (\<lambda>s. fst s = runID \<and> sm_TsMs (snd s) = sm_TsMs sm)
                       (\<lambda>s. (runID, sm)) (db_samples d)\<rparr>)
               else (Inr (), d\<lparr>db_samples := db_samples d @ [(runID, sm)]\<rparr>)))"

definition ListSamples :: "fault \<Rightarrow> string \<Rightarrow> db \<Rightarrow> store_error + sample list" where
  "ListSamples flt runID d =
     (case flt of Some e \<Rightarrow> Inl (SqlError e)
      | None \<Rightarrow> Inr (sort_key sm_TsMs (map snd (filter (\<lambda>s. fst s = runID) (db_samples d)))))"

section \<open>Users and sessions\<close>

definition same_name :: "string \<Rightarrow> user \<Rightarrow> bool" where
  "same_name n u \<longleftrightarrow> to_lower (us_Username u) = to_lower n"

definition CreateUser :: "fault \<Rightarrow> int64 \<Rightarrow> string \<Rightarrow> string \<Rightarrow> db \<Rightarrow> (store_error + user) \<times> db" where
  "CreateUser flt now username passwordHash d =
     (case flt of
        Some e \<Rightarrow> (Inl (SqlError e), d)
      | None \<Rightarrow>
          if \<exists>u \<in> set (db_users d). same_name username u then (Inl (SqlError ''UNIQUE constraint failed: users.username''), d)
          else let u = \<lparr>us_ID = db_lastUser d + 1, us_Username = username, us_PasswordHash = passwordHash, us_CreatedAt = now\<rparr>
               in (Inr u, d\<lparr>db_users := db_users d @ [u], db_lastUser := db_lastUser d + 1\<rparr>))"

definition GetUserByName :: "fault \<Rightarrow> string \<Rightarrow> db \<Rightarrow> store_error + user" where
  "GetUserByName flt username d =
     (case flt of Some e \<Rightarrow> Inl (SqlError e)
      | None \<Rightarrow> (case find (same_name username) (db_users d) of None \<Rightarrow> Inl ErrNotFound | Some u \<Rightarrow> Inr u))"

definition CountUsers :: "fault \<Rightarrow> db \<Rightarrow> store_error + nat" where
  "CountUsers flt d = (case flt of Some e \<Rightarrow> Inl (SqlError e) | None \<Rightarrow> Inr (length (db_users d)))"

text \<open>The list carries no password hashes.\<close>

definition ListUsers :: "fault \<Rightarrow> db \<Rightarrow> store_error + user list" where
  "ListUsers flt d =
     (case flt of Some e \<Rightarrow> Inl (SqlError e)
      | None \<Rightarrow> Inr (map (\<lambda>u. u\<lparr>us_PasswordHash := ''''\<rparr>) (sort_key (\<lambda>u. map byte (to_lower (us_Username u))) (db_users d))))"

definition DeleteUser :: "fault \<Rightarrow> int64 \<Rightarrow> db \<Rightarrow> (store_error + unit) \<times> db" where
  "DeleteUser flt i d =
     (case flt of
        Some e \<Rightarrow> (Inl (SqlError e), d)
      | None \<Rightarrow>
          if count_where (\<lambda>u. us_ID u = i) (db_users d) = 0 then (Inl ErrNotFound, d)
          else (Inr (), d\<lparr>db_users := filter (\<lambda>u. us_ID u \<noteq> i) (db_users d),
                          db_sessions := filter (\<lambda>s. ss_UserID s \<noteq> i) (db_sessions d)\<rparr>))"

definition CreateSession :: "fault \<Rightarrow> string \<Rightarrow> int64 \<Rightarrow> int64 \<Rightarrow> db \<Rightarrow> (store_error + unit) \<times> db" where
  "CreateSession flt tokenHash userID expiresAt d =
     (case flt of
        Some e \<Rightarrow> (Inl (SqlError e), d)
      | None \<Rightarrow>
          if \<exists>s \<in> set (db_sessions d). ss_TokenHash s = tokenHash then (Inl (SqlError ''UNIQUE constraint failed: sessions.token_hash''), d)
          else if \<not> (\<exists>u \<in> set (db_users d). us_ID u = userID) then (Inl (SqlError ''FOREIGN KEY constraint failed''), d)
          else (Inr (), d\<lparr>db_sessions := db_sessions d @ [\<lparr>ss_TokenHash = tokenHash, ss_UserID = userID, ss_ExpiresAt = expiresAt\<rparr>]\<rparr>))"

definition UserForSession :: "fault \<Rightarrow> string \<Rightarrow> int64 \<Rightarrow> db \<Rightarrow> store_error + user" where
  "UserForSession flt tokenHash now d =
     (case flt of Some e \<Rightarrow> Inl (SqlError e)
      | None \<Rightarrow>
          (case find (\<lambda>s. ss_TokenHash s = tokenHash \<and> now < ss_ExpiresAt s) (db_sessions d) of
             None \<Rightarrow> Inl ErrNotFound
           | Some s \<Rightarrow> (case find (\<lambda>u. us_ID u = ss_UserID s) (db_users d) of None \<Rightarrow> Inl ErrNotFound | Some u \<Rightarrow> Inr u)))"

definition DeleteSession :: "fault \<Rightarrow> string \<Rightarrow> db \<Rightarrow> (store_error + unit) \<times> db" where
  "DeleteSession flt tokenHash d =
     (case flt of Some e \<Rightarrow> (Inl (SqlError e), d)
      | None \<Rightarrow> (Inr (), d\<lparr>db_sessions := filter (\<lambda>s. ss_TokenHash s \<noteq> tokenHash) (db_sessions d)\<rparr>))"

definition PurgeExpiredSessions :: "fault \<Rightarrow> int64 \<Rightarrow> db \<Rightarrow> (store_error + nat) \<times> db" where
  "PurgeExpiredSessions flt now d =
     (case flt of Some e \<Rightarrow> (Inl (SqlError e), d)
      | None \<Rightarrow> (Inr (count_where (\<lambda>s. ss_ExpiresAt s \<le> now) (db_sessions d)),
                 d\<lparr>db_sessions := filter (\<lambda>s. \<not> ss_ExpiresAt s \<le> now) (db_sessions d)\<rparr>))"

section \<open>Plans\<close>

definition CreatePlan :: "fault \<Rightarrow> int64 \<Rightarrow> string \<Rightarrow> string \<Rightarrow> db \<Rightarrow> (store_error + plan_row) \<times> db" where
  "CreatePlan flt now nm spec d =
     (case flt of Some e \<Rightarrow> (Inl (SqlError e), d)
      | None \<Rightarrow>
          let p = \<lparr>pl_ID = db_lastPlan d + 1, pl_Name = nm, pl_Spec = spec, pl_CreatedAt = now, pl_UpdatedAt = now\<rparr>
          in (Inr p, d\<lparr>db_plans := db_plans d @ [p], db_lastPlan := db_lastPlan d + 1\<rparr>))"

definition GetPlan :: "fault \<Rightarrow> int64 \<Rightarrow> db \<Rightarrow> store_error + plan_row" where
  "GetPlan flt i d =
     (case flt of Some e \<Rightarrow> Inl (SqlError e)
      | None \<Rightarrow> (case find (\<lambda>p. pl_ID p = i) (db_plans d) of None \<Rightarrow> Inl ErrNotFound | Some p \<Rightarrow> Inr p))"

text \<open>Two statements: the update, then the read of the result.\<close>

definition UpdatePlan :: "fault \<Rightarrow> fault \<Rightarrow> int64 \<Rightarrow> int64 \<Rightarrow> string \<Rightarrow> string \<Rightarrow> db \<Rightarrow> (store_error + plan_row) \<times> db" where
  "UpdatePlan flt flt' now i nm spec d =
     (case flt of Some e \<Rightarrow> (Inl (SqlError e), d)
      | None \<Rightarrow>
          if count_where (\<lambda>p. pl_ID p = i) (db_plans d) = 0 then (Inl ErrNotFound, d)
          else let d' = d\<lparr>db_plans := update_where (\<lambda>p. pl_ID p = i)
                     (\<lambda>p. p\<lparr>pl_Name := nm, pl_Spec := spec, pl_UpdatedAt := now\<rparr>) (db_plans d)\<rparr>
               in (GetPlan flt' i d', d'))"

definition ListPlans :: "fault \<Rightarrow> db \<Rightarrow> store_error + plan_row list" where
  "ListPlans flt d =
     (case flt of Some e \<Rightarrow> Inl (SqlError e) | None \<Rightarrow> Inr (sort_key (\<lambda>p. - pl_UpdatedAt p) (db_plans d)))"

definition DeletePlan :: "fault \<Rightarrow> int64 \<Rightarrow> db \<Rightarrow> (store_error + unit) \<times> db" where
  "DeletePlan flt i d =
     (case flt of Some e \<Rightarrow> (Inl (SqlError e), d)
      | None \<Rightarrow>
          if count_where (\<lambda>p. pl_ID p = i) (db_plans d) = 0 then (Inl ErrNotFound, d)
          else (Inr (), d\<lparr>db_plans := filter (\<lambda>p. pl_ID p \<noteq> i) (db_plans d)\<rparr>))"

section \<open>The schema's constraints\<close>

definition runs_ok :: "run_row list \<Rightarrow> (string \<times> sample) list \<Rightarrow> bool" where
  "runs_ok rs ss \<longleftrightarrow> distinct (map rw_ID rs) \<and> distinct (map (\<lambda>s. (fst s, sm_TsMs (snd s))) ss)
     \<and> fst ` set ss \<subseteq> rw_ID ` set rs"

definition users_ok :: "user list \<Rightarrow> session_row list \<Rightarrow> int64 \<Rightarrow> bool" where
  "users_ok us ss n \<longleftrightarrow> distinct (map us_ID us) \<and> distinct (map (\<lambda>u. to_lower (us_Username u)) us)
     \<and> (\<forall>u \<in> set us. us_ID u \<le> n) \<and> distinct (map ss_TokenHash ss) \<and> ss_UserID ` set ss \<subseteq> us_ID ` set us"

definition plans_ok :: "plan_row list \<Rightarrow> int64 \<Rightarrow> bool" where
  "plans_ok ps n \<longleftrightarrow> distinct (map pl_ID ps) \<and> (\<forall>p \<in> set ps. pl_ID p \<le> n)"

definition db_ok :: "db \<Rightarrow> bool" where
  "db_ok d \<longleftrightarrow> runs_ok (db_runs d) (db_samples d) \<and> users_ok (db_users d) (db_sessions d) (db_lastUser d)
     \<and> plans_ok (db_plans d) (db_lastPlan d)"

lemma find_run_None: "find_run i d = None \<longleftrightarrow> i \<notin> rw_ID ` set (db_runs d)"
  by (auto simp: find_run_def find_None_iff)

lemma find_run_Some: "db_ok d \<Longrightarrow> find_run i d = Some r \<longleftrightarrow> r \<in> set (db_runs d) \<and> rw_ID r = i"
proof -
  assume ok: "db_ok d"
  have "distinct (map f rs) \<Longrightarrow> find (\<lambda>r. f r = i) rs = Some r \<longleftrightarrow> r \<in> set rs \<and> f r = i" for f :: "run_row \<Rightarrow> string" and rs
    by (induction rs) (auto simp: image_iff)
  with ok show ?thesis by (simp add: db_ok_def runs_ok_def find_run_def)
qed

lemma update_where_map: "(\<And>r. p r \<Longrightarrow> g (f r) = g r) \<Longrightarrow> map g (update_where p f rows) = map g rows"
  by (auto simp: update_where_def)

lemma update_where_image: "(\<And>r. p r \<Longrightarrow> g (f r) = g r) \<Longrightarrow> g ` set (update_where p f rows) = g ` set rows"
  using update_where_map [of p g f rows] by (metis list.set_map)

lemma distinct_map_filter: "distinct (map f xs) \<Longrightarrow> distinct (map f (filter p xs))"
  by (induction xs) auto

lemma runs_ok_update: "runs_ok rs ss \<Longrightarrow> (\<And>r. rw_ID (f r) = rw_ID r) \<Longrightarrow> runs_ok (update_where p f rs) ss"
  by (simp add: runs_ok_def update_where_map update_where_image)

lemma runs_ok_add: "runs_ok rs ss \<Longrightarrow> rw_ID r \<notin> rw_ID ` set rs \<Longrightarrow> runs_ok (rs @ [r]) ss"
  unfolding runs_ok_def by (simp, blast)

lemma runs_ok_filter: "runs_ok rs ss \<Longrightarrow> runs_ok (filter (\<lambda>r. rw_ID r \<noteq> i) rs) (filter (\<lambda>s. fst s \<noteq> i) ss)"
  by (auto simp: runs_ok_def distinct_map_filter)

lemma runs_ok_sample:
  assumes "runs_ok rs ss" and "i \<in> rw_ID ` set rs"
  shows "runs_ok rs (update_where (\<lambda>s. fst s = i \<and> sm_TsMs (snd s) = sm_TsMs sm) (\<lambda>s. (i, sm)) ss)"
    and "\<not> (\<exists>s \<in> set ss. fst s = i \<and> sm_TsMs (snd s) = sm_TsMs sm) \<Longrightarrow> runs_ok rs (ss @ [(i, sm)])"
proof -
  let ?p = "\<lambda>s. fst s = i \<and> sm_TsMs (snd s) = sm_TsMs sm"
  have "map (\<lambda>s. (fst s, sm_TsMs (snd s))) (update_where ?p (\<lambda>s. (i, sm)) ss) = map (\<lambda>s. (fst s, sm_TsMs (snd s))) ss"
    "fst ` set (update_where ?p (\<lambda>s. (i, sm)) ss) = fst ` set ss"
    by (rule update_where_map, simp, rule update_where_image, simp)
  with assms show "runs_ok rs (update_where ?p (\<lambda>s. (i, sm)) ss)" by (simp only: runs_ok_def)
  assume "\<not> (\<exists>s \<in> set ss. ?p s)"
  with assms show "runs_ok rs (ss @ [(i, sm)])" by (auto simp: runs_ok_def)
qed

lemma users_ok_filter:
  "users_ok us ss n \<Longrightarrow> users_ok us (filter p ss) n"
  "users_ok us ss n \<Longrightarrow> users_ok (filter (\<lambda>u. us_ID u \<noteq> i) us) (filter (\<lambda>s. ss_UserID s \<noteq> i) ss) n"
  by (auto simp: users_ok_def distinct_map_filter)

lemma users_ok_add: "users_ok us ss n \<Longrightarrow> \<forall>u' \<in> set us. \<not> same_name (us_Username u) u' \<Longrightarrow> us_ID u = n + 1 \<Longrightarrow> users_ok (us @ [u]) ss (n + 1)"
proof -
  assume ok: "users_ok us ss n" and nm: "\<forall>u' \<in> set us. \<not> same_name (us_Username u) u'" and i: "us_ID u = n + 1"
  have "n + 1 \<notin> us_ID ` set us" using ok by (auto simp: users_ok_def)
  moreover have "to_lower (us_Username u) \<notin> (\<lambda>u. to_lower (us_Username u)) ` set us"
    using nm by (auto simp: same_name_def)
  moreover have "\<forall>u' \<in> set us. us_ID u' \<le> n + 1" using ok by (auto simp: users_ok_def)
  moreover have "ss_UserID ` set ss \<subseteq> insert (n + 1) (us_ID ` set us)" using ok unfolding users_ok_def by blast
  ultimately show ?thesis using ok i by (simp add: users_ok_def)
qed

lemma users_ok_session: "users_ok us ss n \<Longrightarrow> \<forall>s' \<in> set ss. ss_TokenHash s' \<noteq> ss_TokenHash s \<Longrightarrow> ss_UserID s \<in> us_ID ` set us \<Longrightarrow>
    users_ok us (ss @ [s]) n"
  by (auto simp: users_ok_def)

lemma plans_ok_ops:
  "plans_ok ps n \<Longrightarrow> pl_ID p = n + 1 \<Longrightarrow> plans_ok (ps @ [p]) (n + 1)"
  "plans_ok ps n \<Longrightarrow> (\<And>p. pl_ID (f p) = pl_ID p) \<Longrightarrow> plans_ok (update_where q f ps) n"
  "plans_ok ps n \<Longrightarrow> plans_ok (filter q ps) n"
proof -
  show "plans_ok ps n \<Longrightarrow> (\<And>p. pl_ID (f p) = pl_ID p) \<Longrightarrow> plans_ok (update_where q f ps) n"
    by (simp add: plans_ok_def update_where_map) (auto simp: update_where_def)
next
  show "plans_ok ps n \<Longrightarrow> pl_ID p = n + 1 \<Longrightarrow> plans_ok (ps @ [p]) (n + 1)" by (fastforce simp: plans_ok_def)
qed (auto simp: plans_ok_def distinct_map_filter)

lemmas table_ok = runs_ok_update runs_ok_filter users_ok_filter plans_ok_ops

text \<open>Everything that writes.\<close>

inductive db_step :: "db \<Rightarrow> db \<Rightarrow> bool" where
  create_run: "CreateRun flt r d = (res, d') \<Longrightarrow> db_step d d'"
| finish_run: "FinishRun flt i status t summary d = (res, d') \<Longrightarrow> db_step d d'"
| delete_run: "DeleteRun flt i d = (res, d') \<Longrightarrow> db_step d d'"
| mark: "MarkDispatched flt i n t d = (res, d') \<Longrightarrow> db_step d d'"
| set_status: "SetRunStatus flt i status d = (res, d') \<Longrightarrow> db_step d d'"
| fail_interrupted: "FailInterruptedRuns flt now d = (res, d') \<Longrightarrow> db_step d d'"
| add_sample: "AddSample flt i sm d = (res, d') \<Longrightarrow> db_step d d'"
| create_user: "CreateUser flt now nm h d = (res, d') \<Longrightarrow> db_step d d'"
| delete_user: "DeleteUser flt i d = (res, d') \<Longrightarrow> db_step d d'"
| create_session: "CreateSession flt tok i t d = (res, d') \<Longrightarrow> db_step d d'"
| delete_session: "DeleteSession flt tok d = (res, d') \<Longrightarrow> db_step d d'"
| purge: "PurgeExpiredSessions flt now d = (res, d') \<Longrightarrow> db_step d d'"
| create_plan: "CreatePlan flt now nm spec d = (res, d') \<Longrightarrow> db_step d d'"
| update_plan: "UpdatePlan flt flt' now i nm spec d = (res, d') \<Longrightarrow> db_step d d'"
| delete_plan: "DeletePlan flt i d = (res, d') \<Longrightarrow> db_step d d'"

lemma db_step_ok: "db_step d d' \<Longrightarrow> db_ok d \<Longrightarrow> db_ok d'"
proof (induction rule: db_step.induct)
  case (create_run flt r d res d')
  then show ?case by (auto simp: CreateRun_def db_ok_def find_run_None runs_ok_add split: option.splits if_splits)
next
  case (finish_run flt i status t summary d res d')
  then show ?case by (auto simp: FinishRun_def update_runs_def db_ok_def table_ok split: option.splits if_splits)
next
  case (delete_run flt i d res d')
  then show ?case by (auto simp: DeleteRun_def db_ok_def table_ok split: option.splits if_splits)
next
  case (mark flt i n t d res d')
  then show ?case by (auto simp: MarkDispatched_def update_runs_def db_ok_def table_ok split: option.splits if_splits)
next
  case (set_status flt i status d res d')
  then show ?case by (auto simp: SetRunStatus_def update_runs_def db_ok_def table_ok split: option.splits if_splits)
next
  case (fail_interrupted flt now d res d')
  then show ?case by (auto simp: FailInterruptedRuns_def db_ok_def table_ok split: option.splits)
next
  case (add_sample flt i sm d res d')
  then show ?case
    using runs_ok_sample [of "db_runs d" "db_samples d" i sm]
    by (simp add: AddSample_def db_ok_def find_run_None split: option.splits if_splits) auto
next
  case (create_user flt now nm h d res d')
  then show ?case by (auto simp: CreateUser_def db_ok_def Let_def users_ok_add split: option.splits if_splits)
next
  case (delete_user flt i d res d')
  then show ?case by (auto simp: DeleteUser_def db_ok_def table_ok split: option.splits if_splits)
next
  case (create_session flt tok i t d res d')
  then show ?case by (auto simp: CreateSession_def db_ok_def intro!: users_ok_session split: option.splits if_splits)
next
  case (delete_session flt tok d res d')
  then show ?case by (auto simp: DeleteSession_def db_ok_def table_ok split: option.splits)
next
  case (purge flt now d res d')
  then show ?case by (auto simp: PurgeExpiredSessions_def db_ok_def table_ok split: option.splits)
next
  case (create_plan flt now nm spec d res d')
  then show ?case by (auto simp: CreatePlan_def db_ok_def Let_def table_ok split: option.splits)
next
  case (update_plan flt flt' now i nm spec d res d')
  then show ?case by (auto simp: UpdatePlan_def db_ok_def Let_def table_ok split: option.splits if_splits)
next
  case (delete_plan flt i d res d')
  then show ?case by (auto simp: DeletePlan_def db_ok_def table_ok split: option.splits if_splits)
qed

section \<open>The interfaces\<close>

definition resolve_session :: "string \<Rightarrow> int64 \<Rightarrow> db \<Rightarrow> user option" where
  "resolve_session tok now d = (case UserForSession None tok now d of Inl _ \<Rightarrow> None | Inr u \<Rightarrow> Some u)"

text \<open>With the schema's constraints a token has one session and an identifier one user.\<close>

lemma find_distinct: "distinct (map f xs) \<Longrightarrow> find (\<lambda>x. f x = k \<and> p x) xs = Some x \<longleftrightarrow> x \<in> set xs \<and> f x = k \<and> p x"
proof (induction xs)
  case (Cons y ys)
  then show ?case by (cases "f y = k") (auto simp: image_iff)
qed simp

lemma find_distinct': "distinct (map f xs) \<Longrightarrow> find (\<lambda>x. f x = k) xs = Some x \<longleftrightarrow> x \<in> set xs \<and> f x = k"
  using find_distinct [of f xs k "\<lambda>_. True"] by simp

lemma resolve_iff:
  assumes "db_ok d"
  shows "resolve_session tok now d = Some u \<longleftrightarrow>
    (\<exists>s \<in> set (db_sessions d). ss_TokenHash s = tok \<and> now < ss_ExpiresAt s \<and> u \<in> set (db_users d) \<and> us_ID u = ss_UserID s)"
proof -
  have s: "distinct (map ss_TokenHash (db_sessions d))" and u: "distinct (map us_ID (db_users d))"
    using assms by (simp_all add: db_ok_def users_ok_def)
  let ?f = "find (\<lambda>s. ss_TokenHash s = tok \<and> now < ss_ExpiresAt s) (db_sessions d)"
  have f: "?f = Some x \<longleftrightarrow> x \<in> set (db_sessions d) \<and> ss_TokenHash x = tok \<and> now < ss_ExpiresAt x" for x
    by (rule find_distinct [OF s])
  have "resolve_session tok now d = Some u \<longleftrightarrow> (\<exists>x. ?f = Some x \<and> find (\<lambda>u. us_ID u = ss_UserID x) (db_users d) = Some u)"
    by (simp add: resolve_session_def UserForSession_def split: option.splits)
  also have "\<dots> \<longleftrightarrow> (\<exists>x. (x \<in> set (db_sessions d) \<and> ss_TokenHash x = tok \<and> now < ss_ExpiresAt x) \<and> u \<in> set (db_users d) \<and> us_ID u = ss_UserID x)"
    by (simp only: f find_distinct' [OF u])
  finally show ?thesis by auto
qed

lemma option_iff: "(\<And>u. x = Some u \<longleftrightarrow> y = Some u) \<Longrightarrow> x = y"
  by (cases x; cases y) auto

definition revoke_session :: "string \<Rightarrow> db \<Rightarrow> db" where
  "revoke_session tok d = snd (DeleteSession None tok d)"

definition purge_sessions :: "int64 \<Rightarrow> db \<Rightarrow> db" where
  "purge_sessions now d = snd (PurgeExpiredSessions None now d)"

definition remove_user :: "int64 \<Rightarrow> db \<Rightarrow> db" where
  "remove_user i d = snd (DeleteUser None i d)"

lemma session_ops_ok:
  "db_ok d \<Longrightarrow> db_ok (revoke_session tok d)" "db_ok d \<Longrightarrow> db_ok (purge_sessions now d)" "db_ok d \<Longrightarrow> db_ok (remove_user i d)"
  using db_step_ok db_step.intros by (metis revoke_session_def purge_sessions_def remove_user_def prod.collapse)+

lemma session_ops_tables:
  "db_sessions (revoke_session tok d) = filter (\<lambda>s. ss_TokenHash s \<noteq> tok) (db_sessions d)" "db_users (revoke_session tok d) = db_users d"
  "db_sessions (purge_sessions now d) = filter (\<lambda>s. \<not> ss_ExpiresAt s \<le> now) (db_sessions d)" "db_users (purge_sessions now d) = db_users d"
  by (simp_all add: revoke_session_def DeleteSession_def purge_sessions_def PurgeExpiredSessions_def)

lemma remove_user_tables:
  assumes "db_ok d"
  shows "db_sessions (remove_user i d) = filter (\<lambda>s. ss_UserID s \<noteq> i) (db_sessions d)"
    and "db_users (remove_user i d) = filter (\<lambda>u. us_ID u \<noteq> i) (db_users d)"
proof (atomize (full), cases "i \<in> us_ID ` set (db_users d)")
  case True
  then have "count_where (\<lambda>u. us_ID u = i) (db_users d) \<noteq> 0" by (auto simp: count_where_def filter_empty_conv)
  then show "db_sessions (remove_user i d) = filter (\<lambda>s. ss_UserID s \<noteq> i) (db_sessions d) \<and>
    db_users (remove_user i d) = filter (\<lambda>u. us_ID u \<noteq> i) (db_users d)" by (simp add: remove_user_def DeleteUser_def)
next
  case False
  then have "count_where (\<lambda>u. us_ID u = i) (db_users d) = 0" by (auto simp: count_where_def filter_empty_conv)
  moreover have "filter (\<lambda>u. us_ID u \<noteq> i) (db_users d) = db_users d" using False by (auto simp: filter_id_conv)
  moreover have "i \<notin> ss_UserID ` set (db_sessions d)" using assms False unfolding db_ok_def users_ok_def by blast
  then have "filter (\<lambda>s. ss_UserID s \<noteq> i) (db_sessions d) = db_sessions d" by (auto simp: filter_id_conv)
  ultimately show "db_sessions (remove_user i d) = filter (\<lambda>s. ss_UserID s \<noteq> i) (db_sessions d) \<and>
    db_users (remove_user i d) = filter (\<lambda>u. us_ID u \<noteq> i) (db_users d)" by (simp add: remove_user_def DeleteUser_def)
qed

interpretation sess: session_store db_ok resolve_session us_ID revoke_session purge_sessions remove_user
proof unfold_locales
  fix d tok now u now' assume ok: "db_ok d"
  show "resolve_session tok now d = Some u \<Longrightarrow> now' \<le> now \<Longrightarrow> resolve_session tok now' d = Some u"
    by (auto simp: resolve_iff [OF ok])
next
  fix d tok now tok' assume ok: "db_ok d"
  show "resolve_session tok now (revoke_session tok' d) = (if tok = tok' then None else resolve_session tok now d)"
    by (rule option_iff) (auto simp: resolve_iff [OF ok] resolve_iff [OF session_ops_ok(1) [OF ok]] session_ops_tables)
next
  fix d t now tok assume ok: "db_ok d" and t: "t \<le> (now :: int)"
  show "resolve_session tok now (purge_sessions t d) = resolve_session tok now d"
    using t by (intro option_iff) (auto simp: resolve_iff [OF ok] resolve_iff [OF session_ops_ok(2) [OF ok]] session_ops_tables)
next
  fix d tok now i assume ok: "db_ok d"
  show "resolve_session tok now (remove_user i d) = (case resolve_session tok now d of None \<Rightarrow> None | Some u \<Rightarrow> if us_ID u = i then None else Some u)"
  proof (rule option_iff)
    fix u
    have "resolve_session tok now (remove_user i d) = Some u \<longleftrightarrow> resolve_session tok now d = Some u \<and> us_ID u \<noteq> i"
      by (auto simp: resolve_iff [OF ok] resolve_iff [OF session_ops_ok(3) [OF ok]] remove_user_tables [OF ok])
    then show "resolve_session tok now (remove_user i d) = Some u \<longleftrightarrow>
      (case resolve_session tok now d of None \<Rightarrow> None | Some u \<Rightarrow> if us_ID u = i then None else Some u) = Some u"
      by (auto split: option.split)
  qed
qed (auto intro: session_ops_ok)

definition run_status :: "string \<Rightarrow> db \<Rightarrow> string option" where
  "run_status i d = map_option rw_Status (find_run i d)"

definition next_run :: "db \<Rightarrow> string option" where
  "next_run d = (case NextQueued None d of Inl _ \<Rightarrow> None | Inr r \<Rightarrow> Some (rw_ID r))"

definition dispatch_run :: "string \<Rightarrow> db \<Rightarrow> bool \<times> db" where
  "dispatch_run i d = (case MarkDispatched None i 0 0 d of (Inl _, d') \<Rightarrow> (False, d') | (Inr _, d') \<Rightarrow> (True, d'))"

definition put_status :: "string \<Rightarrow> string \<Rightarrow> db \<Rightarrow> db" where
  "put_status i st d = snd (SetRunStatus None i st d)"

lemma run_status_iff: "db_ok d \<Longrightarrow> run_status i d = Some st \<longleftrightarrow> (\<exists>r \<in> set (db_runs d). rw_ID r = i \<and> rw_Status r = st)"
  by (auto simp: run_status_def find_run_Some)

lemma find_update_where: "(\<And>r. rw_ID (f r) = rw_ID r) \<Longrightarrow>
    find (\<lambda>r. rw_ID r = j) (update_where p f rs) = map_option (\<lambda>r. if p r then f r else r) (find (\<lambda>r. rw_ID r = j) rs)"
  by (induction rs) (auto simp: update_where_def)

lemma count_where_0: "count_where p rs = 0 \<longleftrightarrow> (\<forall>r \<in> set rs. \<not> p r)"
  by (auto simp: count_where_def filter_empty_conv)

lemma update_runs_status:
  assumes "db_ok d" and "\<And>r. rw_ID (f r) = rw_ID r" and "\<And>r. rw_Status (f r) = st" and "\<And>r. p r \<longleftrightarrow> rw_ID r = i \<and> q (rw_Status r)"
  shows "run_status j (snd (update_runs None p f d)) = (if j = i \<and> (\<exists>s. run_status i d = Some s \<and> q s) then Some st else run_status j d)"
    and "fst (update_runs None p f d) = (if \<exists>s. run_status i d = Some s \<and> q s then Inr () else Inl ErrNotFound)"
proof -
  have c: "count_where p (db_runs d) = 0 \<longleftrightarrow> \<not> (\<exists>s. run_status i d = Some s \<and> q s)"
    by (auto simp: count_where_0 assms(4) run_status_iff [OF assms(1)])
  then show "fst (update_runs None p f d) = (if \<exists>s. run_status i d = Some s \<and> q s then Inr () else Inl ErrNotFound)"
    by (simp add: update_runs_def)
  have "run_status j (d\<lparr>db_runs := update_where p f (db_runs d)\<rparr>)
      = map_option (\<lambda>r. rw_Status (if p r then f r else r)) (find_run j d)"
    by (simp add: run_status_def find_run_def find_update_where [OF assms(2)] option.map_comp comp_def)
  also have "\<dots> = (if j = i \<and> (\<exists>s. run_status i d = Some s \<and> q s) then Some st else run_status j d)"
  proof (cases "find_run j d")
    case (Some r)
    then have "rw_ID r = j" by (simp add: find_run_Some [OF assms(1)])
    with Some show ?thesis by (auto simp: run_status_def assms(3,4))
  next
    case None
    then show ?thesis by (auto simp: run_status_def)
  qed
  finally show "run_status j (snd (update_runs None p f d)) = (if j = i \<and> (\<exists>s. run_status i d = Some s \<and> q s) then Some st else run_status j d)"
    using c by (auto simp: update_runs_def)
qed

lemma dispatch_run_status:
  assumes "db_ok d"
  shows "fst (dispatch_run i d) \<longleftrightarrow> run_status i d = Some ''QUEUED''"
    and "run_status j (snd (dispatch_run i d)) = (if j = i \<and> run_status i d = Some ''QUEUED'' then Some ''RUNNING'' else run_status j d)"
  using update_runs_status [OF assms, of "\<lambda>r. r\<lparr>rw_Status := ''RUNNING'', rw_DispatchedAt := Some 0, rw_Workers := 0\<rparr>" "''RUNNING''"
      "\<lambda>r. rw_ID r = i \<and> rw_Status r = ''QUEUED''" i "\<lambda>s. s = ''QUEUED''"]
  by (auto simp: dispatch_run_def MarkDispatched_def split: prod.splits sum.splits if_splits)

lemma put_status_status:
  "db_ok d \<Longrightarrow> run_status j (put_status i st d) = (if j = i \<and> run_status i d \<noteq> None then Some st else run_status j d)"
  using update_runs_status(1) [of d "\<lambda>r. r\<lparr>rw_Status := st\<rparr>" st "\<lambda>r. rw_ID r = i" i "\<lambda>_. True" j]
  by (simp add: put_status_def SetRunStatus_def)

lemma run_ops_ok: "db_ok d \<Longrightarrow> db_ok (snd (dispatch_run i d))" "db_ok d \<Longrightarrow> db_ok (put_status i st d)"
proof -
  show "db_ok d \<Longrightarrow> db_ok (put_status i st d)"
    unfolding put_status_def by (rule db_step_ok [OF db_step.set_status [OF surjective_pairing]])
  have "snd (dispatch_run i d) = snd (MarkDispatched None i 0 0 d)" by (simp add: dispatch_run_def split: prod.split sum.split)
  then show "db_ok d \<Longrightarrow> db_ok (snd (dispatch_run i d))"
    using db_step_ok [OF db_step.mark [OF surjective_pairing]] by simp
qed

lemma next_run_Some: "next_run d = Some i \<Longrightarrow> \<exists>r. NextQueued None d = Inr r \<and> rw_ID r = i"
  by (auto simp: next_run_def split: sum.splits)

lemma NextQueued_cases:
  "NextQueued None d = Inr r \<longleftrightarrow> (\<exists>rs. queued_runs d = r # rs)" "NextQueued None d = Inl e \<longleftrightarrow> e = ErrNotFound \<and> queued_runs d = []"
  by (auto simp: NextQueued_def split: list.splits)

lemma set_queued_runs: "set (queued_runs d) = {r \<in> set (db_runs d). rw_Status r = ''QUEUED''}"
  by (auto simp: queued_runs_def)

interpretation tbl: run_table db_ok run_status next_run dispatch_run put_status
proof unfold_locales
  fix d i assume "db_ok d" and "next_run d = Some i"
  then show "run_status i d = Some ''QUEUED''"
    using set_queued_runs [of d] by (fastforce dest!: next_run_Some simp: NextQueued_cases run_status_iff)
next
  fix d i assume "db_ok d" and "next_run d = None"
  then show "run_status i d \<noteq> Some ''QUEUED''"
    using set_queued_runs [of d] by (auto simp: next_run_def NextQueued_cases run_status_iff split: sum.splits)
qed (simp_all add: run_ops_ok dispatch_run_status put_status_status)

section \<open>Properties\<close>

text \<open>C27: every sequence of writes from the empty database keeps what the schema promises: no two
  runs, users, sessions or plans with the same key, no two names that differ only in case, one sample per run
  and instant, every sample of a stored run and every session of a stored user.\<close>

theorem store_keeps_constraints: "db_step\<^sup>*\<^sup>* empty_db d \<Longrightarrow> db_ok d"
proof (induction rule: rtranclp_induct)
  case base
  show ?case by (simp add: empty_db_def db_ok_def runs_ok_def users_ok_def plans_ok_def)
qed (rule db_step_ok)

theorem store_keeps_constraints_witness:
  "db_ok (snd (CreateSession None ''t'' 1 50 (snd (CreateUser None 7 ''root'' ''h'' empty_db))))"
  by (rule store_keeps_constraints, rule rtranclp.rtrancl_into_rtrancl,
      rule rtranclp.rtrancl_into_rtrancl, rule rtranclp.rtrancl_refl,
      rule db_step.create_user, rule surjective_pairing, rule db_step.create_session, rule surjective_pairing)

text \<open>User identifiers are not handed out twice, so a deleted user does not come back.\<close>

lemma gone_user_step:
  assumes "db_step d d'"
  shows "i \<le> db_lastUser d \<and> i \<notin> us_ID ` set (db_users d) \<Longrightarrow> i \<le> db_lastUser d' \<and> i \<notin> us_ID ` set (db_users d')"
  using assms
proof (induction rule: db_step.induct)
  case (create_user flt now nm h d res d')
  then show ?case by (auto simp: CreateUser_def Let_def split: option.splits if_splits)
next
  case (delete_user flt j d res d')
  then show ?case by (auto simp: DeleteUser_def split: option.splits if_splits)
qed (auto simp: CreateRun_def FinishRun_def DeleteRun_def MarkDispatched_def SetRunStatus_def update_runs_def FailInterruptedRuns_def
      AddSample_def CreateSession_def DeleteSession_def PurgeExpiredSessions_def CreatePlan_def UpdatePlan_def DeletePlan_def Let_def
      split: option.splits if_splits)


definition two_users :: db where
  "two_users = empty_db\<lparr>db_users := [\<lparr>us_ID = 1, us_Username = ''ann'', us_PasswordHash = ''h'', us_CreatedAt = 0\<rparr>,
       \<lparr>us_ID = 2, us_Username = ''bob'', us_PasswordHash = ''k'', us_CreatedAt = 0\<rparr>],
     db_sessions := [\<lparr>ss_TokenHash = ''s'', ss_UserID = 1, ss_ExpiresAt = 9\<rparr>, \<lparr>ss_TokenHash = ''t'', ss_UserID = 2, ss_ExpiresAt = 9\<rparr>],
     db_lastUser := 2\<rparr>"

lemma two_users_ok: "db_ok two_users"
  by (simp add: two_users_def empty_db_def db_ok_def runs_ok_def users_ok_def plans_ok_def) code_simp


text \<open>A session that was signed out stays out: through later expiry purges, sign-outs and
  deletions of users, and at any later time, its token is not found.\<close>

theorem signed_out_stays_out:
  assumes "db_ok d" and "sess.ended_later t (snd (DeleteSession None tok d)) t' d'"
  shows "UserForSession None tok t' d' = Inl ErrNotFound"
proof -
  have "resolve_session tok t (revoke_session tok d) = None" using sess.resolve_revoke [OF assms(1)] by simp
  then have "resolve_session tok t' d' = None"
    using sess.dead_stays_dead assms session_ops_ok(1) [OF assms(1), of tok] by (simp add: revoke_session_def)
  then show ?thesis by (auto simp: resolve_session_def UserForSession_def split: sum.splits option.splits)
qed

theorem signed_out_stays_out_witness:
  "UserForSession None ''t'' 5 (snd (DeleteUser None 1 (snd (DeleteSession None ''t'' two_users)))) = Inl ErrNotFound"
  by (rule signed_out_stays_out [OF two_users_ok, of 3])
     (use sess.ended_later.removed [OF sess.ended_later.wait [OF sess.ended_later.same], of 3 5 _ 1] in \<open>simp add: remove_user_def\<close>)

text \<open>The queue hands out the run that waited longest: it is queued, nothing queued started
  before it, and the position the API reports for it is zero.\<close>

theorem NextQueued_first_in_line:
  assumes "db_ok d" and "NextQueued None d = Inr r"
  shows "r \<in> set (db_runs d) \<and> rw_Status r = ''QUEUED''
    \<and> (\<forall>r' \<in> set (db_runs d). rw_Status r' = ''QUEUED'' \<longrightarrow> rw_StartedAt r \<le> rw_StartedAt r')
    \<and> CountQueuedBefore None (rw_ID r) d = Inr 0"
proof -
  obtain rs where q: "queued_runs d = r # rs" using assms(2) by (auto simp: NextQueued_cases)
  then have r: "r \<in> set (db_runs d) \<and> rw_Status r = ''QUEUED''" using set_queued_runs [of d] by auto
  have "sorted (map rw_StartedAt (r # rs))" using q sorted_sort_key unfolding queued_runs_def by metis
  then have "\<forall>r' \<in> set (queued_runs d). rw_StartedAt r \<le> rw_StartedAt r'" unfolding q by simp
  then have le: "\<forall>r' \<in> set (db_runs d). rw_Status r' = ''QUEUED'' \<longrightarrow> rw_StartedAt r \<le> rw_StartedAt r'"
    by (simp add: set_queued_runs)
  have "find_run (rw_ID r) d = Some r" using find_run_Some [OF assms(1)] r by blast
  with le have "CountQueuedBefore None (rw_ID r) d = Inr 0"
    by (auto simp: CountQueuedBefore_def count_where_0 not_less)
  with r le show ?thesis by blast
qed

definition two_queued :: db where
  "two_queued = empty_db\<lparr>db_runs := [zero_run\<lparr>rw_ID := ''b'', rw_Status := ''QUEUED'', rw_StartedAt := 20\<rparr>,
     zero_run\<lparr>rw_ID := ''a'', rw_Status := ''QUEUED'', rw_StartedAt := 10\<rparr>]\<rparr>"

lemma two_queued_ok: "db_ok two_queued"
  by (simp add: two_queued_def zero_run_def empty_db_def db_ok_def runs_ok_def users_ok_def plans_ok_def)

lemma two_queued_next: "NextQueued None two_queued = Inr (zero_run\<lparr>rw_ID := ''a'', rw_Status := ''QUEUED'', rw_StartedAt := 10\<rparr>)"
  by (simp add: two_queued_def zero_run_def empty_db_def NextQueued_def queued_runs_def)

theorem NextQueued_first_in_line_witness: "CountQueuedBefore None ''a'' two_queued = Inr 0"
  using NextQueued_first_in_line [OF two_queued_ok two_queued_next] by simp

text \<open>A queued run is claimed once: after the first dispatch, no sequence of dispatches and of
  statuses other than \<open>QUEUED\<close> makes the guarded update of \<open>MarkDispatched\<close> touch it again.\<close>

theorem run_dispatched_once:
  assumes "db_ok d" and "fst (dispatch_run i d)" and "tbl.served (snd (dispatch_run i d)) d'"
  shows "MarkDispatched None i n t d' = (Inl ErrNotFound, d')"
proof -
  have ok: "db_ok d'" using tbl.served_valid [OF assms(3)] tbl.valid_dispatched assms(1) by blast
  have "\<not> fst (dispatch_run i d')" by (rule tbl.never_dispatched_again [OF assms])
  then have "count_where (\<lambda>r. rw_ID r = i \<and> rw_Status r = ''QUEUED'') (db_runs d') = 0"
    using ok by (auto simp: dispatch_run_status count_where_0 run_status_iff)
  then show ?thesis by (simp add: MarkDispatched_def update_runs_def)
qed

theorem run_dispatched_once_witness:
  "fst (MarkDispatched None ''a'' 3 5 (put_status ''a'' ''COMPLETED'' (snd (dispatch_run ''a'' two_queued)))) = Inl ErrNotFound"
proof -
  have "fst (dispatch_run ''a'' two_queued)" by (simp add: dispatch_run_status [OF two_queued_ok]) (simp add: run_status_def find_run_def two_queued_def zero_run_def empty_db_def)
  then show ?thesis
    using run_dispatched_once [OF two_queued_ok _ tbl.served_status [OF tbl.served_refl]] by simp
qed

end
