(* ===== verification/Recorder.thy ===== *)
theory Recorder
  imports Run_Store Proto_Messages "HOL-Library.Sublist"
begin

text \<open>
  The recorder of \<open>internal/api/recorder.go\<close> and the wire shapes of \<open>internal/api/sse.go\<close>. A run
  being recorded is a session: it persists each snapshot and sends it to the dashboards that
  subscribed. A dashboard's buffered channel is an element of a list of channels, named by its
  index; sending on a closed channel and closing one twice are panics, the value \<open>None\<close>. A send
  to several subscribers treats each channel on its own, so the order of the map does not matter.

  The recorder's loop is a function of what its \<open>select\<close> receives: a message or the end of the
  metrics stream, the answer to a status request, or the deadline. Each input comes with the
  clock and with the store's faults.
\<close>

section \<open>Wire shapes\<close>

record api_rps =
  arp_Current :: f64
  arp_Average :: f64
  arp_Peak :: f64

record api_latency =
  ala_MinMs :: int64
  ala_MaxMs :: int64
  ala_MeanMs :: int64
  ala_P50Ms :: int64
  ala_P95Ms :: int64
  ala_P99Ms :: int64
  ala_Count :: int64

record api_errors =
  aer_Rate :: f64
  aer_Percentage :: f64

record api_metrics =
  am_TimestampMs :: int64
  am_RPS :: api_rps
  am_Latency :: api_latency
  am_Errors :: api_errors
  am_TotalRequests :: int64
  am_TotalErrors :: int64

definition metricsFromProto :: "pb_snapshot option \<Rightarrow> api_metrics option" where
  "metricsFromProto s =
     (case s of None \<Rightarrow> None
      | Some s \<Rightarrow> Some \<lparr>am_TimestampMs = psn_TimestampMs s,
          am_RPS = (case psn_Rps s of None \<Rightarrow> \<lparr>arp_Current = Fin 0, arp_Average = Fin 0, arp_Peak = Fin 0\<rparr>
             | Some r \<Rightarrow> \<lparr>arp_Current = prps_Current r, arp_Average = prps_Average r, arp_Peak = prps_Peak r\<rparr>),
          am_Latency = (case psn_Latency s of
               None \<Rightarrow> \<lparr>ala_MinMs = 0, ala_MaxMs = 0, ala_MeanMs = 0, ala_P50Ms = 0, ala_P95Ms = 0, ala_P99Ms = 0, ala_Count = 0\<rparr>
             | Some l \<Rightarrow> \<lparr>ala_MinMs = plat_MinMs l, ala_MaxMs = plat_MaxMs l, ala_MeanMs = plat_MeanMs l,
                 ala_P50Ms = plat_P50Ms l, ala_P95Ms = plat_P95Ms l, ala_P99Ms = plat_P99Ms l, ala_Count = plat_Count l\<rparr>),
          am_Errors = (case psn_ErrorRate s of None \<Rightarrow> \<lparr>aer_Rate = Fin 0, aer_Percentage = Fin 0\<rparr>
             | Some e \<Rightarrow> \<lparr>aer_Rate = per_Rate e, aer_Percentage = per_Percentage e\<rparr>),
          am_TotalRequests = psn_TotalRequests s, am_TotalErrors = psn_TotalErrors s\<rparr>)"

record run_status_out =
  rso_TestID :: string
  rso_Status :: string
  rso_ActiveWorkers :: int32
  rso_TotalVUs :: int32
  rso_Metrics :: "api_metrics option"
  rso_Run :: "run_row option"
  rso_Position :: nat

fun isTerminal :: "pb_status \<Rightarrow> bool" where
  "isTerminal COMPLETED = True"
| "isTerminal FAILED = True"
| "isTerminal STOPPED = True"
| "isTerminal _ = False"

section \<open>Sessions and subscribers\<close>

datatype event = MetricsEvent api_metrics | StatusEvent run_status_out | EndEvent string

record chan =
  ch_buf :: "event list"
  ch_closed :: bool

record session =
  se_testID :: string
  se_subs :: "nat list"
  se_closed :: bool
  se_last :: "api_metrics option"
  se_peakRPS :: f64
  se_status :: string

definition chan_cap :: nat where "chan_cap = 64"

text \<open>\<open>select { case ch <- ev: default: }\<close> and \<open>close(ch)\<close>.\<close>

definition try_send :: "event \<Rightarrow> chan \<Rightarrow> chan option" where
  "try_send ev c =
     (if ch_closed c then None
      else Some (if length (ch_buf c) < chan_cap then c\<lparr>ch_buf := ch_buf c @ [ev]\<rparr> else c))"

definition close_chan :: "chan \<Rightarrow> chan option" where
  "close_chan c = (if ch_closed c then None else Some (c\<lparr>ch_closed := True\<rparr>))"

fun on_subs :: "(chan \<Rightarrow> chan option) \<Rightarrow> nat list \<Rightarrow> chan list \<Rightarrow> chan list option" where
  "on_subs f [] cs = Some cs"
| "on_subs f (i # is) cs =
     (case f (cs ! i) of None \<Rightarrow> None | Some c \<Rightarrow> on_subs f is (cs[i := c]))"

definition subscribe :: "session \<Rightarrow> chan list \<Rightarrow> nat \<times> session \<times> chan list" where
  "subscribe s cs =
     (if se_closed s then (length cs, s, cs @ [\<lparr>ch_buf = [], ch_closed = True\<rparr>])
      else (length cs, s\<lparr>se_subs := se_subs s @ [length cs]\<rparr>,
            cs @ [\<lparr>ch_buf = (case se_last s of None \<Rightarrow> [] | Some m \<Rightarrow> [MetricsEvent m]), ch_closed = False\<rparr>]))"

definition unsubscribe :: "nat \<Rightarrow> session \<Rightarrow> chan list \<Rightarrow> (session \<times> chan list) option" where
  "unsubscribe i s cs =
     (if i \<in> set (se_subs s)
      then (case close_chan (cs ! i) of None \<Rightarrow> None
            | Some c \<Rightarrow> Some (s\<lparr>se_subs := removeAll i (se_subs s)\<rparr>, cs[i := c]))
      else Some (s, cs))"

definition publish :: "event \<Rightarrow> session \<Rightarrow> chan list \<Rightarrow> chan list option" where
  "publish ev s cs = (if se_closed s then Some cs else on_subs (try_send ev) (se_subs s) cs)"

definition close_session :: "event \<Rightarrow> session \<Rightarrow> chan list \<Rightarrow> (session \<times> chan list) option" where
  "close_session final s cs =
     (if se_closed s then Some (s, cs)
      else (case on_subs (\<lambda>c. Option.bind (try_send final c) close_chan) (se_subs s) cs of
              None \<Rightarrow> None
            | Some cs' \<Rightarrow> Some (s\<lparr>se_closed := True, se_subs := []\<rparr>, cs')))"

text \<open>The dashboard's side: the next event, if there is one, and whether the channel is at its end.\<close>

definition receive :: "nat \<Rightarrow> chan list \<Rightarrow> (event \<times> chan list) option" where
  "receive i cs =
     (case ch_buf (cs ! i) of [] \<Rightarrow> None | ev # evs \<Rightarrow> Some (ev, cs[i := (cs ! i)\<lparr>ch_buf := evs\<rparr>]))"

section \<open>The recorder\<close>

record recording =
  rc_sess :: session
  rc_chans :: "chan list"
  rc_db :: db

definition new_session :: "string \<Rightarrow> session" where
  "new_session testID = \<lparr>se_testID = testID, se_subs = [], se_closed = False, se_last = None, se_peakRPS = Fin 0,
     se_status = ''RUNNING''\<rparr>"

definition sample_of :: "int64 \<Rightarrow> api_metrics \<Rightarrow> sample" where
  "sample_of now m = \<lparr>sm_TsMs = now, sm_RPS = arp_Current (am_RPS m), sm_ErrRate = aer_Rate (am_Errors m),
     sm_ErrPct = aer_Percentage (am_Errors m), sm_P50Ms = ala_P50Ms (am_Latency m), sm_P95Ms = ala_P95Ms (am_Latency m),
     sm_P99Ms = ala_P99Ms (am_Latency m), sm_Requests = am_TotalRequests m, sm_Errors = am_TotalErrors m\<rparr>"

text \<open>A failure is only logged.\<close>

definition persistSample :: "fault \<Rightarrow> int64 \<Rightarrow> string \<Rightarrow> api_metrics \<Rightarrow> db \<Rightarrow> db" where
  "persistSample flt now testID m d = snd (AddSample flt testID (sample_of now m) d)"

definition run_summary :: "session \<Rightarrow> run_row" where
  "run_summary s =
     (case se_last s of None \<Rightarrow> zero_run
      | Some m \<Rightarrow> zero_run\<lparr>rw_TotalRequests := am_TotalRequests m, rw_TotalErrors := am_TotalErrors m,
          rw_ErrorPct := aer_Percentage (am_Errors m), rw_PeakRPS := se_peakRPS s, rw_AvgRPS := arp_Average (am_RPS m),
          rw_P95Ms := ala_P95Ms (am_Latency m), rw_P99Ms := ala_P99Ms (am_Latency m)\<rparr>)"

definition finish :: "fault \<Rightarrow> int64 \<Rightarrow> string \<Rightarrow> recording \<Rightarrow> recording option" where
  "finish flt now status r =
     (case close_session (EndEvent status) (rc_sess r) (rc_chans r) of
        None \<Rightarrow> None
      | Some (s, cs) \<Rightarrow> Some (r\<lparr>rc_sess := s, rc_chans := cs,
          rc_db := snd (FinishRun flt (se_testID (rc_sess r)) status now (run_summary (rc_sess r)) (rc_db r))\<rparr>))"

text \<open>What the loop's \<open>select\<close> delivers. \<open>StatusTick None\<close> is a request that failed.\<close>

datatype rec_input =
    StreamFailed
  | StreamMsg "pb_snapshot option"
  | StreamEnd
  | StatusTick "test_status_response option"
  | Deadline

definition show_metrics :: "fault \<Rightarrow> int64 \<Rightarrow> api_metrics \<Rightarrow> recording \<Rightarrow> recording option" where
  "show_metrics flt now m r =
     (case publish (MetricsEvent m) (rc_sess r) (rc_chans r) of
        None \<Rightarrow> None
      | Some cs \<Rightarrow> Some (r\<lparr>rc_chans := cs, rc_db := persistSample flt now (se_testID (rc_sess r)) m (rc_db r)\<rparr>))"

text \<open>One turn of \<open>Recorder.run\<close>: the new state, and the status handed to \<open>onDone\<close> when the run
  is over. \<open>flt\<close> is the fault of the sample, \<open>flt'\<close> that of the summary.\<close>

definition rec_step :: "fault \<Rightarrow> fault \<Rightarrow> int64 \<Rightarrow> rec_input \<Rightarrow> recording \<Rightarrow> (recording \<times> string option) option" where
  "rec_step flt flt' now inp r =
     (let s = rc_sess r; ending = (\<lambda>st r. map_option (\<lambda>r'. (r', Some st)) (finish flt' now st r))
      in case inp of
           StreamFailed \<Rightarrow> ending ''FAILED'' r
         | Deadline \<Rightarrow> ending ''FAILED'' r
         | StreamEnd \<Rightarrow> ending (se_status s) r
         | StreamMsg p \<Rightarrow>
             (case metricsFromProto p of
                None \<Rightarrow> Some (r, None)
              | Some m \<Rightarrow>
                  let s' = s\<lparr>se_last := Some m,
                      se_peakRPS := (if f64_less (se_peakRPS s) (arp_Current (am_RPS m)) then arp_Current (am_RPS m) else se_peakRPS s)\<rparr>
                  in map_option (\<lambda>r'. (r', None)) (show_metrics flt now m (r\<lparr>rc_sess := s'\<rparr>)))
         | StatusTick None \<Rightarrow> Some (r, None)
         | StatusTick (Some resp) \<Rightarrow>
             let st = pb_status_string (tsr_Status resp); r1 = r\<lparr>rc_sess := s\<lparr>se_status := st\<rparr>\<rparr>
             in (case publish (StatusEvent \<lparr>rso_TestID = se_testID s, rso_Status = st, rso_ActiveWorkers = tsr_ActiveWorkers resp,
                      rso_TotalVUs = tsr_TotalVus resp, rso_Metrics = None, rso_Run = None, rso_Position = 0\<rparr>) (rc_sess r1) (rc_chans r1) of
                  None \<Rightarrow> None
                | Some cs \<Rightarrow>
                    let r2 = r1\<lparr>rc_chans := cs\<rparr>
                    in if \<not> isTerminal (tsr_Status resp) then Some (r2, None)
                       else (case metricsFromProto (tsr_CurrentMetrics resp) of
                               None \<Rightarrow> ending st r2
                             | Some m \<Rightarrow>
                                 Option.bind (show_metrics flt now m (r2\<lparr>rc_sess := (rc_sess r2)\<lparr>se_last := Some m\<rparr>\<rparr>)) (ending st))))"

text \<open>The table of live sessions.\<close>

type_synonym sessions = "(string, session) gomap"

definition Session :: "string \<Rightarrow> sessions \<Rightarrow> session option" where
  "Session testID ss = map_of ss testID"

definition StartRecording :: "string \<Rightarrow> sessions \<Rightarrow> sessions" where
  "StartRecording testID ss = AList.update testID (new_session testID) ss"

definition end_recording :: "string \<Rightarrow> sessions \<Rightarrow> sessions" where
  "end_recording testID ss = AList.delete testID ss"

section \<open>The channels\<close>

definition hub_ok :: "session \<Rightarrow> chan list \<Rightarrow> bool" where
  "hub_ok s cs \<longleftrightarrow> distinct (se_subs s) \<and> (se_closed s \<longrightarrow> se_subs s = [])
     \<and> (\<forall>i < length cs. ch_closed (cs ! i) \<longleftrightarrow> i \<notin> set (se_subs s)) \<and> set (se_subs s) \<subseteq> {..<length cs}
     \<and> (\<forall>i < length cs. length (ch_buf (cs ! i)) \<le> chan_cap)"

lemma on_subs_Some:
  assumes "distinct is" and "set is \<subseteq> {..<length cs}" and "\<forall>i \<in> set is. f (cs ! i) \<noteq> None"
  shows "\<exists>cs'. on_subs f is cs = Some cs' \<and> length cs' = length cs
    \<and> (\<forall>i < length cs. cs' ! i = (if i \<in> set is then the (f (cs ! i)) else cs ! i))"
  using assms
proof (induction "is" arbitrary: cs)
  case (Cons j js)
  then obtain c where c: "f (cs ! j) = Some c" by auto
  have "\<forall>i \<in> set js. f (cs[j := c] ! i) \<noteq> None" using Cons.prems by (auto simp: nth_list_update)
  with Cons.IH [of "cs[j := c]"] Cons.prems obtain cs' where "on_subs f js (cs[j := c]) = Some cs'" "length cs' = length cs"
    "\<forall>i < length cs. cs' ! i = (if i \<in> set js then the (f (cs[j := c] ! i)) else cs[j := c] ! i)" by auto
  with c Cons.prems show ?case by (auto simp: nth_list_update)
qed simp

lemma open_subs: "hub_ok s cs \<Longrightarrow> i \<in> set (se_subs s) \<Longrightarrow> i < length cs \<and> \<not> ch_closed (cs ! i)"
  by (auto simp: hub_ok_def)

definition sent_to :: "event \<Rightarrow> chan \<Rightarrow> chan" where
  "sent_to ev c = (if length (ch_buf c) < chan_cap then c\<lparr>ch_buf := ch_buf c @ [ev]\<rparr> else c)"

lemma sent_to_simps [simp]: "ch_closed (sent_to ev c) = ch_closed c"
  "length (ch_buf c) \<le> chan_cap \<Longrightarrow> length (ch_buf (sent_to ev c)) \<le> chan_cap"
  by (simp_all add: sent_to_def)

text \<open>What the three operations do to each channel; none of them panics.\<close>

lemma publish_ok:
  assumes "hub_ok s cs"
  shows "\<exists>cs'. publish ev s cs = Some cs' \<and> hub_ok s cs' \<and> length cs' = length cs
    \<and> (\<forall>i < length cs. cs' ! i = (if i \<in> set (se_subs s) then sent_to ev (cs ! i) else cs ! i))"
proof (cases "se_closed s")
  case False
  have "\<forall>i \<in> set (se_subs s). try_send ev (cs ! i) = Some (sent_to ev (cs ! i))"
    using open_subs [OF assms] by (simp add: try_send_def sent_to_def)
  then obtain cs' where cs: "on_subs (try_send ev) (se_subs s) cs = Some cs'" "length cs' = length cs"
    "\<forall>i < length cs. cs' ! i = (if i \<in> set (se_subs s) then sent_to ev (cs ! i) else cs ! i)"
    using on_subs_Some [of "se_subs s" cs "try_send ev"] assms by (auto simp: hub_ok_def)
  with assms have "hub_ok s cs'" by (auto simp: hub_ok_def)
  with cs False show ?thesis by (simp add: publish_def)
qed (use assms in \<open>simp add: publish_def hub_ok_def\<close>)

lemma close_session_ok:
  assumes "hub_ok s cs"
  shows "\<exists>s' cs'. close_session final s cs = Some (s', cs') \<and> hub_ok s' cs' \<and> length cs' = length cs
    \<and> s' = s\<lparr>se_closed := True, se_subs := []\<rparr> \<and> (\<forall>c \<in> set cs'. ch_closed c)
    \<and> (\<forall>i < length cs. ch_buf (cs' ! i) = ch_buf (if i \<in> set (se_subs s) then sent_to final (cs ! i) else cs ! i))"
proof (cases "se_closed s")
  case True
  then have "se_subs s = []" using assms by (simp add: hub_ok_def)
  moreover have "s\<lparr>se_closed := True, se_subs := []\<rparr> = s" using True calculation by (cases s) simp
  ultimately show ?thesis using assms True by (auto simp: close_session_def hub_ok_def in_set_conv_nth)
next
  case False
  let ?f = "\<lambda>c. Option.bind (try_send final c) close_chan"
  have "\<forall>i \<in> set (se_subs s). ?f (cs ! i) = Some ((sent_to final (cs ! i))\<lparr>ch_closed := True\<rparr>)"
    using open_subs [OF assms] by (simp add: try_send_def sent_to_def close_chan_def)
  then obtain cs' where cs: "on_subs ?f (se_subs s) cs = Some cs'" "length cs' = length cs"
    "\<forall>i < length cs. cs' ! i = (if i \<in> set (se_subs s) then (sent_to final (cs ! i))\<lparr>ch_closed := True\<rparr> else cs ! i)"
    using on_subs_Some [of "se_subs s" cs ?f] assms by (auto simp: hub_ok_def)
  have "\<forall>i < length cs. ch_closed (cs' ! i) \<and> length (ch_buf (cs' ! i)) \<le> chan_cap" using assms cs by (auto simp: hub_ok_def)
  with cs(2) have "hub_ok (s\<lparr>se_closed := True, se_subs := []\<rparr>) cs'" and "\<forall>c \<in> set cs'. ch_closed c"
    by (auto simp: hub_ok_def in_set_conv_nth)
  with cs False show ?thesis by (simp add: close_session_def)
qed

lemma hub_ok_fields: "se_subs s' = se_subs s \<Longrightarrow> se_closed s' = se_closed s \<Longrightarrow> hub_ok s' cs = hub_ok s cs"
  by (simp add: hub_ok_def)

lemma subscribe_ok:
  assumes "hub_ok s cs" and "subscribe s cs = (i, s', cs')"
  shows "hub_ok s' cs'" and "i = length cs" and "\<forall>j < length cs. cs' ! j = cs ! j"
proof -
  have d: "length cs \<notin> set (se_subs s)" using assms(1) by (auto simp: hub_ok_def)
  show "i = length cs" "\<forall>j < length cs. cs' ! j = cs ! j"
    using assms(2) by (auto simp: subscribe_def nth_append split: if_splits)
  have cap: "Suc 0 \<le> chan_cap" by (simp add: chan_cap_def)
  show "hub_ok s' cs'"
  proof (cases "se_closed s")
    case True
    with assms show ?thesis by (auto simp: subscribe_def hub_ok_def nth_append less_Suc_eq)
  next
    case False
    with assms d cap show ?thesis
      by (auto simp: subscribe_def hub_ok_def nth_append less_Suc_eq split: option.splits)
  qed
qed

lemma unsubscribe_ok:
  assumes "hub_ok s cs"
  shows "\<exists>s' cs'. unsubscribe i s cs = Some (s', cs') \<and> hub_ok s' cs' \<and> i \<notin> set (se_subs s')"
proof (cases "i \<in> set (se_subs s)")
  case True
  let ?cs = "cs[i := (cs ! i)\<lparr>ch_closed := True\<rparr>]"
  have "unsubscribe i s cs = Some (s\<lparr>se_subs := removeAll i (se_subs s)\<rparr>, ?cs)"
    using True open_subs [OF assms True] by (simp add: unsubscribe_def close_chan_def)
  moreover have "hub_ok (s\<lparr>se_subs := removeAll i (se_subs s)\<rparr>) ?cs"
    using assms open_subs [OF assms True] by (auto simp: hub_ok_def distinct_removeAll nth_list_update)
  ultimately show ?thesis by simp
qed (use assms in \<open>simp add: unsubscribe_def\<close>)

lemma receive_ok: "hub_ok s cs \<Longrightarrow> i < length cs \<Longrightarrow> receive i cs = Some (ev, cs') \<Longrightarrow> hub_ok s cs'"
proof -
  assume ok: "hub_ok s cs" and i: "i < length cs" and r: "receive i cs = Some (ev, cs')"
  then obtain evs where b: "ch_buf (cs ! i) = ev # evs" and cs': "cs' = cs[i := (cs ! i)\<lparr>ch_buf := evs\<rparr>]"
    by (auto simp: receive_def split: list.splits)
  have "length (ev # evs) \<le> chan_cap" using ok i b by (metis hub_ok_def)
  with ok cs' i show ?thesis by (auto simp: hub_ok_def nth_list_update)
qed

section \<open>What one turn does\<close>

text \<open>The metrics an input shows, the status it ends the run with, the session it leaves and
  the events it publishes.\<close>

definition shown :: "rec_input \<Rightarrow> api_metrics option" where
  "shown inp = (case inp of StreamMsg p \<Rightarrow> metricsFromProto p
     | StatusTick (Some resp) \<Rightarrow> if isTerminal (tsr_Status resp) then metricsFromProto (tsr_CurrentMetrics resp) else None
     | _ \<Rightarrow> None)"

definition final_status :: "rec_input \<Rightarrow> session \<Rightarrow> string option" where
  "final_status inp s = (case inp of StreamFailed \<Rightarrow> Some ''FAILED'' | Deadline \<Rightarrow> Some ''FAILED'' | StreamEnd \<Rightarrow> Some (se_status s)
     | StatusTick (Some resp) \<Rightarrow> if isTerminal (tsr_Status resp) then Some (pb_status_string (tsr_Status resp)) else None
     | _ \<Rightarrow> None)"

definition noted :: "rec_input \<Rightarrow> session \<Rightarrow> session" where
  "noted inp s = s\<lparr>se_status := (case inp of StatusTick (Some resp) \<Rightarrow> pb_status_string (tsr_Status resp) | _ \<Rightarrow> se_status s),
     se_last := (case shown inp of None \<Rightarrow> se_last s | Some m \<Rightarrow> Some m),
     se_peakRPS := (case inp of StreamMsg p \<Rightarrow> (case metricsFromProto p of None \<Rightarrow> se_peakRPS s
         | Some m \<Rightarrow> if f64_less (se_peakRPS s) (arp_Current (am_RPS m)) then arp_Current (am_RPS m) else se_peakRPS s) | _ \<Rightarrow> se_peakRPS s)\<rparr>"

definition tick_events :: "string \<Rightarrow> rec_input \<Rightarrow> event list" where
  "tick_events testID inp =
     (case inp of StatusTick (Some resp) \<Rightarrow> [StatusEvent \<lparr>rso_TestID = testID, rso_Status = pb_status_string (tsr_Status resp),
          rso_ActiveWorkers = tsr_ActiveWorkers resp, rso_TotalVUs = tsr_TotalVus resp, rso_Metrics = None, rso_Run = None, rso_Position = 0\<rparr>] | _ \<Rightarrow> [])"

definition published :: "rec_input \<Rightarrow> session \<Rightarrow> event list" where
  "published inp s = tick_events (se_testID s) inp
     @ (case shown inp of None \<Rightarrow> [] | Some m \<Rightarrow> [MetricsEvent m])
     @ (case final_status inp s of None \<Rightarrow> [] | Some st \<Rightarrow> [EndEvent st])"

definition stored :: "fault \<Rightarrow> int64 \<Rightarrow> rec_input \<Rightarrow> string \<Rightarrow> db \<Rightarrow> db" where
  "stored flt now inp testID d = (case shown inp of None \<Rightarrow> d | Some m \<Rightarrow> persistSample flt now testID m d)"

definition sends :: "event list \<Rightarrow> nat set \<Rightarrow> chan list \<Rightarrow> chan list \<Rightarrow> bool" where
  "sends evs is cs cs' \<longleftrightarrow> length cs' = length cs \<and> (\<forall>i < length cs. ch_buf (cs' ! i) = ch_buf (if i \<in> is then fold sent_to evs (cs ! i) else cs ! i))"

lemma sent_to_buf: "ch_buf c = ch_buf c' \<Longrightarrow> ch_buf (sent_to ev c) = ch_buf (sent_to ev c')"
  by (simp add: sent_to_def)

lemma fold_sent_to_buf: "ch_buf c = ch_buf c' \<Longrightarrow> ch_buf (fold sent_to evs c) = ch_buf (fold sent_to evs c')"
proof (induction evs arbitrary: c c')
  case (Cons ev evs)
  from Cons.IH [OF sent_to_buf [OF Cons.prems]] show ?case by simp
qed simp

lemma sends_trans: "sends es is cs cs1 \<Longrightarrow> sends es' is cs1 cs2 \<Longrightarrow> sends (es @ es') is cs cs2"
proof -
  assume 1: "sends es is cs cs1" and 2: "sends es' is cs1 cs2"
  have "ch_buf (cs2 ! i) = ch_buf (if i \<in> is then fold sent_to (es @ es') (cs ! i) else cs ! i)" if "i < length cs" for i
  proof (cases "i \<in> is")
    case True
    then have "ch_buf (cs1 ! i) = ch_buf (fold sent_to es (cs ! i))" "ch_buf (cs2 ! i) = ch_buf (fold sent_to es' (cs1 ! i))"
      using 1 2 that by (simp_all add: sends_def)
    with True show ?thesis using fold_sent_to_buf [of "cs1 ! i" "fold sent_to es (cs ! i)" es'] by simp
  next
    case False
    with 1 2 that show ?thesis by (simp add: sends_def)
  qed
  with 1 2 show ?thesis by (simp add: sends_def)
qed

lemma sends_Nil: "sends [] is cs cs"
  by (simp add: sends_def)

lemma publish_sends: "hub_ok s cs \<Longrightarrow> \<exists>cs'. publish ev s cs = Some cs' \<and> hub_ok s cs' \<and> sends [ev] (set (se_subs s)) cs cs'"
  using publish_ok [of s cs ev] by (auto simp: sends_def)

lemma close_sends: "hub_ok s cs \<Longrightarrow> \<exists>cs'. close_session final s cs = Some (s\<lparr>se_closed := True, se_subs := []\<rparr>, cs')
    \<and> hub_ok (s\<lparr>se_closed := True, se_subs := []\<rparr>) cs' \<and> (\<forall>c \<in> set cs'. ch_closed c) \<and> sends [final] (set (se_subs s)) cs cs'"
  using close_session_ok [of s cs final] by (auto simp: sends_def)

lemma show_metrics_sends:
  assumes "hub_ok (rc_sess r) (rc_chans r)"
  shows "\<exists>cs. show_metrics flt now m r = Some (r\<lparr>rc_chans := cs, rc_db := persistSample flt now (se_testID (rc_sess r)) m (rc_db r)\<rparr>)
    \<and> hub_ok (rc_sess r) cs \<and> sends [MetricsEvent m] (set (se_subs (rc_sess r))) (rc_chans r) cs"
  using publish_sends [OF assms, of "MetricsEvent m"] by (auto simp: show_metrics_def)

lemma finish_sends:
  assumes "hub_ok (rc_sess r) (rc_chans r)"
  shows "\<exists>cs. finish flt now st r = Some (r\<lparr>rc_sess := (rc_sess r)\<lparr>se_closed := True, se_subs := []\<rparr>, rc_chans := cs,
        rc_db := snd (FinishRun flt (se_testID (rc_sess r)) st now (run_summary (rc_sess r)) (rc_db r))\<rparr>)
    \<and> hub_ok ((rc_sess r)\<lparr>se_closed := True, se_subs := []\<rparr>) cs \<and> (\<forall>c \<in> set cs. ch_closed c)
    \<and> sends [EndEvent st] (set (se_subs (rc_sess r))) (rc_chans r) cs"
  using close_sends [OF assms, of "EndEvent st"] by (auto simp: finish_def)

text \<open>The loop's turn in these terms, whatever it receives: it does not panic.\<close>

definition turn :: "fault \<Rightarrow> int64 \<Rightarrow> fault \<Rightarrow> rec_input \<Rightarrow> recording \<Rightarrow> chan list \<Rightarrow> recording" where
  "turn flt now flt' inp r cs =
     (let s = noted inp (rc_sess r); d = stored flt now inp (se_testID (rc_sess r)) (rc_db r)
      in case final_status inp (rc_sess r) of
           None \<Rightarrow> r\<lparr>rc_sess := s, rc_chans := cs, rc_db := d\<rparr>
         | Some st \<Rightarrow> r\<lparr>rc_sess := s\<lparr>se_closed := True, se_subs := []\<rparr>, rc_chans := cs,
             rc_db := snd (FinishRun flt' (se_testID (rc_sess r)) st now (run_summary s) d)\<rparr>)"

lemma hub_ok_noted [simp]: "hub_ok (noted inp s) cs = hub_ok s cs"
  by (simp add: noted_def hub_ok_def)

lemma noted_simps [simp]: "se_subs (noted inp s) = se_subs s" "se_testID (noted inp s) = se_testID s" "se_closed (noted inp s) = se_closed s"
  by (simp_all add: noted_def)

lemma rec_step_turn:
  assumes "hub_ok (rc_sess r) (rc_chans r)"
  shows "\<exists>cs. rec_step flt flt' now inp r = Some (turn flt now flt' inp r cs, final_status inp (rc_sess r))
    \<and> hub_ok (rc_sess (turn flt now flt' inp r cs)) cs \<and> sends (published inp (rc_sess r)) (set (se_subs (rc_sess r))) (rc_chans r) cs
    \<and> (final_status inp (rc_sess r) \<noteq> None \<longrightarrow> (\<forall>c \<in> set cs. ch_closed c))"
proof -
  have noted_id: "noted StreamFailed s = s" "noted Deadline s = s" "noted StreamEnd s = s" "noted (StatusTick None) s = s" for s
    by (simp_all add: noted_def shown_def)
  show ?thesis
  proof (cases inp)
    case (StreamMsg p)
    show ?thesis
    proof (cases "metricsFromProto p")
      case None
      with StreamMsg assms show ?thesis
        by (intro exI [of _ "rc_chans r"]) (simp add: rec_step_def turn_def final_status_def shown_def stored_def published_def tick_events_def noted_def sends_Nil)
    next
      case (Some m)
      let ?r = "r\<lparr>rc_sess := noted inp (rc_sess r)\<rparr>"
      have "hub_ok (rc_sess ?r) (rc_chans ?r)" using assms by simp
      from show_metrics_sends [OF this, of flt now m] StreamMsg Some show ?thesis
        by (auto simp: rec_step_def turn_def final_status_def shown_def stored_def published_def tick_events_def noted_def Let_def)
    qed
  next
    case (StatusTick ans)
    show ?thesis
    proof (cases ans)
      case None
      with StatusTick assms show ?thesis
        by (intro exI [of _ "rc_chans r"]) (simp add: rec_step_def turn_def final_status_def shown_def stored_def published_def tick_events_def noted_id Let_def sends_Nil)
    next
      case (Some resp)
      let ?s = "rc_sess r" and ?st = "pb_status_string (tsr_Status resp)" and ?subs = "set (se_subs (rc_sess r))"
      let ?s1 = "?s\<lparr>se_status := ?st\<rparr>"
      let ?ev = "StatusEvent \<lparr>rso_TestID = se_testID ?s, rso_Status = ?st, rso_ActiveWorkers = tsr_ActiveWorkers resp,
                      rso_TotalVUs = tsr_TotalVus resp, rso_Metrics = None, rso_Run = None, rso_Position = 0\<rparr>"
      have "hub_ok ?s1 (rc_chans r)" using assms by (simp add: hub_ok_def)
      from publish_sends [OF this, of ?ev] obtain cs where
        pub: "publish ?ev ?s1 (rc_chans r) = Some cs" "hub_ok ?s1 cs" "sends [?ev] ?subs (rc_chans r) cs" by auto
      note step = rec_step_def turn_def final_status_def shown_def stored_def published_def tick_events_def noted_def Let_def
      show ?thesis
      proof (cases "isTerminal (tsr_Status resp)")
        case False
        with StatusTick Some pub show ?thesis by (intro exI [of _ cs]) (simp add: step)
      next
        case True
        show ?thesis
        proof (cases "metricsFromProto (tsr_CurrentMetrics resp)")
          case None
          let ?r = "r\<lparr>rc_sess := ?s1, rc_chans := cs\<rparr>"
          have "hub_ok (rc_sess ?r) (rc_chans ?r)" using pub by simp
          from finish_sends [OF this, of flt' now ?st] obtain cs' where
            "finish flt' now ?st ?r = Some (?r\<lparr>rc_sess := ?s1\<lparr>se_closed := True, se_subs := []\<rparr>, rc_chans := cs',
              rc_db := snd (FinishRun flt' (se_testID ?s) ?st now (run_summary ?s1) (rc_db r))\<rparr>)"
            "hub_ok (?s1\<lparr>se_closed := True, se_subs := []\<rparr>) cs'" "\<forall>c \<in> set cs'. ch_closed c" "sends [EndEvent ?st] ?subs cs cs'" by auto
          with StatusTick Some pub True None show ?thesis
            by (intro exI [of _ cs']) (auto simp: step intro: sends_trans [of "[?ev]" _ _ _ "[EndEvent ?st]", simplified])
        next
          case (Some m)
          let ?s2 = "?s1\<lparr>se_last := Some m\<rparr>"
          let ?r = "r\<lparr>rc_chans := cs, rc_sess := ?s2\<rparr>" and ?d = "persistSample flt now (se_testID ?s) m (rc_db r)"
          have "hub_ok (rc_sess ?r) (rc_chans ?r)" using pub by (simp add: hub_ok_def)
          from show_metrics_sends [OF this, of flt now m] obtain cs1 where
            sh: "show_metrics flt now m ?r = Some (?r\<lparr>rc_chans := cs1, rc_db := ?d\<rparr>)" "hub_ok ?s2 cs1" "sends [MetricsEvent m] ?subs cs cs1" by auto
          let ?r' = "?r\<lparr>rc_chans := cs1, rc_db := ?d\<rparr>"
          have "hub_ok (rc_sess ?r') (rc_chans ?r')" using sh by simp
          from finish_sends [OF this, of flt' now ?st] obtain cs' where
            fin: "finish flt' now ?st ?r' = Some (?r'\<lparr>rc_sess := ?s2\<lparr>se_closed := True, se_subs := []\<rparr>, rc_chans := cs',
              rc_db := snd (FinishRun flt' (se_testID ?s) ?st now (run_summary ?s2) ?d)\<rparr>)"
            "hub_ok (?s2\<lparr>se_closed := True, se_subs := []\<rparr>) cs'" "\<forall>c \<in> set cs'. ch_closed c" "sends [EndEvent ?st] ?subs cs1 cs'" by auto
          have "sends [?ev, MetricsEvent m, EndEvent ?st] ?subs (rc_chans r) cs'"
            using sends_trans [OF sends_trans [OF pub(3) sh(3)] fin(4)] by simp
          with StatusTick \<open>ans = Some resp\<close> pub True Some sh fin show ?thesis
            by (intro exI [of _ cs']) (simp add: step)
        qed
      qed
    qed
  next
    case StreamFailed
    with finish_sends [OF assms, of flt' now "''FAILED''"] show ?thesis
      by (auto simp: rec_step_def turn_def final_status_def shown_def stored_def published_def tick_events_def noted_id Let_def)
  next
    case StreamEnd
    with finish_sends [OF assms, of flt' now "se_status (rc_sess r)"] show ?thesis
      by (auto simp: rec_step_def turn_def final_status_def shown_def stored_def published_def tick_events_def noted_id Let_def)
  next
    case Deadline
    with finish_sends [OF assms, of flt' now "''FAILED''"] show ?thesis
      by (auto simp: rec_step_def turn_def final_status_def shown_def stored_def published_def tick_events_def noted_id Let_def)
  qed
qed

section \<open>A whole recording\<close>

text \<open>The loop and the dashboards that come, read and go between its turns.\<close>

inductive hub_step :: "recording \<Rightarrow> recording \<Rightarrow> bool" where
  turn_step: "\<not> se_closed (rc_sess r) \<Longrightarrow> rec_step flt flt' now inp r = Some (r', done) \<Longrightarrow> hub_step r r'"
| join: "subscribe (rc_sess r) (rc_chans r) = (i, s, cs) \<Longrightarrow> hub_step r (r\<lparr>rc_sess := s, rc_chans := cs\<rparr>)"
| leave: "unsubscribe i (rc_sess r) (rc_chans r) = Some (s, cs) \<Longrightarrow> hub_step r (r\<lparr>rc_sess := s, rc_chans := cs\<rparr>)"
| read_event: "i < length (rc_chans r) \<Longrightarrow> receive i (rc_chans r) = Some (ev, cs) \<Longrightarrow> hub_step r (r\<lparr>rc_chans := cs\<rparr>)"

abbreviation rec_ok :: "recording \<Rightarrow> bool" where
  "rec_ok r \<equiv> hub_ok (rc_sess r) (rc_chans r)"

definition start_recording :: "string \<Rightarrow> db \<Rightarrow> recording" where
  "start_recording testID d = \<lparr>rc_sess = new_session testID, rc_chans = [], rc_db = d\<rparr>"

lemma start_ok: "rec_ok (start_recording testID d)"
  by (simp add: start_recording_def new_session_def hub_ok_def)

lemma rec_step_ok: "rec_ok r \<Longrightarrow> rec_step flt flt' now inp r = Some (r', done) \<Longrightarrow> rec_ok r'"
  using rec_step_turn [of r flt flt' now inp] by (auto simp: turn_def Let_def split: option.splits)

lemma hub_step_ok: "hub_step r r' \<Longrightarrow> rec_ok r \<Longrightarrow> rec_ok r'"
proof (induction rule: hub_step.induct)
  case (leave i r s cs)
  then show ?case using unsubscribe_ok [of "rc_sess r" "rc_chans r" i] by auto
qed (auto dest: rec_step_ok subscribe_ok(1) receive_ok)

text \<open>C23: however dashboards come, read and go, no turn of the recorder and no dashboard leaving
  panics by sending on a closed channel or closing one twice, and no buffer grows past its bound.\<close>

theorem recorder_never_panics:
  assumes "hub_step\<^sup>*\<^sup>* (start_recording testID d) r"
  shows "rec_step flt flt' now inp r \<noteq> None \<and> unsubscribe i (rc_sess r) (rc_chans r) \<noteq> None
    \<and> (\<forall>c \<in> set (rc_chans r). length (ch_buf c) \<le> chan_cap)"
proof -
  from assms have ok: "rec_ok r"
    by (induction rule: rtranclp_induct) (simp_all add: start_ok hub_step_ok)
  then show ?thesis
    using rec_step_turn [OF ok, of flt flt' now inp] unsubscribe_ok [OF ok, of i] by (auto simp: hub_ok_def in_set_conv_nth)
qed

theorem recorder_never_panics_witness: "rec_step None None 5 StreamEnd (start_recording ''t'' empty_db) \<noteq> None"
  using recorder_never_panics [OF rtranclp.rtrancl_refl, of None None 5 StreamEnd] by blast

text \<open>What is stored.\<close>

definition samples_of :: "string \<Rightarrow> db \<Rightarrow> sample list" where
  "samples_of i d = map snd (filter (\<lambda>s. fst s = i) (db_samples d))"

definition no_nan :: "api_metrics \<Rightarrow> bool" where
  "no_nan m \<longleftrightarrow> NaN \<notin> {arp_Current (am_RPS m), arp_Average (am_RPS m), aer_Rate (am_Errors m), aer_Percentage (am_Errors m)}"

lemma persistSample_fresh:
  assumes "find_run i d \<noteq> None" and "no_nan m" and "\<forall>sm \<in> set (samples_of i d). sm_TsMs sm < now"
  shows "samples_of i (persistSample None now i m d) = samples_of i d @ [sample_of now m]"
    and "find_run j (persistSample flt now i m d) = find_run j d"
proof -
  have "\<not> (\<exists>s \<in> set (db_samples d). fst s = i \<and> sm_TsMs (snd s) = sm_TsMs (sample_of now m))"
    using assms(3) by (force simp: samples_of_def sample_of_def)
  then show "samples_of i (persistSample None now i m d) = samples_of i d @ [sample_of now m]"
    using assms(1,2) by (auto simp: persistSample_def AddSample_def samples_of_def no_nan_def sample_of_def)
qed (simp add: persistSample_def AddSample_def find_run_def split: option.split)

lemma FinishRun_samples: "samples_of i (snd (FinishRun flt j st now sm d)) = samples_of i d"
  by (simp add: FinishRun_def update_runs_def samples_of_def split: option.split)

lemma find_run_ID: "find_run i d = Some r \<Longrightarrow> rw_ID r = i"
  by (auto simp: find_run_def find_Some_iff)

lemma FinishRun_row:
  assumes f: "find_run i d = Some row" and nan: "NaN \<notin> {rw_ErrorPct sm, rw_PeakRPS sm, rw_AvgRPS sm}"
  shows "find_run i (snd (FinishRun None i st now sm d)) = Some (row\<lparr>rw_Status := st, rw_FinishedAt := Some now,
    rw_TotalRequests := rw_TotalRequests sm, rw_TotalErrors := rw_TotalErrors sm, rw_ErrorPct := rw_ErrorPct sm,
    rw_PeakRPS := rw_PeakRPS sm, rw_AvgRPS := rw_AvgRPS sm, rw_P95Ms := rw_P95Ms sm, rw_P99Ms := rw_P99Ms sm\<rparr>)"
proof -
  have "count_where (\<lambda>r. rw_ID r = i) (db_runs d) \<noteq> 0" using f by (auto simp: count_where_0 find_run_def find_Some_iff)
  then show ?thesis using f nan find_run_ID [OF f]
    by (auto simp: FinishRun_def update_runs_def find_run_def find_update_where)
qed

text \<open>When a recording ends the status handed to the queue is the one stored, the run's row holds
  the totals of the last snapshot with the time of the end, and every dashboard's channel is closed.\<close>

theorem recording_ends:
  assumes "hub_step\<^sup>*\<^sup>* (start_recording i d) r" and "rec_step flt None now inp r = Some (r', Some st)"
    and "find_run i (rc_db r) = Some row" and "\<forall>m. se_last (rc_sess r') = Some m \<longrightarrow> no_nan m" and "se_peakRPS (rc_sess r') \<noteq> NaN"
  shows "final_status inp (rc_sess r) = Some st \<and> (\<forall>c \<in> set (rc_chans r'). ch_closed c)
    \<and> (\<exists>row'. find_run i (rc_db r') = Some row' \<and> rw_Status row' = st \<and> rw_FinishedAt row' = Some now
      \<and> (rw_TotalRequests row', rw_TotalErrors row') =
        (case se_last (rc_sess r') of None \<Rightarrow> (0, 0) | Some m \<Rightarrow> (am_TotalRequests m, am_TotalErrors m)))"
proof -
  have "rec_ok r \<and> se_testID (rc_sess r) = i" using assms(1)
  proof (induction rule: rtranclp_induct)
    case (step r r')
    from step.hyps(2) have "se_testID (rc_sess r') = se_testID (rc_sess r)"
    proof (cases rule: hub_step.cases)
      case (turn_step flt flt' now inp "done")
      then show ?thesis using rec_step_turn [of r flt flt' now inp] step.IH by (auto simp: turn_def Let_def split: option.splits)
    qed (auto simp: subscribe_def unsubscribe_def split: if_splits option.splits)
    with step hub_step_ok show ?case by simp
  qed (use start_ok in \<open>simp add: start_recording_def new_session_def\<close>)
  then have ok: "rec_ok r" and i: "se_testID (rc_sess r) = i" by auto
  from rec_step_turn [OF ok, of flt None now inp] assms(2) obtain cs where
    r': "r' = turn flt now None inp r cs" and fs: "final_status inp (rc_sess r) = Some st" and "\<forall>c \<in> set cs. ch_closed c" by auto
  then have closed: "\<forall>c \<in> set (rc_chans r'). ch_closed c" by (simp add: turn_def Let_def)
  let ?s = "noted inp (rc_sess r)" and ?d = "stored flt now inp i (rc_db r)"
  have s': "se_last (rc_sess r') = se_last ?s" "se_peakRPS (rc_sess r') = se_peakRPS ?s" using r' fs by (simp_all add: turn_def Let_def)
  have "find_run i ?d = Some row" using assms(3)
    by (simp add: stored_def persistSample_def AddSample_def find_run_def split: option.split)
  moreover have "NaN \<notin> {rw_ErrorPct (run_summary ?s), rw_PeakRPS (run_summary ?s), rw_AvgRPS (run_summary ?s)}"
    using assms(4,5) s' by (auto simp: run_summary_def no_nan_def zero_run_def split: option.splits)
  ultimately obtain row' where "find_run i (snd (FinishRun None i st now (run_summary ?s) ?d)) = Some row'"
    "rw_Status row' = st" "rw_FinishedAt row' = Some now" "rw_TotalRequests row' = rw_TotalRequests (run_summary ?s)"
    "rw_TotalErrors row' = rw_TotalErrors (run_summary ?s)"
    by (simp add: FinishRun_row)
  moreover have "rc_db r' = snd (FinishRun None i st now (run_summary ?s) ?d)" using r' fs i by (simp add: turn_def Let_def)
  ultimately show ?thesis using fs closed s' by (auto simp: run_summary_def zero_run_def split: option.splits)
qed

definition one_running :: db where
  "one_running = empty_db\<lparr>db_runs := [zero_run\<lparr>rw_ID := ''t'', rw_Status := ''RUNNING''\<rparr>]\<rparr>"

definition some_metrics :: api_metrics where
  "some_metrics = \<lparr>am_TimestampMs = 1, am_RPS = \<lparr>arp_Current = Fin 2, arp_Average = Fin 1, arp_Peak = Fin 2\<rparr>,
     am_Latency = \<lparr>ala_MinMs = 1, ala_MaxMs = 9, ala_MeanMs = 4, ala_P50Ms = 4, ala_P95Ms = 8, ala_P99Ms = 9, ala_Count = 5\<rparr>,
     am_Errors = \<lparr>aer_Rate = Fin 0, aer_Percentage = Fin 20\<rparr>, am_TotalRequests = 5, am_TotalErrors = 1\<rparr>"

definition some_snapshot :: pb_snapshot where
  "some_snapshot = \<lparr>psn_Rps = Some \<lparr>prps_Current = Fin 2, prps_Average = Fin 1, prps_Peak = Fin 2, prps_WindowSeconds = 1\<rparr>,
     psn_Latency = Some \<lparr>plat_MinMs = 1, plat_MaxMs = 9, plat_MeanMs = 4, plat_P50Ms = 4, plat_P95Ms = 8, plat_P99Ms = 9, plat_P999Ms = 9, plat_Count = 5\<rparr>,
     psn_ErrorRate = Some \<lparr>per_Rate = Fin 0, per_Percentage = Fin 20, per_ErrorMessages = []\<rparr>,
     psn_TotalRequests = 5, psn_TotalErrors = 1, psn_TimestampMs = 1\<rparr>"

definition done_answer :: test_status_response where
  "done_answer = \<lparr>tsr_Status = COMPLETED, tsr_ActiveWorkers = 1, tsr_TotalVus = 1, tsr_CurrentMetrics = Some some_snapshot\<rparr>"

lemma some_metrics_eq: "metricsFromProto (Some some_snapshot) = Some some_metrics"
  by (simp add: metricsFromProto_def some_snapshot_def some_metrics_def)

lemma one_running_found: "find_run ''t'' one_running = Some (zero_run\<lparr>rw_ID := ''t'', rw_Status := ''RUNNING''\<rparr>)"
  by (simp add: one_running_def empty_db_def zero_run_def find_run_def)

theorem recording_ends_witness:
  "\<exists>r'. rec_step None None 9 (StatusTick (Some done_answer)) (start_recording ''t'' one_running) = Some (r', Some ''COMPLETED'')
    \<and> (\<exists>row'. find_run ''t'' (rc_db r') = Some row' \<and> rw_Status row' = ''COMPLETED'' \<and> rw_TotalRequests row' = 5)"
proof -
  let ?r = "start_recording ''t'' one_running" and ?inp = "StatusTick (Some done_answer)"
  have fs: "final_status ?inp s = Some ''COMPLETED''" for s
    by (simp add: final_status_def done_answer_def)
  have sh: "shown ?inp = Some some_metrics" by (simp add: shown_def done_answer_def some_metrics_eq)
  from rec_step_turn [OF start_ok, of None None 9 ?inp "''t''" one_running] obtain cs where
    step: "rec_step None None 9 ?inp ?r = Some (turn None 9 None ?inp ?r cs, Some ''COMPLETED'')" by (auto simp: fs)
  let ?r' = "turn None 9 None ?inp ?r cs"
  have last: "se_last (rc_sess ?r') = Some some_metrics" "se_peakRPS (rc_sess ?r') = Fin 0"
    by (simp_all add: turn_def Let_def fs noted_def sh start_recording_def new_session_def)
  have "\<forall>m. se_last (rc_sess ?r') = Some m \<longrightarrow> no_nan m" by (simp add: last no_nan_def some_metrics_def)
  moreover have "find_run ''t'' (rc_db ?r) = Some (zero_run\<lparr>rw_ID := ''t'', rw_Status := ''RUNNING''\<rparr>)"
    using one_running_found by (simp add: start_recording_def)
  ultimately show ?thesis using recording_ends [OF rtranclp.rtrancl_refl step] step by (auto simp: last some_metrics_def)
qed

text \<open>A metrics stream that breaks while the run is believed to be running finalises the run: its
  row says \<open>RUNNING\<close>, has a time of end, and the queue is told that it is done.\<close>

theorem broken_stream_leaves_running:
  assumes "rec_ok r" and "se_status (rc_sess r) = ''RUNNING''" and "find_run (se_testID (rc_sess r)) (rc_db r) = Some row"
    and "NaN \<notin> {rw_ErrorPct (run_summary (rc_sess r)), rw_PeakRPS (run_summary (rc_sess r)), rw_AvgRPS (run_summary (rc_sess r))}"
  shows "\<exists>r' row'. rec_step flt None now StreamEnd r = Some (r', Some ''RUNNING'')
    \<and> find_run (se_testID (rc_sess r)) (rc_db r') = Some row' \<and> rw_Status row' = ''RUNNING'' \<and> rw_FinishedAt row' = Some now"
proof -
  have "noted StreamEnd (rc_sess r) = rc_sess r" by (simp add: noted_def shown_def)
  then show ?thesis
    using rec_step_turn [OF assms(1), of flt None now StreamEnd] FinishRun_row [OF assms(3,4), of "''RUNNING''" now] assms(2)
    by (auto simp: turn_def final_status_def stored_def shown_def Let_def)
qed

theorem broken_stream_leaves_running_witness:
  "\<exists>r' row'. rec_step None None 9 StreamEnd (start_recording ''t'' one_running) = Some (r', Some ''RUNNING'')
    \<and> find_run ''t'' (rc_db r') = Some row' \<and> rw_Status row' = ''RUNNING'' \<and> rw_FinishedAt row' = Some 9"
  using broken_stream_leaves_running [OF start_ok, of "''t''" one_running _ None 9] one_running_found
  by (auto simp: start_recording_def new_session_def run_summary_def zero_run_def)

section \<open>History and dashboards\<close>

text \<open>A recording over a list of inputs and their times, with a store that works.\<close>

fun rec_run :: "(int64 \<times> rec_input) list \<Rightarrow> recording \<Rightarrow> (recording \<times> string option) option" where
  "rec_run [] r = Some (r, None)"
| "rec_run ((t, inp) # ins) r =
     (case rec_step None None t inp r of
        None \<Rightarrow> None
      | Some (r', Some st) \<Rightarrow> Some (r', Some st)
      | Some (r', None) \<Rightarrow> rec_run ins r')"

definition ends :: "rec_input \<Rightarrow> bool" where
  "ends inp = (case inp of StreamFailed \<Rightarrow> True | Deadline \<Rightarrow> True | StreamEnd \<Rightarrow> True
     | StatusTick (Some resp) \<Rightarrow> isTerminal (tsr_Status resp) | _ \<Rightarrow> False)"

fun shown_run :: "(int64 \<times> rec_input) list \<Rightarrow> (int64 \<times> api_metrics) list" where
  "shown_run [] = []"
| "shown_run ((t, inp) # ins) = (case shown inp of None \<Rightarrow> [] | Some m \<Rightarrow> [(t, m)]) @ (if ends inp then [] else shown_run ins)"

fun metrics_in :: "event list \<Rightarrow> api_metrics list" where
  "metrics_in [] = []"
| "metrics_in (MetricsEvent m # es) = m # metrics_in es"
| "metrics_in (_ # es) = metrics_in es"

lemma metrics_in_append [simp]: "metrics_in (es @ es') = metrics_in es @ metrics_in es'"
  by (induction es rule: metrics_in.induct) auto

lemma tick_events_facts: "metrics_in (tick_events i inp) = []" "length (tick_events i inp) \<le> 1"
  by (cases inp; simp add: tick_events_def split: option.split)+

lemma metrics_published: "metrics_in (published inp s) = (case shown inp of None \<Rightarrow> [] | Some m \<Rightarrow> [m])"
  by (cases "shown inp"; cases "final_status inp s") (simp_all add: published_def tick_events_facts)

lemma published_length: "length (published inp s) \<le> 3"
  using tick_events_facts(2) [of "se_testID s" inp]
  by (cases "shown inp"; cases "final_status inp s") (simp_all add: published_def)

lemma ends_iff: "final_status inp s \<noteq> None \<longleftrightarrow> ends inp"
  by (auto simp: final_status_def ends_def split: rec_input.split option.split)

lemma fold_sent_to_room: "length (ch_buf c) + length evs \<le> chan_cap \<Longrightarrow> ch_buf (fold sent_to evs c) = ch_buf c @ evs"
  by (induction evs arbitrary: c) (auto simp: sent_to_def)

lemma stored_samples:
  assumes "find_run i d \<noteq> None" and "\<forall>m. shown inp = Some m \<longrightarrow> no_nan m" and "\<forall>sm \<in> set (samples_of i d). sm_TsMs sm < t"
  shows "samples_of i (stored None t inp i d) = samples_of i d @ (case shown inp of None \<Rightarrow> [] | Some m \<Rightarrow> [sample_of t m])"
    and "find_run i (stored None t inp i d) \<noteq> None"
  using persistSample_fresh [OF assms(1)] assms by (auto simp: stored_def split: option.split)

lemma turn_facts:
  "samples_of i (rc_db (turn None t None inp r cs)) = samples_of i (stored None t inp (se_testID (rc_sess r)) (rc_db r))"
  "final_status inp (rc_sess r) = None \<Longrightarrow> rc_db (turn None t None inp r cs) = stored None t inp (se_testID (rc_sess r)) (rc_db r)
     \<and> se_subs (rc_sess (turn None t None inp r cs)) = se_subs (rc_sess r) \<and> se_testID (rc_sess (turn None t None inp r cs)) = se_testID (rc_sess r)"
  "rc_chans (turn None t None inp r cs) = cs"
  by (simp_all add: turn_def Let_def FinishRun_samples split: option.split)

lemma rec_run_history:
  assumes "rec_ok r" and "se_testID (rc_sess r) = i" and "find_run i (rc_db r) \<noteq> None"
    and "\<forall>sm \<in> set (samples_of i (rc_db r)). \<forall>t \<in> fst ` set ins. sm_TsMs sm < t"
    and "sorted_wrt (<) (map fst ins)" and "\<forall>inp \<in> snd ` set ins. \<forall>m. shown inp = Some m \<longrightarrow> no_nan m"
    and "rec_run ins r = Some (r', done)"
    and "k \<in> set (se_subs (rc_sess r))" and "length (ch_buf (rc_chans r ! k)) + 3 * length ins \<le> chan_cap"
  shows "samples_of i (rc_db r') = samples_of i (rc_db r) @ map (\<lambda>(t, m). sample_of t m) (shown_run ins)
    \<and> metrics_in (ch_buf (rc_chans r' ! k)) = metrics_in (ch_buf (rc_chans r ! k)) @ map snd (shown_run ins)"
  using assms
proof (induction ins arbitrary: r)
  case (Cons e ins)
  obtain t inp where e: "e = (t, inp)" by (cases e)
  note prems = Cons.prems
  have k: "k < length (rc_chans r)" using open_subs [OF prems(1,8)] by simp
  from rec_step_turn [OF prems(1), of None None t inp] obtain cs where
    step: "rec_step None None t inp r = Some (turn None t None inp r cs, final_status inp (rc_sess r))"
    and ok: "rec_ok (turn None t None inp r cs)" and sends: "sends (published inp (rc_sess r)) (set (se_subs (rc_sess r))) (rc_chans r) cs"
    by (auto simp: turn_facts(3))
  let ?r1 = "turn None t None inp r cs"
  have buf: "ch_buf (cs ! k) = ch_buf (rc_chans r ! k) @ published inp (rc_sess r)"
    using sends k prems(8,9) published_length [of inp "rc_sess r"] fold_sent_to_room [of "rc_chans r ! k" "published inp (rc_sess r)"]
    by (auto simp: sends_def)
  have nn: "\<forall>m. shown inp = Some m \<longrightarrow> no_nan m" and lt: "\<forall>sm \<in> set (samples_of i (rc_db r)). sm_TsMs sm < t"
    using prems(4,6) e by auto
  note st = stored_samples [OF prems(3) nn lt]
  have smp: "samples_of i (rc_db ?r1) = samples_of i (rc_db r) @ (case shown inp of None \<Rightarrow> [] | Some m \<Rightarrow> [sample_of t m])"
    using st(1) prems(2) by (simp add: turn_facts(1))
  show ?case
  proof (cases "final_status inp (rc_sess r)")
    case (Some x)
    then have "r' = ?r1" and "ends inp" using prems(7) step e ends_iff [of inp "rc_sess r"] by auto
    with e smp buf show ?thesis by (auto simp: turn_facts(3) metrics_published split: option.splits)
  next
    case None
    then have ne: "\<not> ends inp" using ends_iff [of inp "rc_sess r"] by simp
    note tf = turn_facts(2) [OF None, of t cs]
    have "samples_of i (rc_db r') = samples_of i (rc_db ?r1) @ map (\<lambda>(t, m). sample_of t m) (shown_run ins)
      \<and> metrics_in (ch_buf (rc_chans r' ! k)) = metrics_in (ch_buf (rc_chans ?r1 ! k)) @ map snd (shown_run ins)"
    proof (rule Cons.IH [OF ok])
      show "\<forall>sm \<in> set (samples_of i (rc_db ?r1)). \<forall>t \<in> fst ` set ins. sm_TsMs sm < t"
        using prems(4,5) e smp by (auto simp: sample_of_def split: option.splits)
      show "length (ch_buf (rc_chans ?r1 ! k)) + 3 * length ins \<le> chan_cap"
        using buf prems(9) published_length [of inp "rc_sess r"] by (simp add: turn_facts(3))
    qed (use prems step None tf st(2) e in auto)
    with ne e smp buf show ?thesis by (auto simp: turn_facts(3) metrics_published split: option.splits)
  qed
qed simp


definition watched_recording :: "db \<Rightarrow> recording" where
  "watched_recording d = \<lparr>rc_sess = (new_session ''t'')\<lparr>se_subs := [0]\<rparr>, rc_chans = [\<lparr>ch_buf = [], ch_closed = False\<rparr>], rc_db = d\<rparr>"


end
