(* ===== verification/Run_Queue.thy ===== *)
theory Run_Queue
  imports Recorder Scenario_DSL
begin

text \<open>
  The queue of \<open>internal/api/queue.go\<close>. The dispatcher is one goroutine that takes the lock, the
  store and the orchestrator in turns, while handlers create, cancel and delete runs and
  recordings end; \<open>q_step\<close> is one of their atomic steps. The program counter of the dispatcher is
  the place in \<open>dispatchNext\<close> and \<open>dispatch\<close> it has reached.

  Parameters: \<open>decode\<close> is the JSON decoder, \<open>env\<close> and \<open>ords\<close> the environment and the map orders
  of \<open>FromSpec\<close>. The orchestrator's answer, the store's faults and the clock are chosen by the
  step. A failed call may have been carried out all the same. The ticker can always wake the
  dispatcher, so the wake channel is left out.
\<close>

section \<open>Dispatching one run\<close>

datatype dispatch_error = BadSpec string | BadPlan plan_error | RpcError string

definition maxDispatchAttempts :: nat where "maxDispatchAttempts = 5"

text \<open>The plan that \<open>dispatch\<close> sends.\<close>

definition dispatch_request ::
  "(string \<Rightarrow> string + yaml_test_plan) \<Rightarrow> string list \<Rightarrow> (nat \<Rightarrow> string list) \<Rightarrow> run_row \<Rightarrow> dispatch_error + pb_test_plan" where
  "dispatch_request decode env ords run =
     (case decode (rw_PlanSpec run) of
        Inl e \<Rightarrow> Inl (BadSpec e)
      | Inr spec \<Rightarrow>
          (case FromSpec env ords spec of
             Inl e \<Rightarrow> Inl (BadPlan e)
           | Inr sc \<Rightarrow> Inr (ScenarioToProto sc (rw_ID run))))"

section \<open>The dispatcher's states\<close>

datatype pc =
    Waiting
  | Checking
  | Reading
  | Claiming run_row
  | Sending run_row
  | Marking run_row int32
  | Starting run_row
  | Failing run_row
  | Releasing run_row nat
  | GivingUp run_row
  | Forgetting run_row bool

text \<open>\<open>qs_sent\<close> records the plans handed to the orchestrator; \<open>qs_done\<close> the recordings that have
  finalised their run and not yet called back; \<open>qs_cancels\<close> the handlers that have read a queued
  run; \<open>qs_deletes\<close> those that found the run not in flight.\<close>

record queue =
  qs_db :: db
  qs_current :: string
  qs_attempts :: "(string, nat) gomap"
  qs_pc :: pc
  qs_recording :: "string list"
  qs_done :: "string list"
  qs_cancels :: "string list"
  qs_deletes :: "string list"
  qs_sent :: "string list"

definition NewQueue :: "db \<Rightarrow> queue" where
  "NewQueue d = \<lparr>qs_db = d, qs_current = '''', qs_attempts = [], qs_pc = Waiting, qs_recording = [], qs_done = [],
     qs_cancels = [], qs_deletes = [], qs_sent = []\<rparr>"

definition queue_Start :: "fault \<Rightarrow> int64 \<Rightarrow> db \<Rightarrow> queue" where
  "queue_Start flt now d = NewQueue (snd (FailInterruptedRuns flt now d))"

definition release :: "string \<Rightarrow> queue \<Rightarrow> queue" where
  "release i q = (if qs_current q = i then q\<lparr>qs_current := ''''\<rparr> else q)"

text \<open>The read of \<open>Cancel\<close>: an error, or leave to cancel.\<close>

datatype cancel_error = CancelStore store_error | NotQueued

definition cancel_check :: "fault \<Rightarrow> string \<Rightarrow> db \<Rightarrow> cancel_error option" where
  "cancel_check flt i d =
     (case GetRun flt i d of
        Inl e \<Rightarrow> Some (CancelStore e)
      | Inr run \<Rightarrow> if rw_Status run \<noteq> ''QUEUED'' then Some NotQueued else None)"

definition Cancel :: "fault \<Rightarrow> fault \<Rightarrow> string \<Rightarrow> db \<Rightarrow> cancel_error option \<times> db" where
  "Cancel flt flt' i d =
     (case cancel_check flt i d of
        Some e \<Rightarrow> (Some e, d)
      | None \<Rightarrow> (case SetRunStatus flt' i ''CANCELLED'' d of (Inl e, d') \<Rightarrow> (Some (CancelStore e), d') | (Inr _, d') \<Rightarrow> (None, d')))"

section \<open>Steps\<close>

inductive q_step :: "(run_row \<Rightarrow> dispatch_error + pb_test_plan) \<Rightarrow> queue \<Rightarrow> queue \<Rightarrow> bool" for req where
  wake: "qs_pc q = Waiting \<Longrightarrow> q_step req q (q\<lparr>qs_pc := Checking\<rparr>)"
| busy: "qs_pc q = Checking \<Longrightarrow> qs_current q \<noteq> '''' \<Longrightarrow> q_step req q (q\<lparr>qs_pc := Waiting\<rparr>)"
| free: "qs_pc q = Checking \<Longrightarrow> qs_current q = '''' \<Longrightarrow> q_step req q (q\<lparr>qs_pc := Reading\<rparr>)"
| read_none: "qs_pc q = Reading \<Longrightarrow> NextQueued flt (qs_db q) = Inl e \<Longrightarrow> q_step req q (q\<lparr>qs_pc := Waiting\<rparr>)"
| read_run: "qs_pc q = Reading \<Longrightarrow> NextQueued flt (qs_db q) = Inr run \<Longrightarrow> q_step req q (q\<lparr>qs_pc := Claiming run\<rparr>)"
| lost_claim: "qs_pc q = Claiming run \<Longrightarrow> qs_current q \<noteq> '''' \<Longrightarrow> q_step req q (q\<lparr>qs_pc := Waiting\<rparr>)"
| claim: "qs_pc q = Claiming run \<Longrightarrow> qs_current q = '''' \<Longrightarrow> q_step req q (q\<lparr>qs_pc := Sending run, qs_current := rw_ID run\<rparr>)"
| bad_plan: "qs_pc q = Sending run \<Longrightarrow> req run = Inl e \<Longrightarrow> q_step req q (q\<lparr>qs_pc := Failing run\<rparr>)"
| refused: "qs_pc q = Sending run \<Longrightarrow> req run = Inr plan \<Longrightarrow> q_step req q (q\<lparr>qs_pc := Failing run\<rparr>)"
| answer_lost: "qs_pc q = Sending run \<Longrightarrow> req run = Inr plan \<Longrightarrow>
    q_step req q (q\<lparr>qs_pc := Failing run, qs_sent := qs_sent q @ [ptp_Id plan]\<rparr>)"
| accepted: "qs_pc q = Sending run \<Longrightarrow> req run = Inr plan \<Longrightarrow>
    q_step req q (q\<lparr>qs_pc := Marking run workers, qs_sent := qs_sent q @ [ptp_Id plan]\<rparr>)"
| mark: "qs_pc q = Marking run workers \<Longrightarrow> MarkDispatched flt (rw_ID run) workers now (qs_db q) = (res, d) \<Longrightarrow>
    q_step req q (q\<lparr>qs_pc := Starting run, qs_db := d\<rparr>)"
| start: "qs_pc q = Starting run \<Longrightarrow> q_step req q (q\<lparr>qs_pc := Forgetting run False, qs_recording := qs_recording q @ [rw_ID run]\<rparr>)"
| count: "qs_pc q = Failing run \<Longrightarrow> n = Suc (get0 0 (qs_attempts q) (rw_ID run)) \<Longrightarrow>
    q_step req q (q\<lparr>qs_pc := Releasing run n, qs_attempts := AList.update (rw_ID run) n (qs_attempts q)\<rparr>)"
| retry_later: "qs_pc q = Releasing run n \<Longrightarrow> n < maxDispatchAttempts \<Longrightarrow> q_step req q ((release (rw_ID run) q)\<lparr>qs_pc := Waiting\<rparr>)"
| enough: "qs_pc q = Releasing run n \<Longrightarrow> \<not> n < maxDispatchAttempts \<Longrightarrow> q_step req q ((release (rw_ID run) q)\<lparr>qs_pc := GivingUp run\<rparr>)"
| give_up: "qs_pc q = GivingUp run \<Longrightarrow> SetRunStatus flt (rw_ID run) ''FAILED'' (qs_db q) = (res, d) \<Longrightarrow>
    q_step req q (q\<lparr>qs_pc := Forgetting run True, qs_db := d\<rparr>)"
| forget: "qs_pc q = Forgetting run again \<Longrightarrow>
    q_step req q (q\<lparr>qs_pc := (if again then Checking else Waiting), qs_attempts := AList.delete (rw_ID run) (qs_attempts q)\<rparr>)"
| sampled: "i \<in> set (qs_recording q) \<Longrightarrow> q_step req q (q\<lparr>qs_db := persistSample flt now i m (qs_db q)\<rparr>)"
| finished: "i \<in> set (qs_recording q) \<Longrightarrow> FinishRun flt i (pb_status_string st) now summary (qs_db q) = (res, d) \<Longrightarrow>
    q_step req q (q\<lparr>qs_db := d, qs_recording := removeAll i (qs_recording q), qs_done := qs_done q @ [i]\<rparr>)"
| called_back: "i \<in> set (qs_done q) \<Longrightarrow> q_step req q ((release i q)\<lparr>qs_done := removeAll i (qs_done q)\<rparr>)"
| submit_run: "rw_ID run \<noteq> '''' \<Longrightarrow> rw_Status run = ''QUEUED'' \<Longrightarrow> CreateRun flt run (qs_db q) = (res, d) \<Longrightarrow> q_step req q (q\<lparr>qs_db := d\<rparr>)"
| cancel_read: "cancel_check flt i (qs_db q) = None \<Longrightarrow> q_step req q (q\<lparr>qs_cancels := qs_cancels q @ [i]\<rparr>)"
| cancel_write: "i \<in> set (qs_cancels q) \<Longrightarrow> SetRunStatus flt i ''CANCELLED'' (qs_db q) = (res, d) \<Longrightarrow>
    q_step req q (q\<lparr>qs_db := d, qs_cancels := remove1 i (qs_cancels q)\<rparr>)"
| delete_check: "qs_current q \<noteq> i \<Longrightarrow> q_step req q (q\<lparr>qs_deletes := qs_deletes q @ [i]\<rparr>)"
| delete_write: "i \<in> set (qs_deletes q) \<Longrightarrow> DeleteRun flt i (qs_db q) = (res, d) \<Longrightarrow>
    q_step req q (q\<lparr>qs_db := d, qs_deletes := remove1 i (qs_deletes q)\<rparr>)"

section \<open>One run at a time\<close>

text \<open>The run the dispatcher is busy with, and the runs somebody is in charge of.\<close>

fun held :: "pc \<Rightarrow> string list" where
  "held (Sending run) = [rw_ID run]"
| "held (Marking run w) = [rw_ID run]"
| "held (Starting run) = [rw_ID run]"
| "held (Failing run) = [rw_ID run]"
| "held (Releasing run n) = [rw_ID run]"
| "held _ = []"

definition in_flight :: "queue \<Rightarrow> string list" where
  "in_flight q = held (qs_pc q) @ qs_recording q @ qs_done q"

fun pc_ok :: "pc \<Rightarrow> string \<Rightarrow> bool" where
  "pc_ok Reading cur = (cur = '''')"
| "pc_ok (Claiming run) cur = (cur = '''' \<and> rw_ID run \<noteq> '''')"
| "pc_ok _ cur = True"

definition named :: "db \<Rightarrow> bool" where
  "named d \<longleftrightarrow> (\<forall>r \<in> set (db_runs d). rw_ID r \<noteq> '''')"

definition q_ok :: "queue \<Rightarrow> bool" where
  "q_ok q \<longleftrightarrow> db_ok (qs_db q) \<and> named (qs_db q) \<and> pc_ok (qs_pc q) (qs_current q)
     \<and> in_flight q = (if qs_current q = '''' then [] else [qs_current q])"

lemma update_where_set: "r \<in> set (update_where p f rs) \<Longrightarrow> \<exists>r' \<in> set rs. r = r' \<or> r = f r'"
  by (auto simp: update_where_def)

lemma named_update: "named d \<Longrightarrow> (\<And>r. rw_ID (f r) = rw_ID r) \<Longrightarrow> named (snd (update_runs flt p f d))"
  by (auto simp: named_def update_runs_def dest!: update_where_set split: option.split)

lemma named_ops:
  "named d \<Longrightarrow> MarkDispatched flt i w now d = (res, d') \<Longrightarrow> named d'"
  "named d \<Longrightarrow> SetRunStatus flt i st d = (res, d') \<Longrightarrow> named d'"
  "named d \<Longrightarrow> FinishRun flt i st now sm d = (res, d') \<Longrightarrow> named d'"
  "named d \<Longrightarrow> DeleteRun flt i d = (res, d') \<Longrightarrow> named d'"
  "named d \<Longrightarrow> rw_ID r \<noteq> '''' \<Longrightarrow> CreateRun flt r d = (res, d') \<Longrightarrow> named d'"
  "named d \<Longrightarrow> named (persistSample flt now i m d)"
proof -
  have "named d \<Longrightarrow> named (snd (MarkDispatched flt i w now d))" "named d \<Longrightarrow> named (snd (SetRunStatus flt i st d))"
    "named d \<Longrightarrow> named (snd (FinishRun flt i st now sm d))"
    unfolding MarkDispatched_def SetRunStatus_def FinishRun_def by (auto split: option.split intro!: named_update)
  then show "named d \<Longrightarrow> MarkDispatched flt i w now d = (res, d') \<Longrightarrow> named d'"
    "named d \<Longrightarrow> SetRunStatus flt i st d = (res, d') \<Longrightarrow> named d'"
    "named d \<Longrightarrow> FinishRun flt i st now sm d = (res, d') \<Longrightarrow> named d'" by auto
qed (auto simp: named_def DeleteRun_def CreateRun_def persistSample_def AddSample_def split: option.splits if_splits)

lemma store_writes_ok:
  "db_ok d \<Longrightarrow> MarkDispatched flt i w now d = (r1, d') \<Longrightarrow> db_ok d'"
  "db_ok d \<Longrightarrow> SetRunStatus flt i st d = (r1, d') \<Longrightarrow> db_ok d'"
  "db_ok d \<Longrightarrow> FinishRun flt i st now sm d = (r1, d') \<Longrightarrow> db_ok d'"
  "db_ok d \<Longrightarrow> DeleteRun flt i d = (r1, d') \<Longrightarrow> db_ok d'"
  "db_ok d \<Longrightarrow> CreateRun flt r d = (r1, d') \<Longrightarrow> db_ok d'"
  "db_ok d \<Longrightarrow> db_ok (persistSample flt now i m d)"
  by (rule db_step_ok [OF db_step.mark], assumption+) (rule db_step_ok [OF db_step.set_status], assumption+,
      rule db_step_ok [OF db_step.finish_run], assumption+, rule db_step_ok [OF db_step.delete_run], assumption+,
      rule db_step_ok [OF db_step.create_run], assumption+,
      unfold persistSample_def, rule db_step_ok [OF db_step.add_sample [OF surjective_pairing]])

lemma NextQueued_in: "NextQueued flt d = Inr run \<Longrightarrow> run \<in> set (db_runs d) \<and> rw_Status run = ''QUEUED''"
  using set_queued_runs [of d] by (auto simp: NextQueued_def split: option.splits list.splits)

lemma in_flight_simps [simp]:
  "held (qs_pc q) = [] \<Longrightarrow> in_flight q = qs_recording q @ qs_done q"
  "in_flight (q\<lparr>qs_pc := p\<rparr>) = held p @ qs_recording q @ qs_done q"
  by (simp_all add: in_flight_def)

lemma single_flight:
  assumes "q_ok q"
  shows "held (qs_pc q) = [i] \<Longrightarrow> qs_current q = i \<and> i \<noteq> '''' \<and> qs_recording q = [] \<and> qs_done q = []"
    and "i \<in> set (qs_recording q) \<Longrightarrow> qs_current q = i \<and> i \<noteq> '''' \<and> held (qs_pc q) = [] \<and> qs_recording q = [i] \<and> qs_done q = []"
    and "i \<in> set (qs_done q) \<Longrightarrow> qs_current q = i \<and> i \<noteq> '''' \<and> held (qs_pc q) = [] \<and> qs_recording q = [] \<and> qs_done q = [i]"
  using assms by (auto simp: q_ok_def in_flight_def Cons_eq_append_conv append_eq_Cons_conv split: if_splits)

lemma q_step_ok: "q_step req q q' \<Longrightarrow> q_ok q \<Longrightarrow> q_ok q'"
proof (induction rule: q_step.induct)
  case (read_run q flt run)
  then show ?case using NextQueued_in [OF read_run(2)] by (auto simp: q_ok_def named_def)
next
  case (claim q run)
  then show ?case by (auto simp: q_ok_def in_flight_def)
next
  case (start q run)
  then have "held (qs_pc q) = [rw_ID run]" by simp
  with start have "qs_current q = rw_ID run \<and> rw_ID run \<noteq> [] \<and> qs_recording q = [] \<and> qs_done q = []" using single_flight(1) by blast
  with start show ?case by (auto simp: q_ok_def in_flight_def)
next
  case (mark q run workers flt now res d)
  then show ?case using store_writes_ok(1) [OF _ mark(2)] named_ops(1) [OF _ mark(2)] by (auto simp: q_ok_def in_flight_def)
next
  case (give_up q run flt res d)
  then show ?case using store_writes_ok(2) [OF _ give_up(2)] named_ops(2) [OF _ give_up(2)] by (auto simp: q_ok_def in_flight_def)
next
  case (retry_later q run n)
  then have "held (qs_pc q) = [rw_ID run]" by simp
  with retry_later have "qs_current q = rw_ID run \<and> rw_ID run \<noteq> [] \<and> qs_recording q = [] \<and> qs_done q = []" using single_flight(1) by blast
  with retry_later show ?case by (auto simp: q_ok_def in_flight_def release_def)
next
  case (enough q run n)
  then have "held (qs_pc q) = [rw_ID run]" by simp
  with enough have "qs_current q = rw_ID run \<and> rw_ID run \<noteq> [] \<and> qs_recording q = [] \<and> qs_done q = []" using single_flight(1) by blast
  with enough show ?case by (auto simp: q_ok_def in_flight_def release_def)
next
  case (sampled i q flt now m)
  then show ?case using store_writes_ok(6) named_ops(6) by (auto simp: q_ok_def in_flight_def)
next
  case (finished i q flt st now summary res d)
  from single_flight(2) [OF finished(3,1)] finished show ?case
    using store_writes_ok(3) [OF _ finished(2)] named_ops(3) [OF _ finished(2)] by (auto simp: q_ok_def in_flight_def)
next
  case (called_back i q)
  from single_flight(3) [OF called_back(2,1)] called_back show ?case
    by (cases "qs_pc q") (auto simp: q_ok_def in_flight_def release_def)
next
  case (submit_run run flt q res d)
  then show ?case using store_writes_ok(5) [OF _ submit_run(3)] named_ops(5) [OF _ submit_run(1,3)] by (auto simp: q_ok_def in_flight_def)
next
  case (cancel_write i q flt res d)
  then show ?case using store_writes_ok(2) [OF _ cancel_write(2)] named_ops(2) [OF _ cancel_write(2)] by (auto simp: q_ok_def in_flight_def)
next
  case (delete_write i q flt res d)
  then show ?case using store_writes_ok(4) [OF _ delete_write(2)] named_ops(4) [OF _ delete_write(2)] by (auto simp: q_ok_def in_flight_def)
next
  case (count q run n)
  then show ?case by (auto simp: q_ok_def in_flight_def)
qed (auto simp: q_ok_def in_flight_def)

definition q_reach :: "(run_row \<Rightarrow> dispatch_error + pb_test_plan) \<Rightarrow> queue \<Rightarrow> bool" where
  "q_reach req q \<longleftrightarrow> (\<exists>flt now d. db_ok d \<and> named d \<and> (q_step req)\<^sup>*\<^sup>* (queue_Start flt now d) q)"

lemma start_q_ok: "db_ok d \<Longrightarrow> named d \<Longrightarrow> q_ok (queue_Start flt now d)"
  using db_step_ok [OF db_step.fail_interrupted [OF surjective_pairing], of d flt now]
  by (auto simp: q_ok_def queue_Start_def NewQueue_def in_flight_def named_def FailInterruptedRuns_def split: option.splits
      dest!: update_where_set)

lemma q_reach_induct:
  assumes "q_reach req q" and "\<And>flt now d. P (queue_Start flt now d)" and "\<And>q q'. P q \<Longrightarrow> q_step req q q' \<Longrightarrow> P q'"
  shows "P q"
proof -
  obtain flt now d where "(q_step req)\<^sup>*\<^sup>* (queue_Start flt now d) q" using assms(1) by (auto simp: q_reach_def)
  then show ?thesis by (induction rule: rtranclp_induct) (use assms(2,3) in blast)+
qed

lemma q_reach_ok: "q_reach req q \<Longrightarrow> q_ok q"
proof -
  assume "q_reach req q"
  then obtain flt now d where d: "db_ok d" "named d" and s: "(q_step req)\<^sup>*\<^sup>* (queue_Start flt now d) q" by (auto simp: q_reach_def)
  from s show ?thesis by (induction rule: rtranclp_induct) (simp_all add: start_q_ok [OF d] q_step_ok)
qed

text \<open>C8: whatever submissions, cancellations, deletions and ends of runs come in between, at most one
  run is being dispatched, recorded or finalised at a time, and it is the one \<open>Current\<close> reports; when it
  reports none, there is none.\<close>

theorem one_run_in_flight:
  "q_reach req q \<Longrightarrow> in_flight q = (if qs_current q = '''' then [] else [qs_current q])"
  using q_reach_ok by (simp add: q_ok_def)

fun counting :: "pc \<Rightarrow> string \<Rightarrow> bool" where
  "counting (Releasing run n) i = (i = rw_ID run)"
| "counting (GivingUp run) i = (i = rw_ID run)"
| "counting (Forgetting run b) i = (i = rw_ID run)"
| "counting _ i = False"

fun counted :: "pc \<Rightarrow> (string, nat) gomap \<Rightarrow> bool" where
  "counted (Releasing run n) a = (n = get0 0 a (rw_ID run))"
| "counted (GivingUp run) a = (get0 0 a (rw_ID run) = maxDispatchAttempts)"
| "counted _ a = True"

lemma attempts_step:
  "q_step req q q' \<Longrightarrow>
   (\<forall>i. get0 0 (qs_attempts q) i \<le> (if counting (qs_pc q) i then 5 else 4)) \<and> counted (qs_pc q) (qs_attempts q) \<Longrightarrow>
   (\<forall>i. get0 0 (qs_attempts q') i \<le> (if counting (qs_pc q') i then 5 else 4)) \<and> counted (qs_pc q') (qs_attempts q')"
proof (induction rule: q_step.induct)
  case (count q run n)
  then show ?case by (auto simp: get0_put)
next
  case (retry_later q run n)
  then have "get0 0 (qs_attempts q) i \<le> 4" for i
    by (cases "i = rw_ID run") (auto simp: maxDispatchAttempts_def dest!: spec [of _ i])
  then show ?case by (simp add: release_def)
next
  case (enough q run n)
  then have "get0 0 (qs_attempts q) (rw_ID run) \<le> 5" by (auto dest!: spec [of _ "rw_ID run"])
  with enough show ?case by (auto simp: release_def maxDispatchAttempts_def)
next
  case (forget q run again)
  have "get0 0 (AList.delete (rw_ID run) (qs_attempts q)) i \<le> 4" for i
    using forget by (cases "i = rw_ID run") (auto simp: get0_def map_of_del dest!: spec [of _ i])
  then show ?case by simp
next
  case (give_up q run flt res d)
  then show ?case by auto
next
  case (start q run)
  then show ?case by (auto intro: le_trans [where j = 4])
qed (auto simp: release_def)

text \<open>A run fails to be dispatched at most five times in a row: the count never exceeds five, stays
  below five while the dispatcher waits, and at five the run is given up.\<close>

theorem retries_bounded:
  assumes "q_reach req q"
  shows "get0 0 (qs_attempts q) i \<le> 5 \<and> (qs_pc q = Waiting \<longrightarrow> get0 0 (qs_attempts q) i < 5)
    \<and> (\<forall>run. qs_pc q = GivingUp run \<longrightarrow> get0 0 (qs_attempts q) (rw_ID run) = 5)"
proof -
  have "(\<forall>i. get0 0 (qs_attempts q) i \<le> (if counting (qs_pc q) i then 5 else 4)) \<and> counted (qs_pc q) (qs_attempts q)"
    using assms by (rule q_reach_induct) (simp add: queue_Start_def NewQueue_def get0_def, rule attempts_step)
  then show ?thesis by (auto simp: maxDispatchAttempts_def le_Suc_eq dest!: spec [of _ i] split: if_splits)
qed

lemma empty_reach: "q_reach req (queue_Start None 5 empty_db)"
proof -
  have "db_ok empty_db" by (simp add: empty_db_def db_ok_def runs_ok_def users_ok_def plans_ok_def)
  then show ?thesis
    unfolding q_reach_def by (intro exI [of _ None] exI [of _ 5] exI [of _ empty_db]) (simp add: named_def empty_db_def)
qed

theorem one_run_in_flight_witness: "in_flight (queue_Start None 5 empty_db) = []"
  using one_run_in_flight [OF empty_reach] by (simp add: queue_Start_def NewQueue_def)

theorem retries_bounded_witness: "get0 0 (qs_attempts (queue_Start None 5 empty_db)) ''t'' < 5"
  using retries_bounded [OF empty_reach, of "''t''"] by (simp add: queue_Start_def NewQueue_def)

section \<open>Cancelling\<close>

lemma find_run_append: "find_run i (d\<lparr>db_runs := db_runs d @ [r]\<rparr>) =
    (case find_run i d of None \<Rightarrow> if rw_ID r = i then Some r else None | Some x \<Rightarrow> Some x)"
proof -
  have "find P (xs @ [r]) = (case find P xs of None \<Rightarrow> if P r then Some r else None | Some x \<Rightarrow> Some x)" for P and xs :: "run_row list"
    by (induction xs) auto
  then show ?thesis by (simp add: find_run_def)
qed

lemma not_queued_ops:
  assumes "db_ok d" and "run_status i d \<noteq> Some ''QUEUED''"
  shows "MarkDispatched flt j w now d = (res, d') \<Longrightarrow> run_status i d' \<noteq> Some ''QUEUED''"
    and "st \<noteq> ''QUEUED'' \<Longrightarrow> SetRunStatus flt j st d = (res, d') \<Longrightarrow> run_status i d' \<noteq> Some ''QUEUED''"
    and "st \<noteq> ''QUEUED'' \<Longrightarrow> FinishRun flt j st now sm d = (res, d') \<Longrightarrow> run_status i d' \<noteq> Some ''QUEUED''"
    and "DeleteRun flt j d = (res, d') \<Longrightarrow> run_status i d' \<noteq> Some ''QUEUED''"
    and "CreateRun flt r d = (res, d') \<Longrightarrow> (find_run i d = None \<Longrightarrow> find_run i d' = None) \<Longrightarrow> run_status i d' \<noteq> Some ''QUEUED''"
    and "run_status i (persistSample flt now j m d) \<noteq> Some ''QUEUED''"
proof -
  have upd: "run_status i (snd (update_runs flt p f d)) \<noteq> Some ''QUEUED''"
    if "\<And>r. rw_ID (f r) = rw_ID r" "\<And>r. rw_Status (f r) = st" "st \<noteq> ''QUEUED''" "\<And>r. p r \<longleftrightarrow> rw_ID r = j \<and> q (rw_Status r)" for flt p f st q
    using update_runs_status(1) [OF assms(1) that(1,2,4), of i] assms(2) that(3)
    by (cases flt) (auto simp: update_runs_def [of "Some _"] split: if_splits)
  have "run_status i (snd (MarkDispatched flt j w now d)) \<noteq> Some ''QUEUED''"
    unfolding MarkDispatched_def by (rule upd [where st = "''RUNNING''" and q = "\<lambda>s. s = ''QUEUED''"]) simp_all
  then show "MarkDispatched flt j w now d = (res, d') \<Longrightarrow> run_status i d' \<noteq> Some ''QUEUED''" by simp
  have "run_status i (snd (SetRunStatus flt j st d)) \<noteq> Some ''QUEUED''" if "st \<noteq> ''QUEUED''"
    unfolding SetRunStatus_def by (rule upd [where st = st and q = "\<lambda>s. True"]) (simp_all add: that)
  then show "st \<noteq> ''QUEUED'' \<Longrightarrow> SetRunStatus flt j st d = (res, d') \<Longrightarrow> run_status i d' \<noteq> Some ''QUEUED''" by simp
  have "run_status i (snd (FinishRun flt j st now sm d)) \<noteq> Some ''QUEUED''" if "st \<noteq> ''QUEUED''"
  proof (cases "null_column [(''error_pct'', rw_ErrorPct sm), (''peak_rps'', rw_PeakRPS sm), (''avg_rps'', rw_AvgRPS sm)]")
    case None
    then show ?thesis unfolding FinishRun_def None option.case
      by (rule_tac upd [where st = st and q = "\<lambda>s. True"]) (simp_all add: that)
  next
    case (Some c)
    have "run_status i (snd (update_runs fl p (\<lambda>r. r) d)) = run_status i d" for fl p
      by (simp add: update_runs_def run_status_def find_run_def update_where_def map_idI split: option.split)
    with Some assms(2) show ?thesis by (simp add: FinishRun_def)
  qed
  then show "st \<noteq> ''QUEUED'' \<Longrightarrow> FinishRun flt j st now sm d = (res, d') \<Longrightarrow> run_status i d' \<noteq> Some ''QUEUED''" by (metis snd_conv)
  show "DeleteRun flt j d = (res, d') \<Longrightarrow> run_status i d' \<noteq> Some ''QUEUED''"
  proof -
    assume del: "DeleteRun flt j d = (res, d')"
    have "set (db_runs d') \<subseteq> set (db_runs d)" using del by (auto simp: DeleteRun_def split: option.splits if_splits)
    moreover have "db_ok d'" by (rule store_writes_ok(4) [OF assms(1) del])
    ultimately show ?thesis using assms run_status_iff by blast
  qed
  show "CreateRun flt r d = (res, d') \<Longrightarrow> (find_run i d = None \<Longrightarrow> find_run i d' = None) \<Longrightarrow> run_status i d' \<noteq> Some ''QUEUED''"
    using assms(2) find_run_append [of i d]
    by (auto simp: CreateRun_def run_status_def split: option.splits if_splits)
  show "run_status i (persistSample flt now j m d) \<noteq> Some ''QUEUED''"
    using assms(2) by (simp add: persistSample_def AddSample_def run_status_def find_run_def split: option.split)
qed

fun about_to :: "pc \<Rightarrow> string option" where
  "about_to (Claiming run) = Some (rw_ID run)"
| "about_to (Sending run) = Some (rw_ID run)"
| "about_to _ = None"

text \<open>Steps in which nobody submits a run under the identifier anew.\<close>

definition no_reuse :: "(run_row \<Rightarrow> dispatch_error + pb_test_plan) \<Rightarrow> string \<Rightarrow> queue \<Rightarrow> queue \<Rightarrow> bool" where
  "no_reuse req i q q' \<longleftrightarrow> q_step req q q' \<and> (find_run i (qs_db q) = None \<longrightarrow> find_run i (qs_db q') = None)"

definition out_of_queue :: "string \<Rightarrow> queue \<Rightarrow> bool" where
  "out_of_queue i q \<longleftrightarrow> run_status i (qs_db q) \<noteq> Some ''QUEUED'' \<and> about_to (qs_pc q) \<noteq> Some i"

lemma out_of_queue_step:
  assumes "q_step req q q'" and "db_ok (qs_db q)" and "out_of_queue i q" and "find_run i (qs_db q) = None \<Longrightarrow> find_run i (qs_db q') = None"
    and "\<And>run plan. req run = Inr plan \<Longrightarrow> ptp_Id plan = rw_ID run"
  shows "out_of_queue i q' \<and> count_list (qs_sent q') i = count_list (qs_sent q) i"
  using assms
proof (induction rule: q_step.induct)
  case (read_run q flt run)
  then have "run_status (rw_ID run) (qs_db q) = Some ''QUEUED''"
    using NextQueued_in [OF read_run(2)] by (auto simp: run_status_iff)
  with read_run show ?case by (auto simp: out_of_queue_def)
next
  case (answer_lost q run plan)
  then show ?case by (auto simp: out_of_queue_def)
next
  case (accepted q run plan workers)
  then show ?case by (auto simp: out_of_queue_def)
next
  case (mark q run workers flt now res d)
  then show ?case using not_queued_ops(1) [OF mark(3) _ mark(2)] by (auto simp: out_of_queue_def)
next
  case (give_up q run flt res d)
  then show ?case using not_queued_ops(2) [OF give_up(3) _ _ give_up(2)] by (auto simp: out_of_queue_def)
next
  case (sampled j q flt now m)
  then show ?case using not_queued_ops(6) by (auto simp: out_of_queue_def)
next
  case (finished j q flt st now summary res d)
  have "pb_status_string st \<noteq> ''QUEUED''" by (cases st) simp_all
  with finished show ?case using not_queued_ops(3) [OF finished(3) _ _ finished(2)] by (auto simp: out_of_queue_def)
next
  case (submit_run run flt q res d)
  then show ?case using not_queued_ops(5) [OF submit_run(4) _ submit_run(3)] by (auto simp: out_of_queue_def)
next
  case (cancel_write j q flt res d)
  then show ?case using not_queued_ops(2) [OF cancel_write(3) _ _ cancel_write(2)] by (auto simp: out_of_queue_def)
next
  case (delete_write j q flt res d)
  then show ?case using not_queued_ops(4) [OF delete_write(3) _ delete_write(2)] by (auto simp: out_of_queue_def)
qed (auto simp: out_of_queue_def release_def)

lemma dispatch_request_id: "dispatch_request decode env ords run = Inr plan \<Longrightarrow> ptp_Id plan = rw_ID run"
  by (auto simp: dispatch_request_def ScenarioToProto_def Let_def split: sum.splits)


section \<open>The dispatcher's walk\<close>

lemma dispatch_walk:
  assumes "qs_pc q = Waiting" and "qs_current q = ''''" and "NextQueued None (qs_db q) = Inr run"
  shows "(q_step req)\<^sup>*\<^sup>* q (q\<lparr>qs_pc := Claiming run\<rparr>)"
proof -
  have "q_step req q (q\<lparr>qs_pc := Checking\<rparr>)" using assms(1) by (rule q_step.wake)
  moreover have "q_step req (q\<lparr>qs_pc := Checking\<rparr>) (q\<lparr>qs_pc := Reading\<rparr>)"
    using q_step.free [of "q\<lparr>qs_pc := Checking\<rparr>" req] assms(2) by simp
  moreover have "q_step req (q\<lparr>qs_pc := Reading\<rparr>) (q\<lparr>qs_pc := Claiming run\<rparr>)"
    using q_step.read_run [of "q\<lparr>qs_pc := Reading\<rparr>" None run req] assms(3) by simp
  ultimately show ?thesis by (meson rtranclp.rtrancl_into_rtrancl rtranclp.rtrancl_refl)
qed

text \<open>A cancellation can be answered as a success although the run is executed: when it comes
  between the dispatcher's read and its call, the orchestrator gets the plan of a run whose status is
  already \<open>CANCELLED\<close>.\<close>

theorem cancelled_run_executes:
  assumes "q_reach req q" and "qs_pc q = Waiting" and "qs_current q = ''''" and "NextQueued None (qs_db q) = Inr run" and "req run = Inr plan"
  shows "\<exists>q1 q2. (q_step req)\<^sup>*\<^sup>* q q1 \<and> run_status (rw_ID run) (qs_db q1) = Some ''CANCELLED'' \<and> qs_sent q1 = qs_sent q
    \<and> snd (Cancel None None (rw_ID run) (qs_db q)) = qs_db q1 \<and> fst (Cancel None None (rw_ID run) (qs_db q)) = None
    \<and> (q_step req)\<^sup>*\<^sup>* q1 q2 \<and> qs_sent q2 = qs_sent q @ [ptp_Id plan]"
proof -
  have ok: "db_ok (qs_db q)" using q_reach_ok [OF assms(1)] by (simp add: q_ok_def)
  let ?i = "rw_ID run"
  have run: "run \<in> set (db_runs (qs_db q))" "rw_Status run = ''QUEUED''" using NextQueued_in [OF assms(4)] by auto
  then have f: "find_run ?i (qs_db q) = Some run" using find_run_Some [OF ok] by blast
  then have c: "cancel_check None ?i (qs_db q) = None" using run by (simp add: cancel_check_def GetRun_def)
  have stat: "run_status ?i (qs_db q) = Some ''QUEUED''" using f run by (simp add: run_status_def)
  let ?d = "put_status ?i ''CANCELLED'' (qs_db q)"
  have "SetRunStatus None ?i ''CANCELLED'' (qs_db q) = (Inr (), ?d)"
    using run by (auto simp: put_status_def SetRunStatus_def update_runs_def count_where_0)
  note set = this
  have cancelled: "run_status ?i ?d = Some ''CANCELLED''" using stat by (simp add: put_status_status [OF ok])
  let ?q0 = "q\<lparr>qs_pc := Claiming run\<rparr>"
  let ?qc = "?q0\<lparr>qs_cancels := qs_cancels q @ [?i]\<rparr>"
  let ?q1 = "?qc\<lparr>qs_db := ?d, qs_cancels := remove1 ?i (qs_cancels q @ [?i])\<rparr>"
  let ?q2 = "?q1\<lparr>qs_pc := Sending run, qs_current := ?i\<rparr>"
  have "q_step req ?q0 ?qc" using q_step.cancel_read [of None ?i ?q0 req] c by simp
  moreover have "q_step req ?qc ?q1" using q_step.cancel_write [of ?i ?qc None _ ?d req] set by simp
  ultimately have 1: "(q_step req)\<^sup>*\<^sup>* q ?q1" using dispatch_walk [OF assms(2-4), of req] by (meson rtranclp.rtrancl_into_rtrancl)
  have "q_step req ?q1 ?q2" using q_step.claim [of ?q1 run req] assms(3) by simp
  moreover have "q_step req ?q2 (?q2\<lparr>qs_pc := Marking run 0, qs_sent := qs_sent q @ [ptp_Id plan]\<rparr>)"
    using q_step.accepted [of ?q2 run req plan 0] assms(5) by simp
  ultimately have 2: "(q_step req)\<^sup>*\<^sup>* ?q1 (?q2\<lparr>qs_pc := Marking run 0, qs_sent := qs_sent q @ [ptp_Id plan]\<rparr>)"
    by (meson rtranclp.rtrancl_into_rtrancl rtranclp.rtrancl_refl)
  show ?thesis
    by (intro exI conjI, rule 1, use cancelled in simp, simp, use c set in \<open>simp add: Cancel_def\<close>, use c set in \<open>simp add: Cancel_def\<close>, rule 2, simp)
qed

text \<open>A run that failed to be dispatched stays at the head of the queue: the dispatcher stops, and
  the next run it takes is the same one, not the one behind it.\<close>

theorem failed_run_blocks_queue:
  assumes "qs_pc q = Failing run" and "qs_current q = rw_ID run" and "NextQueued None (qs_db q) = Inr run"
    and "Suc (get0 0 (qs_attempts q) (rw_ID run)) < maxDispatchAttempts"
  shows "\<exists>q1. (q_step req)\<^sup>*\<^sup>* q q1 \<and> qs_pc q1 = Waiting \<and> qs_db q1 = qs_db q \<and> (q_step req)\<^sup>*\<^sup>* q1 (q1\<lparr>qs_pc := Claiming run\<rparr>)"
proof -
  let ?n = "Suc (get0 0 (qs_attempts q) (rw_ID run))"
  let ?qa = "q\<lparr>qs_pc := Releasing run ?n, qs_attempts := AList.update (rw_ID run) ?n (qs_attempts q)\<rparr>"
  let ?q1 = "(release (rw_ID run) ?qa)\<lparr>qs_pc := Waiting\<rparr>"
  have "q_step req q ?qa" by (rule q_step.count [OF assms(1) refl])
  moreover have "q_step req ?qa ?q1" using q_step.retry_later [of ?qa run ?n req] assms(4) by simp
  ultimately have "(q_step req)\<^sup>*\<^sup>* q ?q1" by (meson rtranclp.rtrancl_into_rtrancl rtranclp.rtrancl_refl)
  moreover have "(q_step req)\<^sup>*\<^sup>* ?q1 (?q1\<lparr>qs_pc := Claiming run\<rparr>)"
    using dispatch_walk [of ?q1 run req] assms(2,3) by (simp add: release_def)
  ultimately show ?thesis by (intro exI [of _ ?q1]) (simp add: release_def)
qed

text \<open>From anywhere the dispatcher finds its way back to waiting.\<close>

lemma one_step: "q_step req q q' \<Longrightarrow> \<exists>q''. (q_step req)\<^sup>*\<^sup>* q' q'' \<and> P q'' \<Longrightarrow> \<exists>q''. (q_step req)\<^sup>*\<^sup>* q q'' \<and> P q''"
  by (meson converse_rtranclp_into_rtranclp)

lemma no_step: "P q \<Longrightarrow> \<exists>q'. (q_step req)\<^sup>*\<^sup>* q q' \<and> P q'"
  by blast

lemma checking_waits: "qs_pc q = Checking \<Longrightarrow> \<exists>q'. (q_step req)\<^sup>*\<^sup>* q q' \<and> qs_pc q' = Waiting"
proof -
  assume pc: "qs_pc q = Checking"
  show ?thesis
  proof (cases "qs_current q = ''''")
    case True
    have "q_step req (q\<lparr>qs_pc := Reading\<rparr>) (q\<lparr>qs_pc := Waiting\<rparr>)"
      using q_step.read_none [of "q\<lparr>qs_pc := Reading\<rparr>" "Some []" _ req] by (simp add: NextQueued_def)
    then show ?thesis by (rule one_step [OF q_step.free [OF pc True] one_step]) (rule no_step, simp)
  next
    case False
    show ?thesis by (rule one_step [OF q_step.busy [OF pc False]], rule no_step) simp
  qed
qed

lemma forgetting_waits: "qs_pc q = Forgetting run b \<Longrightarrow> \<exists>q'. (q_step req)\<^sup>*\<^sup>* q q' \<and> qs_pc q' = Waiting"
  by (rule one_step [OF q_step.forget], assumption, cases b) (auto intro: checking_waits no_step)

lemma releasing_waits:
  assumes "qs_pc q = Releasing run n"
  shows "\<exists>q'. (q_step req)\<^sup>*\<^sup>* q q' \<and> qs_pc q' = Waiting"
proof (cases "n < maxDispatchAttempts")
  case True
  show ?thesis by (rule one_step [OF q_step.retry_later [OF assms True]], rule no_step) simp
next
  case False
  let ?q = "(release (rw_ID run) q)\<lparr>qs_pc := GivingUp run\<rparr>"
  show ?thesis
    by (rule one_step [OF q_step.enough [OF assms False]], rule one_step [OF q_step.give_up [of ?q run, OF _ surjective_pairing]])
       (auto intro: forgetting_waits)
qed

lemma dispatcher_waits: "\<exists>q'. (q_step req)\<^sup>*\<^sup>* q q' \<and> qs_pc q' = Waiting"
proof -
  have failing: "qs_pc q = Failing run \<Longrightarrow> \<exists>q'. (q_step req)\<^sup>*\<^sup>* q q' \<and> qs_pc q' = Waiting" for q run
    by (rule one_step [OF q_step.count [OF _ refl]], assumption) (auto intro: releasing_waits)
  have sending: "qs_pc q = Sending run \<Longrightarrow> \<exists>q'. (q_step req)\<^sup>*\<^sup>* q q' \<and> qs_pc q' = Waiting" for q run
    by (cases "req run") (rule one_step [OF q_step.bad_plan], auto intro: failing, rule one_step [OF q_step.refused], auto intro: failing)
  have starting: "qs_pc q = Starting run \<Longrightarrow> \<exists>q'. (q_step req)\<^sup>*\<^sup>* q q' \<and> qs_pc q' = Waiting" for q run
    by (rule one_step [OF q_step.start], assumption) (auto intro: forgetting_waits)
  show ?thesis
  proof (cases "qs_pc q")
    case Waiting
    then show ?thesis by (rule no_step)
  next
    case Checking
    then show ?thesis by (rule checking_waits)
  next
    case Reading
    then have "q_step req q (q\<lparr>qs_pc := Waiting\<rparr>)" using q_step.read_none [of q "Some []" _ req] by (simp add: NextQueued_def)
    then show ?thesis by (rule one_step) (rule no_step, simp)
  next
    case (Claiming run)
    show ?thesis
    proof (cases "qs_current q = ''''")
      case True
      show ?thesis by (rule one_step [OF q_step.claim [OF Claiming True]]) (auto intro: sending)
    next
      case False
      show ?thesis by (rule one_step [OF q_step.lost_claim [OF Claiming False]], rule no_step) simp
    qed
  next
    case (Sending run)
    then show ?thesis by (rule sending)
  next
    case (Marking run w)
    show ?thesis by (rule one_step [OF q_step.mark [OF Marking surjective_pairing]]) (auto intro: starting)
  next
    case (Starting run)
    then show ?thesis by (rule starting)
  next
    case (Failing run)
    then show ?thesis by (rule failing)
  next
    case (Releasing run n)
    then show ?thesis by (rule releasing_waits)
  next
    case (GivingUp run)
    show ?thesis by (rule one_step [OF q_step.give_up [OF GivingUp surjective_pairing]]) (auto intro: forgetting_waits)
  next
    case (Forgetting run b)
    then show ?thesis by (rule forgetting_waits)
  qed
qed

text \<open>C22: the queue does not get stuck: from every reachable state, as soon as the run being recorded
  ends, the dispatcher can wait again with the slot free, ready for the next run.\<close>

theorem queue_never_stuck:
  assumes "q_reach req q"
  shows "\<exists>q'. (q_step req)\<^sup>*\<^sup>* q q' \<and> qs_pc q' = Waiting \<and> qs_current q' = ''''"
proof -
  from dispatcher_waits [of req q] obtain q1 where s1: "(q_step req)\<^sup>*\<^sup>* q q1" and w: "qs_pc q1 = Waiting" by blast
  from s1 have ok: "q_ok q1" by (induction rule: rtranclp_induct) (auto simp: q_reach_ok [OF assms] intro: q_step_ok)
  have "\<exists>q'. (q_step req)\<^sup>*\<^sup>* q1 q' \<and> qs_pc q' = Waiting \<and> qs_current q' = ''''"
  proof (cases "qs_current q1 = ''''")
    case False
    then have "in_flight q1 = [qs_current q1]" using ok by (simp add: q_ok_def)
    then consider (rec) "qs_recording q1 = [qs_current q1]" "qs_done q1 = []" | (fin) "qs_recording q1 = []" "qs_done q1 = [qs_current q1]"
      using w by (auto simp: in_flight_def append_eq_Cons_conv)
    then show ?thesis
    proof cases
      case rec
      let ?d = "snd (FinishRun None (qs_current q1) (pb_status_string COMPLETED) 0 zero_run (qs_db q1))"
      let ?q2 = "q1\<lparr>qs_db := ?d, qs_recording := removeAll (qs_current q1) (qs_recording q1), qs_done := qs_done q1 @ [qs_current q1]\<rparr>"
      have "q_step req q1 ?q2" using q_step.finished [of "qs_current q1" q1 None COMPLETED 0 zero_run, OF _ surjective_pairing] rec by (simp del: pb_status_string.simps)
      then show ?thesis
        by (rule one_step) (rule one_step [OF q_step.called_back [of "qs_current q1"]], simp, rule no_step, use w in \<open>simp add: release_def\<close>)
    next
      case fin
      then show ?thesis
        by (rule_tac one_step [OF q_step.called_back [of "qs_current q1"]], simp, rule_tac no_step, use w in \<open>simp add: release_def\<close>)
    qed
  qed (use w in blast)
  with s1 show ?thesis by (meson rtranclp_trans)
qed

theorem queue_never_stuck_witness:
  "\<exists>q'. (q_step (\<lambda>_. Inl (RpcError [])))\<^sup>*\<^sup>* (queue_Start None 5 empty_db) q' \<and> qs_pc q' = Waiting \<and> qs_current q' = ''''"
  by (rule queue_never_stuck [OF empty_reach])


definition demo_run :: run_row where
  "demo_run = zero_run\<lparr>rw_ID := ''a'', rw_Status := ''QUEUED'', rw_StartedAt := 10\<rparr>"

lemma two_queued_reach: "q_reach req (queue_Start None 5 two_queued)"
  unfolding q_reach_def using two_queued_ok
  by (intro exI [of _ None] exI [of _ 5] exI [of _ two_queued]) (simp add: named_def two_queued_def zero_run_def empty_db_def)

lemma two_queued_start: "NextQueued None (qs_db (queue_Start None 5 two_queued)) = Inr demo_run"
  by (simp add: queue_Start_def NewQueue_def FailInterruptedRuns_def two_queued_def zero_run_def empty_db_def NextQueued_def
      queued_runs_def demo_run_def update_where_def)

theorem cancelled_run_executes_witness:
  "\<exists>q1 q2. (q_step (\<lambda>r. Inr ((ScenarioToProto demo_scenario (rw_ID r)))))\<^sup>*\<^sup>* q1 q2
    \<and> run_status ''a'' (qs_db q1) = Some ''CANCELLED'' \<and> qs_sent q1 = [] \<and> qs_sent q2 = [''a'']"
  using cancelled_run_executes [OF two_queued_reach _ _ two_queued_start refl, of "\<lambda>r. ScenarioToProto demo_scenario (rw_ID r)"]
  by (simp add: queue_Start_def NewQueue_def demo_run_def ScenarioToProto_def Let_def zero_run_def) blast

theorem failed_run_blocks_queue_witness:
  "\<exists>q1. (q_step (\<lambda>_. Inl (RpcError [])))\<^sup>*\<^sup>* ((queue_Start None 5 two_queued)\<lparr>qs_pc := Failing demo_run, qs_current := ''a''\<rparr>) q1
    \<and> qs_pc q1 = Waiting \<and> (q_step (\<lambda>_. Inl (RpcError [])))\<^sup>*\<^sup>* q1 (q1\<lparr>qs_pc := Claiming demo_run\<rparr>)"
proof -
  let ?q = "(queue_Start None 5 two_queued)\<lparr>qs_pc := Failing demo_run, qs_current := ''a''\<rparr>"
  have "NextQueued None (qs_db ?q) = Inr demo_run" using two_queued_start by simp
  moreover have "qs_current ?q = rw_ID demo_run" "Suc (get0 0 (qs_attempts ?q) (rw_ID demo_run)) < maxDispatchAttempts"
    by (simp_all add: demo_run_def queue_Start_def NewQueue_def get0_def maxDispatchAttempts_def)
  ultimately show ?thesis using failed_run_blocks_queue [of ?q demo_run "\<lambda>_. Inl (RpcError [])"] by auto
qed

end
