(* ===== verification/Go_Url.thy ===== *)
theory Go_Url
  imports Go_Strings
begin

text \<open>
  What the program uses of Go's \<open>net/url\<close> and of \<open>net.ParseIP\<close>: \<open>url.Parse\<close> with the scheme and
  the host it finds and the errors it reports, \<open>Hostname\<close>, and the sixteen bytes of an address.
  The user, the path, the query and the fragment are checked but not kept.
\<close>

section \<open>Escapes\<close>

datatype url_error =
    ControlCharacter
  | MissingScheme
  | ColonInFirstSegment
  | MissingBracket
  | InvalidPort string
  | InvalidHost string
  | InvalidEscape string
  | InvalidUserinfo

definition is_alpha :: "char \<Rightarrow> bool" where
  "is_alpha c \<longleftrightarrow> 65 \<le> byte c \<and> byte c \<le> 90 \<or> 97 \<le> byte c \<and> byte c \<le> 122"

definition hex_val :: "char \<Rightarrow> nat option" where
  "hex_val c =
     (if is_digit c then Some (byte c - 48)
      else if 97 \<le> byte c \<and> byte c \<le> 102 then Some (byte c - 87)
      else if 65 \<le> byte c \<and> byte c \<le> 70 then Some (byte c - 55)
      else None)"

text \<open>The bytes a host may contain as they are: the negation of \<open>shouldEscape\<close>, or not ASCII.\<close>

definition host_char :: "char \<Rightarrow> bool" where
  "host_char c \<longleftrightarrow> is_alpha c \<or> is_digit c \<or> 128 \<le> byte c \<or> c \<in> set ''!$&()*+,;=:[]<>-_.~'' \<or> byte c = 39 \<or> byte c = 34"

text \<open>\<open>unescape\<close> outside hosts only asks that every percent sign starts an escape.\<close>

fun escapes_ok :: "string \<Rightarrow> bool" where
  "escapes_ok [] = True"
| "escapes_ok (c # cs) =
     (if c = CHR ''%''
      then (case cs of a # b # cs' \<Rightarrow> hex_val a \<noteq> None \<and> hex_val b \<noteq> None \<and> escapes_ok cs' | _ \<Rightarrow> False)
      else escapes_ok cs)"

text \<open>\<open>unescape\<close> in a host or in a zone: a host may only escape bytes that are not ASCII (and the
  percent sign of a zone), a zone what it could not contain otherwise.\<close>

fun unescape_host :: "bool \<Rightarrow> string \<Rightarrow> url_error + string" where
  "unescape_host zone [] = Inr []"
| "unescape_host zone (c # cs) =
     (if c = CHR ''%''
      then (case cs of
              a # b # cs' \<Rightarrow>
                (case (hex_val a, hex_val b) of
                   (Some x, Some y) \<Rightarrow>
                     if \<not> zone \<and> x < 8 \<and> \<not> (a = CHR ''2'' \<and> b = CHR ''5'') then Inl (InvalidEscape [c, a, b])
                     else if zone \<and> \<not> (a = CHR ''2'' \<and> b = CHR ''5'') \<and> x * 16 + y \<noteq> 32
                       \<and> (\<not> host_char (char_of (x * 16 + y)) \<or> 128 \<le> x * 16 + y) then Inl (InvalidEscape [c, a, b])
                     else (case unescape_host zone cs' of Inl e \<Rightarrow> Inl e | Inr r \<Rightarrow> Inr (char_of (x * 16 + y) # r))
                 | _ \<Rightarrow> Inl (InvalidEscape [c, a, b]))
            | _ \<Rightarrow> Inl (InvalidEscape (c # cs)))
      else if \<not> host_char c then Inl (InvalidHost [c])
      else (case unescape_host zone cs of Inl e \<Rightarrow> Inl e | Inr r \<Rightarrow> Inr (c # r)))"

section \<open>Cutting\<close>

text \<open>\<open>strings.Cut\<close> at a byte, and the last index of a byte.\<close>

definition before :: "char \<Rightarrow> string \<Rightarrow> string" where
  "before c s = takeWhile (\<lambda>d. d \<noteq> c) s"

definition after :: "char \<Rightarrow> string \<Rightarrow> string" where
  "after c s = drop 1 (dropWhile (\<lambda>d. d \<noteq> c) s)"

definition after_last :: "char \<Rightarrow> string \<Rightarrow> string" where
  "after_last c s = rev (takeWhile (\<lambda>d. d \<noteq> c) (rev s))"

definition before_last :: "char \<Rightarrow> string \<Rightarrow> string" where
  "before_last c s = take (length s - length (after_last c s) - 1) s"

section \<open>Parsing\<close>

text \<open>The scheme, if there is one, and the rest; the flag tells whether a byte has been read.\<close>

fun scan_scheme :: "bool \<Rightarrow> string \<Rightarrow> (url_error + string \<times> string) option" where
  "scan_scheme started [] = None"
| "scan_scheme started (c # cs) =
     (if is_alpha c \<or> started \<and> (is_digit c \<or> c \<in> set ''+-.'')
      then (case scan_scheme True cs of
              Some (Inr (sch, rest)) \<Rightarrow> Some (Inr (c # sch, rest))
            | r \<Rightarrow> r)
      else if c = CHR '':'' then (if started then Some (Inr ([], cs)) else Some (Inl MissingScheme))
      else None)"

definition getScheme :: "string \<Rightarrow> url_error + string \<times> string" where
  "getScheme s = (case scan_scheme False s of None \<Rightarrow> Inr ([], s) | Some r \<Rightarrow> r)"

definition validOptionalPort :: "string \<Rightarrow> bool" where
  "validOptionalPort p = (case p of [] \<Rightarrow> True | c # ds \<Rightarrow> c = CHR '':'' \<and> list_all is_digit ds)"

definition validUserinfo :: "string \<Rightarrow> bool" where
  "validUserinfo s = list_all (\<lambda>c. is_alpha c \<or> is_digit c \<or> c \<in> set ''-._:~!$&()*+,;=%@'' \<or> byte c = 39) s"

text \<open>The text from the first \<open>%25\<close> on.\<close>

fun zone_index :: "string \<Rightarrow> nat option" where
  "zone_index [] = None"
| "zone_index (c # cs) = (if has_prefix (c # cs) ''%25'' then Some 0 else map_option Suc (zone_index cs))"

definition bind_url :: "url_error + 'a \<Rightarrow> ('a \<Rightarrow> url_error + 'b) \<Rightarrow> url_error + 'b" where
  "bind_url r f = (case r of Inl e \<Rightarrow> Inl e | Inr x \<Rightarrow> f x)"

definition parseHost :: "string \<Rightarrow> url_error + string" where
  "parseHost host =
     (if has_prefix host ''[''
      then if CHR '']'' \<notin> set host then Inl MissingBracket
        else
          let i = length (before_last (CHR '']'') host); colonPort = after_last (CHR '']'') host
          in if \<not> validOptionalPort colonPort then Inl (InvalidPort colonPort)
             else (case zone_index (take i host) of
                     None \<Rightarrow> unescape_host False host
                   | Some z \<Rightarrow>
                       bind_url (unescape_host False (take z host)) (\<lambda>h1.
                       bind_url (unescape_host True (drop z (take i host))) (\<lambda>h2.
                       bind_url (unescape_host False (drop i host)) (\<lambda>h3. Inr (h1 @ h2 @ h3)))))
      else if CHR '':'' \<in> set host \<and> \<not> validOptionalPort (CHR '':'' # after_last (CHR '':'') host)
      then Inl (InvalidPort (CHR '':'' # after_last (CHR '':'') host))
      else unescape_host False host)"

definition parseAuthority :: "string \<Rightarrow> url_error + string" where
  "parseAuthority authority =
     (if CHR ''@'' \<notin> set authority then parseHost authority
      else bind_url (parseHost (after_last (CHR ''@'') authority)) (\<lambda>host.
        let userinfo = before_last (CHR ''@'') authority
        in if \<not> validUserinfo userinfo then Inl InvalidUserinfo
           else if \<not> escapes_ok (before (CHR '':'') userinfo) \<or> \<not> escapes_ok (after (CHR '':'') userinfo) then Inl (InvalidEscape userinfo)
           else Inr host))"

record url =
  url_Scheme :: string
  url_Host :: string

definition has_control :: "string \<Rightarrow> bool" where
  "has_control s = (\<exists>c \<in> set s. byte c < 32 \<or> byte c = 127)"

definition url_Parse :: "string \<Rightarrow> url_error + url" where
  "url_Parse rawURL =
     (let u = before (CHR ''#'') rawURL; frag = after (CHR ''#'') rawURL
      in if has_control u then Inl ControlCharacter
         else if u = ''*'' then (if escapes_ok frag then Inr \<lparr>url_Scheme = [], url_Host = []\<rparr> else Inl (InvalidEscape frag))
         else bind_url (getScheme u) (\<lambda>(sch, rest0).
           let scheme = to_lower sch; rest = before (CHR ''?'') rest0;
               finish = (\<lambda>host path. if \<not> escapes_ok path then Inl (InvalidEscape path)
                  else if \<not> escapes_ok frag then Inl (InvalidEscape frag)
                  else Inr \<lparr>url_Scheme = scheme, url_Host = host\<rparr>)
           in if \<not> has_prefix rest ''/'' \<and> scheme \<noteq> [] then finish [] []
              else if \<not> has_prefix rest ''/'' \<and> CHR '':'' \<in> set (before (CHR ''/'') rest) then Inl ColonInFirstSegment
              else if (scheme \<noteq> [] \<or> \<not> has_prefix rest ''///'') \<and> has_prefix rest ''//''
              then let authority = before (CHR ''/'') (drop 2 rest)
                   in bind_url (parseAuthority authority) (\<lambda>host. finish host (drop (length authority) (drop 2 rest)))
              else finish [] rest))"

definition Hostname :: "url \<Rightarrow> string" where
  "Hostname u =
     (let h = url_Host u;
          host = (if CHR '':'' \<in> set h \<and> validOptionalPort (CHR '':'' # after_last (CHR '':'') h) then before_last (CHR '':'') h else h)
      in if has_prefix host ''['' \<and> has_suffix host '']'' then take (length host - 2) (drop 1 host) else host)"

section \<open>Addresses\<close>

text \<open>\<open>parseIPv4Fields\<close>: four octets without leading zeros.\<close>

definition octet :: "string \<Rightarrow> nat option" where
  "octet s = (if s \<noteq> [] \<and> list_all is_digit s \<and> (length s = 1 \<or> hd s \<noteq> CHR ''0'') \<and> digits_val s \<le> 255
     then Some (digits_val s) else None)"

definition parse_ip4 :: "string \<Rightarrow> nat list option" where
  "parse_ip4 s =
     (case map octet (split_on (CHR ''.'') s) of
        [Some a, Some b, Some c, Some d] \<Rightarrow> Some [a, b, c, d]
      | _ \<Rightarrow> None)"

fun hex_group :: "nat \<Rightarrow> string \<Rightarrow> nat \<times> string" where
  "hex_group acc [] = (acc, [])"
| "hex_group acc (c # cs) = (case hex_val c of None \<Rightarrow> (acc, c # cs) | Some x \<Rightarrow> hex_group (acc * 16 + x) cs)"

text \<open>The loop of \<open>parseIPv6\<close>: the bytes so far, the position of the ellipsis and the rest; \<open>n\<close>
  is the number of groups for which there is still room.\<close>

fun ip6_groups :: "nat \<Rightarrow> string \<Rightarrow> nat list \<Rightarrow> nat option \<Rightarrow> (nat list \<times> nat option \<times> string) option" where
  "ip6_groups 0 s ip ell = Some (ip, ell, s)"
| "ip6_groups (Suc n) s ip ell =
     (case hex_group 0 s of
        (acc, rest) \<Rightarrow>
          let off = length s - length rest
          in if off = 0 \<or> 4 < off then None
             else if has_prefix rest ''.''
             then (if ell = None \<and> length ip \<noteq> 12 \<or> 16 < length ip + 4 then None
                   else map_option (\<lambda>v4. (ip @ v4, ell, [])) (parse_ip4 s))
             else
               let ip' = ip @ [acc div 256, acc mod 256]
               in (case rest of
                     [] \<Rightarrow> Some (ip', ell, [])
                   | c # s' \<Rightarrow>
                       if c \<noteq> CHR '':'' \<or> s' = [] then None
                       else if has_prefix s' '':''
                       then (if ell \<noteq> None then None
                             else if s' = '':'' then Some (ip', Some (length ip'), [])
                             else ip6_groups n (drop 1 s') ip' (Some (length ip')))
                       else ip6_groups n s' ip' ell))"

definition ip6_finish :: "nat list \<times> nat option \<times> string \<Rightarrow> nat list option" where
  "ip6_finish r =
     (case r of (ip, ell, s) \<Rightarrow>
        if s \<noteq> [] then None
        else (case ell of
                None \<Rightarrow> if length ip < 16 then None else Some ip
              | Some e \<Rightarrow> if length ip < 16 then Some (take e ip @ replicate (16 - length ip) 0 @ drop e ip) else None))"

definition parse_ip6 :: "string \<Rightarrow> nat list option" where
  "parse_ip6 s =
     (if has_prefix s ''::''
      then (if length s = 2 then Some (replicate 16 0) else Option.bind (ip6_groups 8 (drop 2 s) [] (Some 0)) ip6_finish)
      else Option.bind (ip6_groups 8 s [] None) ip6_finish)"

text \<open>The first of the three characters decides; an address with a zone is no \<open>net.IP\<close>.\<close>

definition ParseIP :: "string \<Rightarrow> nat list option" where
  "ParseIP s =
     (case dropWhile (\<lambda>c. c \<notin> set ''.:%'') s of
        [] \<Rightarrow> None
      | c # _ \<Rightarrow>
          if c = CHR ''.'' then map_option (\<lambda>v4. replicate 10 0 @ [255, 255] @ v4) (parse_ip4 s)
          else if c = CHR '':'' then (if CHR ''%'' \<in> set s then None else parse_ip6 s)
          else None)"

end
