(* ===== verification/Allowlist.thy ===== *)
theory Allowlist
  imports Go_Url Scenario_DSL Virtual_User
begin

text \<open>
  The target allowlist of \<open>internal/api/allowlist.go\<close>: which hosts a run may aim at. A pattern is
  a host, an address or \<open>*.\<close> before a domain. The check sees the base URL of the scenario; the
  worker's \<open>build_request\<close> puts the path behind it.
\<close>

section \<open>Patterns\<close>

datatype target_error =
    ParseFailed url_error
  | BadScheme string
  | NoHost
  | BlockedHost string string
  | NotAllowed string

definition blockedHosts :: "(string, string) gomap" where
  "blockedHosts = [(''169.254.169.254'', ''cloud instance metadata''), (''metadata.google.internal'', ''cloud instance metadata'')]"

fun clean_patterns :: "string list \<Rightarrow> string list" where
  "clean_patterns [] = []"
| "clean_patterns (p # ps) =
     (let p' = to_lower (trim_space p) in if p' \<noteq> [] then p' # clean_patterns ps else clean_patterns ps)"

definition NewAllowlist :: "string list \<Rightarrow> string list" where
  "NewAllowlist patterns = clean_patterns patterns"

definition Unrestricted :: "string list \<Rightarrow> bool" where
  "Unrestricted a \<longleftrightarrow> length a = 0"

definition matchHost :: "string \<Rightarrow> string \<Rightarrow> bool" where
  "matchHost pattern host =
     (if pattern = host then True
      else (case cut_prefix pattern ''*.'' of
              Some suffix \<Rightarrow> has_suffix host (''.'' @ suffix) \<and> host \<noteq> suffix
            | None \<Rightarrow>
                (case ParseIP pattern of
                   None \<Rightarrow> False
                 | Some ip \<Rightarrow> (case ParseIP host of None \<Rightarrow> False | Some hostIP \<Rightarrow> ip = hostIP))))"

fun match_any :: "string list \<Rightarrow> string \<Rightarrow> bool" where
  "match_any [] host = False"
| "match_any (p # ps) host = (if matchHost p host then True else match_any ps host)"

text \<open>\<open>None\<close> is \<open>nil\<close>: the target is permitted.\<close>

definition Check :: "string list \<Rightarrow> string \<Rightarrow> target_error option" where
  "Check a baseURL =
     (case url_Parse (trim_space baseURL) of
        Inl e \<Rightarrow> Some (ParseFailed e)
      | Inr u \<Rightarrow>
          if url_Scheme u \<noteq> ''http'' \<and> url_Scheme u \<noteq> ''https'' then Some (BadScheme (url_Scheme u))
          else
            let host = to_lower (Hostname u)
            in if host = [] then Some NoHost
               else if match_any a host then None
               else (case map_of blockedHosts host of
                       Some reason \<Rightarrow> Some (BlockedHost host reason)
                     | None \<Rightarrow> if Unrestricted a then None else Some (NotAllowed host)))"

text \<open>The host a request of the worker goes to.\<close>

definition target_host :: "string \<Rightarrow> string option" where
  "target_host rawURL = (case url_Parse rawURL of Inl _ \<Rightarrow> None | Inr u \<Rightarrow> Some (to_lower (Hostname u)))"

section \<open>Where a parsed URL points\<close>

lemma bind_url_Inr: "bind_url r f = Inr y \<longleftrightarrow> (\<exists>x. r = Inr x \<and> f x = Inr y)"
  by (auto simp: bind_url_def split: sum.split)

lemma before_id: "c \<notin> set s \<Longrightarrow> before c s = s"
  by (induction s) (auto simp: before_def)

lemma before_append: "before c (s @ t) = (if c \<in> set s then before c s else s @ before c t)"
  by (induction s) (auto simp: before_def)

lemma before_stop: "before c (s @ c # t) = before c s"
  by (induction s) (auto simp: before_def)

lemma before_Cons: "before c (d # s) = (if d = c then [] else d # before c s)"
  by (simp add: before_def)

lemma scan_scheme_append: "scan_scheme b s = Some (Inr (sch, rest)) \<Longrightarrow> scan_scheme b (s @ t) = Some (Inr (sch, rest @ t))"
  by (induction b s arbitrary: sch rule: scan_scheme.induct) (auto split: if_splits option.splits sum.splits)

lemma getScheme_append:
  assumes "getScheme s = Inr (sch, rest)" and "sch \<noteq> []"
  shows "getScheme (s @ t) = Inr (sch, rest @ t)"
proof -
  have "scan_scheme False s = Some (Inr (sch, rest))" using assms by (auto simp: getScheme_def split: option.splits)
  from scan_scheme_append [OF this] show ?thesis by (simp add: getScheme_def)
qed

definition authority_of :: "string \<Rightarrow> string" where
  "authority_of rest0 = before (CHR ''/'') (drop 2 (before (CHR ''?'') rest0))"

text \<open>The scheme and the host of what parses, and when there is a scheme.\<close>

lemma url_Parse_parts:
  assumes "url_Parse s = Inr u" and "getScheme (before (CHR ''#'') s) = Inr (sch, rest0)" and "sch \<noteq> []" and "before (CHR ''#'') s \<noteq> ''*''"
  shows "url_Scheme u = to_lower sch"
    and "has_prefix (before (CHR ''?'') rest0) ''//'' \<Longrightarrow> parseAuthority (authority_of rest0) = Inr (url_Host u)"
    and "\<not> has_prefix (before (CHR ''?'') rest0) ''//'' \<Longrightarrow> url_Host u = []"
proof -
  have "to_lower sch \<noteq> []" using assms(3) by (simp add: to_lower_def)
  moreover have "has_prefix r ''//'' \<Longrightarrow> has_prefix r ''/''" for r by (auto simp: has_prefix_iff)
  ultimately have "url_Scheme u = to_lower sch \<and> (has_prefix (before (CHR ''?'') rest0) ''//'' \<longrightarrow> parseAuthority (authority_of rest0) = Inr (url_Host u))
    \<and> (\<not> has_prefix (before (CHR ''?'') rest0) ''//'' \<longrightarrow> url_Host u = [])"
    using assms unfolding url_Parse_def authority_of_def
    by (auto simp: Let_def bind_url_def split: if_splits sum.splits)
  then show "url_Scheme u = to_lower sch"
    "has_prefix (before (CHR ''?'') rest0) ''//'' \<Longrightarrow> parseAuthority (authority_of rest0) = Inr (url_Host u)"
    "\<not> has_prefix (before (CHR ''?'') rest0) ''//'' \<Longrightarrow> url_Host u = []" by auto
qed

lemma url_Parse_scheme:
  assumes "url_Parse s = Inr u" and "url_Scheme u \<noteq> []"
  shows "\<exists>sch rest0. getScheme (before (CHR ''#'') s) = Inr (sch, rest0) \<and> sch \<noteq> [] \<and> before (CHR ''#'') s \<noteq> ''*''"
  using assms by (auto simp: url_Parse_def Let_def bind_url_Inr to_lower_def split: if_splits)

lemma Hostname_empty: "url_Host u = [] \<Longrightarrow> Hostname u = []"
  by (simp add: Hostname_def has_prefix_def)

text \<open>A path that starts with a slash changes neither the scheme nor the host.\<close>

lemma slash_path_same_host:
  assumes b: "url_Parse base = Inr u" and sch: "url_Scheme u \<noteq> []" and host: "url_Host u \<noteq> []"
    and full: "url_Parse (base @ CHR ''/'' # p) = Inr u'"
  shows "url_Scheme u' = url_Scheme u \<and> url_Host u' = url_Host u"
proof -
  let ?h = "CHR ''#''" and ?q = "CHR ''?''" and ?s = "CHR ''/''"
  obtain sch rest0 where g: "getScheme (before ?h base) = Inr (sch, rest0)" "sch \<noteq> []" "before ?h base \<noteq> ''*''"
    using url_Parse_scheme [OF b sch] by blast
  note parts = url_Parse_parts [OF b g]
  have pre: "has_prefix (before ?q rest0) ''//''" using parts(3) host by blast
  obtain t where g': "getScheme (before ?h (base @ ?s # p)) = Inr (sch, rest0 @ t)" "t = [] \<or> (\<exists>p'. t = ?s # p')"
  proof (cases "?h \<in> set base")
    case True
    then show thesis using that [of "[]"] g(1) by (simp add: before_append)
  next
    case False
    then have "before ?h (base @ ?s # p) = before ?h base @ ?s # before ?h p" by (simp add: before_append before_Cons before_id)
    then show thesis using that [of "?s # before ?h p"] getScheme_append [OF g(1,2), of "?s # before ?h p"] by simp
  qed
  obtain r where r: "before ?q rest0 = ''//'' @ r" using pre by (auto simp: has_prefix_iff)
  have auth: "authority_of (rest0 @ t) = authority_of rest0 \<and> has_prefix (before ?q (rest0 @ t)) ''//''"
  proof (cases "?q \<in> set rest0 \<or> t = []")
    case True
    then show ?thesis using pre by (auto simp: authority_of_def before_append before_id)
  next
    case False
    then obtain p' where t: "t = ?s # p'" using g'(2) by blast
    have "rest0 = ''//'' @ r" using False r by (simp add: before_id)
    then have "before ?q (rest0 @ t) = ''//'' @ (r @ ?s # before ?q p')" using False t by (simp add: before_append before_Cons)
    then show ?thesis using before_stop [of ?s r] r by (simp add: authority_of_def) (simp add: has_prefix_def)
  qed
  have "before ?h (base @ ?s # p) \<noteq> ''*''"
  proof
    assume "before ?h (base @ ?s # p) = ''*''"
    with g'(1) g(2) show False by (simp add: getScheme_def is_alpha_def is_digit_def byte_def)
  qed
  note parts' = url_Parse_parts [OF full g'(1) g(2) this]
  show ?thesis using parts parts' auth pre by simp
qed

section \<open>Properties\<close>

definition permitted :: "string list \<Rightarrow> string \<Rightarrow> bool" where
  "permitted a host \<longleftrightarrow> (\<exists>p \<in> set a. matchHost p host) \<or> a = [] \<and> map_of blockedHosts host = None"

lemma match_any_iff: "match_any a host \<longleftrightarrow> (\<exists>p \<in> set a. matchHost p host)"
  by (induction a) auto

lemma Check_None_iff:
  "Check a b = None \<longleftrightarrow> (\<exists>u. url_Parse (trim_space b) = Inr u \<and> (url_Scheme u = ''http'' \<or> url_Scheme u = ''https'')
     \<and> to_lower (Hostname u) \<noteq> [] \<and> permitted a (to_lower (Hostname u)))"
  by (auto simp: Check_def permitted_def match_any_iff Unrestricted_def Let_def split: sum.splits option.splits)

lemma slash_path_on_target:
  assumes "Check a (hc_BaseURL cfg) = None" and "trim_space (hc_BaseURL cfg) = hc_BaseURL cfg"
    and "rq_Path req = CHR ''/'' # p" and "target_host (hr_URL (build_request o1 o2 cfg req)) = Some h"
  shows "target_host (hc_BaseURL cfg) = Some h \<and> permitted a h \<and> h \<noteq> []"
proof -
  obtain u where u: "url_Parse (hc_BaseURL cfg) = Inr u" "url_Scheme u = ''http'' \<or> url_Scheme u = ''https''"
    "to_lower (Hostname u) \<noteq> []" "permitted a (to_lower (Hostname u))" using assms(1,2) by (auto simp: Check_None_iff)
  obtain u' where u': "url_Parse (hc_BaseURL cfg @ CHR ''/'' # p) = Inr u'" "h = to_lower (Hostname u')"
    using assms(3,4) by (auto simp: build_request_def target_host_def split: sum.splits)
  have "url_Host u \<noteq> []" using u(3) Hostname_empty by (auto simp: to_lower_def)
  moreover have "url_Scheme u \<noteq> []" using u(2) by auto
  ultimately have "url_Host u' = url_Host u" using slash_path_same_host [OF u(1) _ _ u'(1)] by blast
  then have "Hostname u' = Hostname u" by (simp add: Hostname_def)
  with u u' show ?thesis by (simp add: target_host_def)
qed

text \<open>Every request of an accepted plan whose path starts with a slash goes to the host that was
  checked: one that a pattern names, or, with no patterns, one that is not blocked.\<close>

theorem requests_stay_on_target:
  assumes "Check a (hc_BaseURL cfg) = None" and "trim_space (hc_BaseURL cfg) = hc_BaseURL cfg"
    and "rq_Path req = CHR ''/'' # p" and "target_host (hr_URL (build_request o1 o2 cfg req)) = Some h"
  shows "target_host (hc_BaseURL cfg) = Some h \<and> permitted a h \<and> h \<noteq> []"
  using assms by (rule slash_path_on_target)

lemmas url_eval = url_Parse_def before_def after_def after_last_def before_last_def has_control_def byte_def bind_url_def getScheme_def
  is_alpha_def is_digit_def parseAuthority_def parseHost_def validOptionalPort_def validUserinfo_def host_char_def hex_val_def
  has_prefix_def has_suffix_def to_lower_def lower_char_def Hostname_def char_of_eq_iff

definition demo_cfg :: "string \<Rightarrow> http_config" where
  "demo_cfg b = \<lparr>hc_BaseURL = b, hc_Requests = [], hc_Headers = [], hc_Timeout = 0\<rparr>"

definition get_path :: "string \<Rightarrow> request" where
  "get_path p = \<lparr>rq_Method = ''GET'', rq_Path = p, rq_Headers = [], rq_Body = '''', rq_Assertions = [], rq_ThinkTime = 0\<rparr>"

theorem requests_stay_on_target_witness:
  "target_host ''http://a.com/x'' = Some ''a.com'' \<and> permitted [''a.com''] ''a.com''"
proof -
  have "Check [''a.com''] (hc_BaseURL (demo_cfg ''http://a.com'')) = None"
    by (simp add: demo_cfg_def Check_def matchHost_def trim_space_def is_space_def url_eval)
  moreover have "trim_space (hc_BaseURL (demo_cfg ''http://a.com'')) = hc_BaseURL (demo_cfg ''http://a.com'')"
    by (simp add: demo_cfg_def trim_space_def is_space_def byte_def)
  moreover have "rq_Path (get_path ''/x'') = CHR ''/'' # ''x''" by (simp add: get_path_def)
  moreover have t: "target_host (hr_URL (build_request [] [] (demo_cfg ''http://a.com'') (get_path ''/x''))) = Some ''a.com''"
    by (simp add: build_request_def demo_cfg_def get_path_def target_host_def url_eval)
  ultimately have "permitted [''a.com''] ''a.com''" using requests_stay_on_target by blast
  with t show ?thesis by (simp add: build_request_def demo_cfg_def get_path_def)
qed

text \<open>Host names of lower case letters, digits, dots and hyphens.\<close>

definition plain_char :: "char \<Rightarrow> bool" where
  "plain_char c \<longleftrightarrow> 97 \<le> byte c \<and> byte c \<le> 122 \<or> is_digit c \<or> byte c = 45 \<or> byte c = 46"

definition plain_host :: "string \<Rightarrow> bool" where
  "plain_host h \<longleftrightarrow> h \<noteq> [] \<and> list_all plain_char h"

lemma byte_eq: "c = d \<longleftrightarrow> byte c = byte d"
  by (simp add: byte_def)

lemma plain_not_special:
  "c \<in> {CHR ''@'', CHR '':'', CHR ''/'', CHR ''?'', CHR ''#'', CHR ''%'', CHR ''['', CHR '']''} \<Longrightarrow> \<not> plain_char c"
  by (elim insertE) (simp_all add: plain_char_def is_digit_def byte_def)

lemma plain_cases: "plain_char c \<longleftrightarrow> 97 \<le> byte c \<and> byte c \<le> 122 \<or> is_digit c \<or> c = CHR ''-'' \<or> c = CHR ''.''"
  unfolding plain_char_def byte_eq [of c "CHR ''-''"] byte_eq [of c "CHR ''.''"] by (simp add: byte_def)

lemma plain_char_facts:
  assumes "plain_char c"
  shows "host_char c" "lower_char c = c" "32 \<le> byte c" "byte c \<noteq> 127" "\<not> is_space c"
    "is_alpha c \<or> is_digit c \<or> c \<in> set ''-._:~!$&()*+,;=%@'' \<or> byte c = 39"
proof -
  show "host_char c" using assms by (auto simp: plain_cases host_char_def is_alpha_def)
  show "is_alpha c \<or> is_digit c \<or> c \<in> set ''-._:~!$&()*+,;=%@'' \<or> byte c = 39" using assms by (auto simp: plain_cases is_alpha_def)
qed (use assms in \<open>auto simp: plain_char_def is_digit_def lower_char_def is_space_def\<close>)

lemma plain_host_facts:
  assumes "plain_host h"
  shows "c \<in> {CHR ''@'', CHR '':'', CHR ''/'', CHR ''?'', CHR ''#'', CHR ''%'', CHR ''['', CHR '']''} \<Longrightarrow> c \<notin> set h"
    "to_lower h = h" "\<not> has_control h" "validUserinfo h" "trim_space h = h" "\<not> has_prefix h ''[''"
proof -
  have p: "\<forall>c \<in> set h. plain_char c" and ne: "h \<noteq> []" using assms by (auto simp: plain_host_def list_all_iff)
  show "c \<in> {CHR ''@'', CHR '':'', CHR ''/'', CHR ''?'', CHR ''#'', CHR ''%'', CHR ''['', CHR '']''} \<Longrightarrow> c \<notin> set h"
    using p plain_not_special by blast
  show "to_lower h = h" using p plain_char_facts(2) by (auto simp: to_lower_def map_idI)
  show "\<not> has_control h" using p plain_char_facts(3,4) by (fastforce simp: has_control_def)
  show "validUserinfo h" using p plain_char_facts(6) by (auto simp: validUserinfo_def list_all_iff)
  have "\<not> is_space (hd h)" "\<not> is_space (hd (rev h))" using p ne plain_char_facts(5) by (auto simp: hd_rev)
  then have "dropWhile is_space h = h" "dropWhile is_space (rev h) = rev h" by (simp_all add: dropWhile_eq_self_iff)
  then show "trim_space h = h" by (simp add: trim_space_def)
  show "\<not> has_prefix h ''[''" using p ne plain_not_special [of "hd h"] by (cases h) (auto simp: has_prefix_def)
qed

lemma escapes_ok_id: "CHR ''%'' \<notin> set s \<Longrightarrow> escapes_ok s"
  by (induction s) auto

lemma unescape_host_id: "list_all host_char s \<Longrightarrow> CHR ''%'' \<notin> set s \<Longrightarrow> unescape_host z s = Inr s"
  by (induction s) auto

lemma parseHost_plain: "plain_host h \<Longrightarrow> parseHost h = Inr h"
proof -
  assume p: "plain_host h"
  have "list_all host_char h" using p plain_char_facts(1) by (auto simp: plain_host_def list_all_iff)
  then show ?thesis using plain_host_facts(1,6) [OF p] by (simp add: parseHost_def unescape_host_id)
qed

lemma after_id: "c \<notin> set s \<Longrightarrow> after c s = []"
  by (induction s) (auto simp: after_def)

lemma after_last_alt: "after_last c s = rev (before c (rev s))"
  by (simp add: after_last_def before_def)

lemma after_last_at: "c \<notin> set e \<Longrightarrow> after_last c (h @ c # e) = e" and before_last_at: "c \<notin> set e \<Longrightarrow> before_last c (h @ c # e) = h"
proof -
  show "c \<notin> set e \<Longrightarrow> after_last c (h @ c # e) = e"
    by (simp add: after_last_alt before_stop before_id)
  then show "c \<notin> set e \<Longrightarrow> before_last c (h @ c # e) = h" by (simp add: before_last_def)
qed

lemma Hostname_plain: "plain_host h \<Longrightarrow> Hostname \<lparr>url_Scheme = sch, url_Host = h\<rparr> = h"
  using plain_host_facts(1,6) [of h] by (auto simp: Hostname_def)

text \<open>A URL with such an authority, and nothing after it but possibly a slash.\<close>

lemma url_Parse_http:
  assumes "\<forall>c \<in> {CHR ''/'', CHR ''?'', CHR ''#''}. c \<notin> set a" and "\<not> has_control a" and "parseAuthority a = Inr h" and "t = [] \<or> t = ''/''"
  shows "url_Parse (''http://'' @ a @ t) = Inr \<lparr>url_Scheme = ''http'', url_Host = h\<rparr>"
proof -
  have hash: "CHR ''#'' \<notin> set (''http://'' @ a @ t)" and q: "CHR ''?'' \<notin> set (''//'' @ a @ t)" using assms by auto
  have g: "getScheme (''http://'' @ a @ t) = Inr (''http'', ''//'' @ a @ t)"
    by (simp add: getScheme_def is_alpha_def is_digit_def byte_def)
  have s: "before (CHR ''/'') (a @ t) = a" using assms before_stop [of "CHR ''/''" a "[]"] by (auto simp: before_id)
  have "\<not> has_control (''http://'' @ a @ t)" using assms(2,4) by (auto simp: has_control_def byte_def)
  moreover have "after (CHR ''#'') (''http://'' @ a @ t) = []"
    by (rule after_id [OF hash])
  moreover have "escapes_ok t" using assms(4) by auto
  ultimately show ?thesis
    unfolding url_Parse_def Let_def before_id [OF hash] g bind_url_def sum.case prod.case before_id [OF q]
    using s assms(3) by (simp add: has_prefix_def to_lower_def lower_char_def byte_def bind_url_def)
qed

text \<open>A plain host is permitted by the pattern that names it.\<close>

lemma plain_host_checked:
  assumes "plain_host h" and "hc_BaseURL cfg = ''http://'' @ h"
  shows "Check [h] (hc_BaseURL cfg) = None"
proof -
  note fh = plain_host_facts [OF assms(1)]
  have "parseAuthority h = Inr h" using fh(1) by (simp add: parseAuthority_def parseHost_plain [OF assms(1)])
  then have "url_Parse (''http://'' @ h @ []) = Inr \<lparr>url_Scheme = ''http'', url_Host = h\<rparr>"
    by (intro url_Parse_http) (use fh in auto)
  moreover have "trim_space (''http://'' @ h) = ''http://'' @ h"
  proof -
    have "h \<noteq> []" "list_all plain_char h" using assms(1) by (simp_all add: plain_host_def)
    then have "\<not> is_space (hd (rev (''http://'' @ h)))" using plain_char_facts(5) [of "last h"] by (simp add: hd_rev list_all_iff hd_append)
    moreover have "\<not> is_space (hd (''http://'' @ h))" by (simp add: is_space_def byte_def)
    ultimately have "dropWhile is_space (''http://'' @ h) = ''http://'' @ h" "dropWhile is_space (rev (''http://'' @ h)) = rev (''http://'' @ h)"
      by (simp_all only: dropWhile_eq_self_iff simp_thms)
    then show ?thesis unfolding trim_space_def by (simp only: rev_rev_ident)
  qed
  ultimately show ?thesis
    using assms(1) Hostname_plain [OF assms(1), of "''http''"] fh(2)
    by (simp add: Check_None_iff assms(2) permitted_def matchHost_def plain_host_def)
qed

text \<open>C24: a path is only checked not to be empty, so a plan can leave the host it was checked for: with a
  base URL of a permitted host and a path that starts with an at sign, the permitted host becomes the
  user name and the request goes to any other host.\<close>

theorem path_escapes_allowlist:
  assumes "plain_host h" and "plain_host e" and "hc_BaseURL cfg = ''http://'' @ h" and "rq_Path req = ''@'' @ e @ ''/''"
  shows "Check [h] (hc_BaseURL cfg) = None \<and> target_host (hr_URL (build_request o1 o2 cfg req)) = Some e"
proof
  note fh = plain_host_facts [OF assms(1)] and fe = plain_host_facts [OF assms(2)]
  show "Check [h] (hc_BaseURL cfg) = None" using assms(1,3) by (rule plain_host_checked)
  have "parseAuthority (h @ ''@'' @ e) = Inr e"
    using fh fe by (simp add: parseAuthority_def after_last_at before_last_at parseHost_plain [OF assms(2)] bind_url_def
        escapes_ok_id before_id after_id)
  then have "url_Parse (''http://'' @ (h @ ''@'' @ e) @ ''/'') = Inr \<lparr>url_Scheme = ''http'', url_Host = e\<rparr>"
    by (intro url_Parse_http) (use fh fe in \<open>auto simp: has_control_def byte_def\<close>)
  then show "target_host (hr_URL (build_request o1 o2 cfg req)) = Some e"
    using Hostname_plain [OF assms(2), of "''http''"] fe(2) by (simp add: build_request_def assms(3,4) target_host_def)
qed

theorem path_escapes_allowlist_witness:
  "Check [''a.com''] ''http://a.com'' = None \<and> target_host ''http://a.com@evil.com/'' = Some ''evil.com''"
proof -
  have p: "plain_host ''a.com'' \<and> plain_host ''evil.com''" by (simp add: plain_host_def plain_char_def is_digit_def byte_def)
  have b: "hc_BaseURL (demo_cfg ''http://a.com'') = ''http://'' @ ''a.com''" "rq_Path (get_path ''@evil.com/'') = ''@'' @ ''evil.com'' @ ''/''"
    by (simp_all add: demo_cfg_def get_path_def)
  from path_escapes_allowlist [OF _ _ b, of "[]" "[]"] p show ?thesis by (simp add: build_request_def demo_cfg_def get_path_def)
qed

text \<open>With wildcard patterns only, an accepted host has a dot and the pattern's domain at its end:
  neither the domain itself nor a name that merely ends with the same letters passes.\<close>

theorem wildcards_only_match_subdomains:
  assumes "Check (map (\<lambda>d. ''*.'' @ d) ds) b = None" and "ds \<noteq> []"
  shows "\<exists>d \<in> set ds. \<exists>l. target_host (trim_space b) = Some (l @ ''.'' @ d)"
proof -
  obtain u where u: "url_Parse (trim_space b) = Inr u" and p: "permitted (map (\<lambda>d. ''*.'' @ d) ds) (to_lower (Hostname u))"
    using assms(1) by (auto simp: Check_None_iff)
  have m: "matchHost (''*.'' @ d) h \<Longrightarrow> \<exists>l. h = l @ ''.'' @ d" for d h
    by (auto simp: matchHost_def cut_prefix_def has_prefix_def has_suffix_iff split: if_splits intro: exI [of _ "''*''"])
  from p assms(2) m u show ?thesis by (auto simp: permitted_def target_host_def) blast
qed

theorem wildcards_only_match_subdomains_witness:
  "\<exists>l. target_host ''http://x.a.com'' = Some (l @ ''.'' @ ''a.com'')"
proof -
  have t: "trim_space ''http://x.a.com'' = ''http://x.a.com''" by (simp add: trim_space_def is_space_def byte_def)
  have "Check (map (\<lambda>d. ''*.'' @ d) [''a.com'']) ''http://x.a.com'' = None"
    by (simp add: Check_def t) (simp add: matchHost_def cut_prefix_def url_eval)
  from wildcards_only_match_subdomains [OF this] show ?thesis by (simp add: t)
qed

section \<open>The block list\<close>

lemma ip6_numeral: "ip6_groups 8 = ip6_groups (Suc 7)" "ip6_groups 7 = ip6_groups (Suc 6)"
  by (simp_all add: eval_nat_numeral)

lemma mapped_groups: "ip6_groups 8 ''ffff:169.254.169.254'' [] (Some 0) = Some ([255, 255, 169, 254, 169, 254], Some 0, [])"
proof -
  have "ip6_groups 8 ''ffff:169.254.169.254'' [] (Some 0) = ip6_groups 7 ''169.254.169.254'' [255, 255] (Some 0)"
    unfolding ip6_numeral(1) ip6_groups.simps(2) by (simp add: has_prefix_def hex_val_def is_digit_def byte_def)
  also have "\<dots> = Some ([255, 255, 169, 254, 169, 254], Some 0, [])"
    unfolding ip6_numeral(2) ip6_groups.simps(2)
    by (simp add: parse_ip4_def octet_def digits_val_def digit_val_def has_prefix_def hex_val_def is_digit_def byte_def)
  finally show ?thesis .
qed

lemma mapped_ip: "ParseIP ''::ffff:169.254.169.254'' = ParseIP ''169.254.169.254''"
proof -
  have "ParseIP ''::ffff:169.254.169.254'' = Some (replicate 10 0 @ [255, 255, 169, 254, 169, 254])"
    by (simp add: ParseIP_def parse_ip6_def ip6_finish_def has_prefix_def mapped_groups)
  moreover have "ParseIP ''169.254.169.254'' = Some (replicate 10 0 @ [255, 255, 169, 254, 169, 254])"
    by (simp add: ParseIP_def parse_ip4_def octet_def digits_val_def digit_val_def url_eval)
  ultimately show ?thesis by simp
qed

text \<open>The block list compares text: without patterns the metadata address is refused, and the same
  address written as an IPv4-mapped IPv6 address is permitted.\<close>

theorem metadata_block_bypassed:
  "Check [] ''http://169.254.169.254/'' = Some (BlockedHost ''169.254.169.254'' ''cloud instance metadata'')
   \<and> Check [] ''http://[::ffff:169.254.169.254]/'' = None
   \<and> target_host ''http://[::ffff:169.254.169.254]/'' = Some ''::ffff:169.254.169.254''
   \<and> ParseIP ''::ffff:169.254.169.254'' = ParseIP ''169.254.169.254''"
proof -
  have t: "trim_space ''http://169.254.169.254/'' = ''http://169.254.169.254/''"
    "trim_space ''http://[::ffff:169.254.169.254]/'' = ''http://[::ffff:169.254.169.254]/''"
    by (simp_all add: trim_space_def is_space_def byte_def)
  have p: "url_Parse ''http://169.254.169.254/'' = Inr \<lparr>url_Scheme = ''http'', url_Host = ''169.254.169.254''\<rparr>"
    "url_Parse ''http://[::ffff:169.254.169.254]/'' = Inr \<lparr>url_Scheme = ''http'', url_Host = ''[::ffff:169.254.169.254]''\<rparr>"
    by (simp_all add: url_eval)
  have h: "to_lower (Hostname \<lparr>url_Scheme = ''http'', url_Host = ''169.254.169.254''\<rparr>) = ''169.254.169.254''"
    "to_lower (Hostname \<lparr>url_Scheme = ''http'', url_Host = ''[::ffff:169.254.169.254]''\<rparr>) = ''::ffff:169.254.169.254''"
    by (simp_all add: url_eval)
  show ?thesis by (simp add: Check_def t p h target_host_def mapped_ip blockedHosts_def Unrestricted_def)
qed

text \<open>A zero-padded pattern does not match the canonical address: \<open>ParseIP\<close> refuses leading zeros.\<close>

lemma zero_padded_pattern_unmatched: "\<not> matchHost ''010.0.0.1'' ''10.0.0.1''"
proof -
  have "ParseIP ''010.0.0.1'' = None"
    by (simp add: ParseIP_def parse_ip4_def octet_def digits_val_def digit_val_def url_eval)
  then show ?thesis by (simp add: matchHost_def cut_prefix_def has_prefix_def)
qed

section \<open>Checked once, substituted twice\<close>

definition two_faced :: yaml_test_plan where
  "two_faced = \<lparr>yp_Name = ''x'',
     yp_Stages = [\<lparr>ys_Duration = ''30s'', ys_TargetVUs = 5, ys_RampUp = ''''\<rparr>],
     yp_HTTP = \<lparr>yh_BaseURL = ''http://${a}${b}'',
       yh_Requests = [\<lparr>yr_Method = ''GET'', yr_Path = ''/'', yr_Headers = [], yr_Body = '''', yr_Assertions = [], yr_ThinkTime = ''''\<rparr>],
       yh_Headers = [], yh_Timeout = ''''\<rparr>,
     yp_Variables = [(''a'', ''ok.com/''), (''a}${b'', ''evil.com'')]\<rparr>"

definition two_faced_scenario :: "string \<Rightarrow> scenario" where
  "two_faced_scenario b = \<lparr>sc_Name = ''x'',
     sc_Stages = [\<lparr>st_Duration = 30000000000, st_TargetVUs = 5, st_RampUp = 0\<rparr>],
     sc_HTTP = \<lparr>hc_BaseURL = b,
       hc_Requests = [\<lparr>rq_Method = ''GET'', rq_Path = ''/'', rq_Headers = [], rq_Body = '''', rq_Assertions = [], rq_ThinkTime = 0\<rparr>],
       hc_Headers = [], hc_Timeout = 30000000000\<rparr>,
     sc_Vars = [(''a'', ''ok.com/''), (''a}${b'', ''evil.com'')]\<rparr>"

lemma two_faced_FromSpec:
  "FromSpec [] (\<lambda>_. [''a'', ''a}${b'']) two_faced = Inr (two_faced_scenario ''http://ok.com/${b}'')"
  "FromSpec [] (\<lambda>_. [''a}${b'', ''a'']) two_faced = Inr (two_faced_scenario ''http://evil.com'')"
proof -
  let ?vars = "[(''a'', ''ok.com/''), (''a}${b'', ''evil.com'')]"
  have "substituteVars [] [''a'', ''a}${b''] ''http://${a}${b}'' ?vars = ''http://ok.com/${b}''"
    "substituteVars [] [''a}${b'', ''a''] ''http://${a}${b}'' ?vars = ''http://evil.com''"
    "substituteVars [] [''a'', ''a}${b''] ''/'' ?vars = ''/''" "substituteVars [] [''a}${b'', ''a''] ''/'' ?vars = ''/''"
    by (simp_all add: substituteVars_def replace_all.simps placeholder_def has_prefix_def)
  moreover have "to_upper ''GET'' = ''GET''" by (simp add: to_upper_def upper_char_def byte_def)
  ultimately show "FromSpec [] (\<lambda>_. [''a'', ''a}${b'']) two_faced = Inr (two_faced_scenario ''http://ok.com/${b}'')"
    "FromSpec [] (\<lambda>_. [''a}${b'', ''a'']) two_faced = Inr (two_faced_scenario ''http://evil.com'')"
    by (simp_all add: FromSpec_def two_faced_def two_faced_scenario_def ParseDuration_def demo_durations ParseRequest_def Let_def
        Validate_def second_def)
qed

text \<open>The base URL is checked when the run is submitted and built again, with another map order, when
  it is dispatched: for one plan, with the same variables and an empty environment, the submission can
  see a permitted host and the dispatch another one that the check would have refused.\<close>

theorem check_and_dispatch_differ:
  "\<exists>y ord ord' s s'. range_order ord (yp_Variables y) \<and> range_order ord' (yp_Variables y)
     \<and> FromSpec [] (\<lambda>_. ord) y = Inr s \<and> FromSpec [] (\<lambda>_. ord') y = Inr s'
     \<and> Check [''ok.com''] (hc_BaseURL (sc_HTTP s)) = None \<and> Check [''ok.com''] (hc_BaseURL (sc_HTTP s')) = Some (NotAllowed ''evil.com'')"
proof -
  have "range_order [''a'', ''a}${b''] (yp_Variables two_faced)" "range_order [''a}${b'', ''a''] (yp_Variables two_faced)"
    by (auto simp: range_order_def two_faced_def)
  moreover have "Check [''ok.com''] ''http://ok.com/${b}'' = None" "Check [''ok.com''] ''http://evil.com'' = Some (NotAllowed ''evil.com'')"
  proof -
    have t: "trim_space ''http://ok.com/${b}'' = ''http://ok.com/${b}''" "trim_space ''http://evil.com'' = ''http://evil.com''"
      by (simp_all add: trim_space_def is_space_def byte_def)
    have p: "url_Parse ''http://ok.com/${b}'' = Inr \<lparr>url_Scheme = ''http'', url_Host = ''ok.com''\<rparr>"
      "url_Parse ''http://evil.com'' = Inr \<lparr>url_Scheme = ''http'', url_Host = ''evil.com''\<rparr>"
      by (simp_all add: url_eval)
    have h: "to_lower (Hostname \<lparr>url_Scheme = ''http'', url_Host = ''ok.com''\<rparr>) = ''ok.com''"
      "to_lower (Hostname \<lparr>url_Scheme = ''http'', url_Host = ''evil.com''\<rparr>) = ''evil.com''"
      by (simp_all add: url_eval)
    have "\<not> matchHost ''ok.com'' ''evil.com''"
      by (simp add: matchHost_def cut_prefix_def has_prefix_def ParseIP_def parse_ip4_def octet_def is_digit_def byte_def)
    then show "Check [''ok.com''] ''http://ok.com/${b}'' = None" "Check [''ok.com''] ''http://evil.com'' = Some (NotAllowed ''evil.com'')"
      by (simp_all add: Check_def t p h blockedHosts_def Unrestricted_def) (simp add: matchHost_def)
  qed
  ultimately show ?thesis
    using two_faced_FromSpec
    by (intro exI [of _ two_faced] exI [of _ "[''a'', ''a}${b'']"] exI [of _ "[''a}${b'', ''a'']"]
        exI [of _ "two_faced_scenario ''http://ok.com/${b}''"] exI [of _ "two_faced_scenario ''http://evil.com''"] conjI)
      (simp_all only: two_faced_scenario_def scenario.select_convs http_config.select_convs)
qed

end
