(* ===== verification/Go_Base64.thy ===== *)
theory Go_Base64
  imports Go_Strings
begin

text \<open>
  The unpadded encodings of Go's \<open>encoding/base64\<close> (\<open>RawStdEncoding\<close>, \<open>RawURLEncoding\<close>) and
  \<open>encoding/hex\<close> on lists of bytes. The decoder skips line breaks and ignores the unused bits of
  the last symbol, as Go's does when it is not strict.
\<close>

definition std_alphabet :: string where
  "std_alphabet = ''ABCDEFGHIJKLMNOPQRSTUVWXYZabcdefghijklmnopqrstuvwxyz0123456789+/''"

definition url_alphabet :: string where
  "url_alphabet = ''ABCDEFGHIJKLMNOPQRSTUVWXYZabcdefghijklmnopqrstuvwxyz0123456789-_''"

fun sextets :: "nat list \<Rightarrow> nat list" where
  "sextets [] = []"
| "sextets [a] = [a div 4, a mod 4 * 16]"
| "sextets [a, b] = [a div 4, a mod 4 * 16 + b div 16, b mod 16 * 4]"
| "sextets (a # b # c # bs) =
     [a div 4, a mod 4 * 16 + b div 16, b mod 16 * 4 + c div 64, c mod 64] @ sextets bs"

definition base64_encode :: "string \<Rightarrow> nat list \<Rightarrow> string" where
  "base64_encode alphabet bs = map (\<lambda>x. alphabet ! x) (sextets bs)"

fun index_of :: "char \<Rightarrow> string \<Rightarrow> nat option" where
  "index_of c [] = None"
| "index_of c (d # ds) = (if c = d then Some 0 else map_option Suc (index_of c ds))"

fun symbols :: "string \<Rightarrow> string \<Rightarrow> nat list option" where
  "symbols alphabet [] = Some []"
| "symbols alphabet (c # cs) =
     (if byte c = 10 \<or> byte c = 13 then symbols alphabet cs
      else (case index_of c alphabet of None \<Rightarrow> None
            | Some x \<Rightarrow> map_option (\<lambda>xs. x # xs) (symbols alphabet cs)))"

fun unsextets :: "nat list \<Rightarrow> nat list option" where
  "unsextets [] = Some []"
| "unsextets [w] = None"
| "unsextets [w, x] = Some [w * 4 + x div 16]"
| "unsextets [w, x, y] = Some [w * 4 + x div 16, x mod 16 * 16 + y div 4]"
| "unsextets (w # x # y # z # ss) =
     map_option (\<lambda>bs. [w * 4 + x div 16, x mod 16 * 16 + y div 4, y mod 4 * 64 + z] @ bs) (unsextets ss)"

definition base64_decode :: "string \<Rightarrow> string \<Rightarrow> nat list option" where
  "base64_decode alphabet s = Option.bind (symbols alphabet s) unsextets"

text \<open>\<open>hex.EncodeToString\<close>.\<close>

definition hex_digit :: "nat \<Rightarrow> char" where
  "hex_digit n = ''0123456789abcdef'' ! n"

definition hex_encode :: "nat list \<Rightarrow> string" where
  "hex_encode bs = concat (map (\<lambda>b. [hex_digit (b div 16), hex_digit (b mod 16)]) bs)"

section \<open>Round trip\<close>

definition bytes_ok :: "nat list \<Rightarrow> bool" where
  "bytes_ok bs \<longleftrightarrow> (\<forall>b \<in> set bs. b < 256)"

lemma sextets_bound: "bytes_ok bs \<Longrightarrow> \<forall>x \<in> set (sextets bs). x < 64"
  by (induction bs rule: sextets.induct) (auto simp: bytes_ok_def)

lemma unsextets_sextets: "bytes_ok bs \<Longrightarrow> unsextets (sextets bs) = Some bs"
proof (induction bs rule: sextets.induct)
  case (4 a b c bs)
  then have "b div 16 < 16" "c div 64 < 4" by (auto simp: bytes_ok_def)
  then have "a div 4 * 4 + (a mod 4 * 16 + b div 16) div 16 = a"
    "(a mod 4 * 16 + b div 16) mod 16 * 16 + (b mod 16 * 4 + c div 64) div 4 = b"
    "(b mod 16 * 4 + c div 64) mod 4 * 64 + c mod 64 = c" by simp_all
  with 4 show ?case by (simp add: bytes_ok_def)
next
  case (3 a b)
  then have "b div 16 < 16" by (auto simp: bytes_ok_def)
  then show ?case by simp
qed (simp_all add: bytes_ok_def)

lemma index_of_nth: "distinct xs \<Longrightarrow> i < length xs \<Longrightarrow> index_of (xs ! i) xs = Some i"
  by (induction xs arbitrary: i) (auto simp: nth_Cons split: nat.splits)

lemma symbols_map:
  assumes "distinct alphabet" and "\<forall>x \<in> set xs. x < length alphabet" and "\<forall>c \<in> set alphabet. byte c \<noteq> 10 \<and> byte c \<noteq> 13"
  shows "symbols alphabet (map (\<lambda>x. alphabet ! x) xs) = Some xs"
  using assms by (induction xs) (auto simp: index_of_nth)

lemma std_alphabet_ok: "distinct std_alphabet" "length std_alphabet = 64" "\<forall>c \<in> set std_alphabet. byte c \<noteq> 10 \<and> byte c \<noteq> 13"
  by (simp_all add: std_alphabet_def byte_def)

lemma base64_round_trip: "bytes_ok bs \<Longrightarrow> base64_decode std_alphabet (base64_encode std_alphabet bs) = Some bs"
  by (simp add: base64_decode_def base64_encode_def symbols_map std_alphabet_ok sextets_bound unsextets_sextets)

lemma base64_chars: "bytes_ok bs \<Longrightarrow> set (base64_encode std_alphabet bs) \<subseteq> set std_alphabet"
  using sextets_bound [of bs] std_alphabet_ok(2) by (auto simp: base64_encode_def intro!: nth_mem)

end
