(* ===== verification/Api_Http.thy ===== *)
theory Api_Http
  imports Recorder Go_Base64 Go_Sha256 Worker_Metrics Allowlist
begin

text \<open>
  What the handlers of \<open>internal/api\<close> have in common: replies, the session cookie, numbers in paths
  and queries. A handler's inputs are the parts of the request it reads; a body that is not the JSON it
  expects is \<open>Inl\<close> with the decoder's message. Replies keep the status code, the payload before
  it is encoded, and the cookie that is set. A refused plan or target is kept as the error, not as
  its text.
\<close>

section \<open>Replies\<close>

record cookie =
  ck_Value :: string
  ck_Secure :: bool
  ck_MaxAge :: int

datatype payload =
    NoPayload
  | ErrorText string
  | MessageText string
  | LoggedIn string
  | AuthState bool "string option"
  | OneUser user
  | AllUsers "user list"
  | AllRuns "run_row list"
  | Series "sample list"
  | OnePlan plan_row
  | AllPlans "plan_row list"
  | Started string string nat
  | Status run_status_out
  | Fleet "worker_info list" int32
  | Health string string string
  | PlanRefused plan_error
  | TargetRefused target_error
  | EventStream
  | Page string

record reply =
  rp_code :: nat
  rp_payload :: payload
  rp_cookie :: "cookie option"

definition writeJSON :: "nat \<Rightarrow> payload \<Rightarrow> reply" where
  "writeJSON code body = \<lparr>rp_code = code, rp_payload = body, rp_cookie = None\<rparr>"

definition writeError :: "nat \<Rightarrow> string \<Rightarrow> reply" where
  "writeError code msg = writeJSON code (ErrorText msg)"

text \<open>\<open>err.Error()\<close> of a store error.\<close>

fun store_error_text :: "store_error \<Rightarrow> string" where
  "store_error_text ErrNotFound = ''not found''"
| "store_error_text (SqlError e) = e"

text \<open>The JSON form of a user has no password hash.\<close>

definition user_json :: "user \<Rightarrow> user" where
  "user_json u = u\<lparr>us_PasswordHash := ''''\<rparr>"

section \<open>Numbers\<close>

text \<open>\<open>strconv.ParseInt(s, 10, 64)\<close> and \<open>strconv.Atoi\<close>, errors as \<open>None\<close>.\<close>

definition parse_int64 :: "string \<Rightarrow> int option" where
  "parse_int64 s =
     (let neg = has_prefix s ''-'';
          ds = (if neg \<or> has_prefix s ''+'' then drop 1 s else s);
          n = (if neg then - int (digits_val ds) else int (digits_val ds))
      in if ds \<noteq> [] \<and> list_all is_digit ds \<and> in64 n then Some n else None)"

text \<open>\<open>raw\<close> is the value of the query's key, empty when there is none.\<close>

definition intParam :: "string \<Rightarrow> int \<Rightarrow> int" where
  "intParam raw fallback =
     (if raw \<noteq> '''' then (case parse_int64 raw of Some n \<Rightarrow> n | None \<Rightarrow> fallback) else fallback)"

lemma parse_int64_string: "in64 n \<Longrightarrow> parse_int64 (int_string n) = Some n"
proof -
  assume n: "in64 n"
  have d: "list_all is_digit (nat_string k)" for k using nat_string_digits [of k] by (simp add: list_all_iff)
  have h: "is_digit (hd (nat_string k))" for k using nat_string_digits [of k] by simp
  have "\<not> is_digit (CHR ''-'')" "\<not> is_digit (CHR ''+'')" by (simp_all add: is_digit_def byte_def)
  then have "hd (nat_string k) \<noteq> CHR ''-''" "hd (nat_string k) \<noteq> CHR ''+''" for k using h [of k] by auto
  then have m: "\<not> has_prefix (nat_string k) ''-''" and p: "\<not> has_prefix (nat_string k) ''+''" for k
    unfolding has_prefix_iff by (metis append_Cons list.sel(1))+
  show ?thesis
  proof (cases "n < 0")
    case True
    then show ?thesis using n d by (simp add: parse_int64_def int_string_def Let_def) (simp add: has_prefix_def)
  next
    case False
    then show ?thesis using n d m p by (simp add: parse_int64_def int_string_def Let_def)
  qed
qed

end
