(* ===== verification/Auth.thy ===== *)
theory Auth
  imports Api_Http
begin

text \<open>
  Authentication and accounts: \<open>internal/api/auth.go\<close>, \<open>internal/api/users.go\<close> and \<open>addUser\<close> of
  \<open>cmd/api/main.go\<close>. Parameters: \<open>idkey\<close> is \<open>argon2.IDKey\<close> on password, salt, time, memory,
  threads and length; random bytes, the clock and the store's faults are arguments. A handler that
  panics is \<open>None\<close>; \<open>argon2.IDKey\<close> panics when time or threads are zero.
\<close>

type_synonym idkey = "string \<Rightarrow> nat list \<Rightarrow> nat \<Rightarrow> nat \<Rightarrow> nat \<Rightarrow> nat \<Rightarrow> nat list"

record auth_config =
  au_Enabled :: bool
  au_SessionTTL :: duration
  au_SecureCookies :: bool

section \<open>Passwords and tokens\<close>

definition argonTime :: nat where "argonTime = 3"
definition argonMemory :: nat where "argonMemory = 64 * 1024"
definition argonThreads :: nat where "argonThreads = 4"
definition argonKeyLen :: nat where "argonKeyLen = 32"

definition encoded_hash :: "nat list \<Rightarrow> nat list \<Rightarrow> string" where
  "encoded_hash salt key =
     ''$argon2id$v=19$m='' @ nat_string argonMemory @ '',t='' @ nat_string argonTime @ '',p='' @ nat_string argonThreads @ ''$''
     @ base64_encode std_alphabet salt @ ''$'' @ base64_encode std_alphabet key"

definition HashPassword :: "idkey \<Rightarrow> string + nat list \<Rightarrow> string \<Rightarrow> string + string" where
  "HashPassword idkey rand password =
     (case rand of
        Inl e \<Rightarrow> Inl e
      | Inr salt \<Rightarrow> Inr (encoded_hash salt (idkey password salt argonTime argonMemory argonThreads argonKeyLen)))"

text \<open>\<open>fmt.Sscanf\<close> with \<open>%d\<close> into an unsigned integer of some width, and with literal text.\<close>

definition scan_uint :: "nat \<Rightarrow> string \<Rightarrow> (nat \<times> string) option" where
  "scan_uint w s =
     (let s' = dropWhile (\<lambda>c. is_space c \<and> byte c \<noteq> 10) s; ds = takeWhile is_digit s'
      in if ds = [] \<or> 2 ^ w \<le> digits_val ds then None else Some (digits_val ds, dropWhile is_digit s'))"

definition scan_params :: "string \<Rightarrow> (nat \<times> nat \<times> nat) option" where
  "scan_params s =
     Option.bind (cut_prefix s ''m='') (\<lambda>s1. Option.bind (scan_uint 32 s1) (\<lambda>(m, s2).
     Option.bind (cut_prefix s2 '',t='') (\<lambda>s3. Option.bind (scan_uint 32 s3) (\<lambda>(t, s4).
     Option.bind (cut_prefix s4 '',p='') (\<lambda>s5. Option.bind (scan_uint 8 s5) (\<lambda>(p, s6). Some (m, t, p)))))))"

definition VerifyPassword :: "idkey \<Rightarrow> string \<Rightarrow> string \<Rightarrow> bool option" where
  "VerifyPassword idkey password encoded =
     (let parts = split_on (CHR ''$'') encoded
      in if length parts \<noteq> 6 \<or> parts ! 1 \<noteq> ''argon2id'' then Some False
         else (case scan_params (parts ! 3) of
                 None \<Rightarrow> Some False
               | Some (memory, iterations, threads) \<Rightarrow>
                   (case (base64_decode std_alphabet (parts ! 4), base64_decode std_alphabet (parts ! 5)) of
                      (Some salt, Some want) \<Rightarrow>
                        if iterations < 1 \<or> threads < 1 then None
                        else Some (idkey password salt iterations memory threads (length want) = want)
                    | _ \<Rightarrow> Some False)))"

definition hashToken :: "string \<Rightarrow> string" where
  "hashToken token = hex_encode (sha256 token)"

definition newToken :: "string + nat list \<Rightarrow> string + string" where
  "newToken rand = (case rand of Inl e \<Rightarrow> Inl e | Inr buf \<Rightarrow> Inr (base64_encode url_alphabet buf))"

section \<open>Sessions\<close>

definition sessionCookieValue :: "auth_config \<Rightarrow> string \<Rightarrow> int \<Rightarrow> cookie" where
  "sessionCookieValue a token maxAge = \<lparr>ck_Value = token, ck_Secure = au_SecureCookies a, ck_MaxAge = maxAge\<rparr>"

text \<open>The wrapper of every protected handler. \<open>get\<close> finds the store in the handler's state;
  \<open>ck\<close> is the value of the session cookie, if the request has one.\<close>

definition requireAuth ::
  "auth_config \<Rightarrow> ('s \<Rightarrow> db) \<Rightarrow> fault \<Rightarrow> go_time \<Rightarrow> string option \<Rightarrow> (user option \<Rightarrow> 's \<Rightarrow> reply \<times> 's) \<Rightarrow> 's \<Rightarrow> reply \<times> 's" where
  "requireAuth a get flt now ck handler s =
     (if \<not> au_Enabled a then handler None s
      else (case ck of
              None \<Rightarrow> (writeError 401 ''authentication required'', s)
            | Some c \<Rightarrow>
                if c = '''' then (writeError 401 ''authentication required'', s)
                else (case UserForSession flt (hashToken c) (unix_milli now) (get s) of
                        Inl e \<Rightarrow> ((writeError 401 ''session expired'')\<lparr>rp_cookie := Some (sessionCookieValue a '''' (- 1))\<rparr>, s)
                      | Inr user \<Rightarrow> handler (Some user) s)))"

definition dummy_hash :: string where
  "dummy_hash = ''$argon2id$v=19$m=65536,t=3,p=4$AAAAAAAAAAAAAAAAAAAAAA$AAAAAAAAAAAAAAAAAAAAAAAAAAAAAAAAAAAAAAAAAAA''"

text \<open>\<open>now\<close> is the time of the new session; the body is the user name and the password.\<close>

definition handleLogin ::
  "idkey \<Rightarrow> auth_config \<Rightarrow> fault \<Rightarrow> fault \<Rightarrow> string + nat list \<Rightarrow> go_time \<Rightarrow> string + string \<times> string \<Rightarrow> db \<Rightarrow> (reply \<times> db) option" where
  "handleLogin idkey a flt flt' rand now body d =
     (case body of
        Inl e \<Rightarrow> Some (writeError 400 ''invalid JSON'', d)
      | Inr (username, password) \<Rightarrow>
          (case GetUserByName flt (trim_space username) d of
             Inl e \<Rightarrow> map_option (\<lambda>_. (writeError 401 ''invalid credentials'', d)) (VerifyPassword idkey password dummy_hash)
           | Inr user \<Rightarrow>
               (case VerifyPassword idkey password (us_PasswordHash user) of
                  None \<Rightarrow> None
                | Some False \<Rightarrow> Some (writeError 401 ''invalid credentials'', d)
                | Some True \<Rightarrow>
                    (case newToken rand of
                       Inl e \<Rightarrow> Some (writeError 500 ''could not create session'', d)
                     | Inr token \<Rightarrow>
                         (case CreateSession flt' (hashToken token) (us_ID user) (unix_milli (now + au_SessionTTL a)) d of
                            (Inl e, d') \<Rightarrow> Some (writeError 500 ''could not create session'', d')
                          | (Inr _, d') \<Rightarrow>
                              Some ((writeJSON 200 (LoggedIn (us_Username user)))
                                \<lparr>rp_cookie := Some (sessionCookieValue a token (f64_to_int64 (Seconds (au_SessionTTL a))))\<rparr>, d'))))))"

definition handleLogout :: "auth_config \<Rightarrow> fault \<Rightarrow> string option \<Rightarrow> db \<Rightarrow> reply \<times> db" where
  "handleLogout a flt ck d =
     ((writeJSON 204 NoPayload)\<lparr>rp_cookie := Some (sessionCookieValue a '''' (- 1))\<rparr>,
      case ck of None \<Rightarrow> d | Some c \<Rightarrow> if c = '''' then d else snd (DeleteSession flt (hashToken c) d))"

definition handleMe :: "auth_config \<Rightarrow> fault \<Rightarrow> go_time \<Rightarrow> string option \<Rightarrow> db \<Rightarrow> reply" where
  "handleMe a flt now ck d =
     (if \<not> au_Enabled a then writeJSON 200 (AuthState False None)
      else (case ck of
              None \<Rightarrow> writeJSON 200 (AuthState True None)
            | Some c \<Rightarrow>
                if c = '''' then writeJSON 200 (AuthState True None)
                else (case UserForSession flt (hashToken c) (unix_milli now) d of
                        Inl e \<Rightarrow> writeJSON 200 (AuthState True None)
                      | Inr user \<Rightarrow> writeJSON 200 (AuthState True (Some (us_Username user))))))"

section \<open>Accounts\<close>

datatype account_error = StoreFailed store_error | NoCredentials | HashFailed string | PasswordTooShort | InputFailed string

definition BootstrapUser ::
  "idkey \<Rightarrow> fault \<Rightarrow> fault \<Rightarrow> string + nat list \<Rightarrow> int64 \<Rightarrow> string \<Rightarrow> string \<Rightarrow> db \<Rightarrow> (account_error + bool) \<times> db" where
  "BootstrapUser idkey flt flt' rand now username password d =
     (case CountUsers flt d of
        Inl e \<Rightarrow> (Inl (StoreFailed e), d)
      | Inr n \<Rightarrow>
          if 0 < n then (Inr False, d)
          else if username = '''' \<or> password = '''' then (Inl NoCredentials, d)
          else (case HashPassword idkey rand password of
                  Inl e \<Rightarrow> (Inl (HashFailed e), d)
                | Inr h \<Rightarrow>
                    (case CreateUser flt' now username h d of
                       (Inl e, d') \<Rightarrow> (Inl (StoreFailed e), d')
                     | (Inr _, d') \<Rightarrow> (Inr True, d'))))"

definition minPasswordLength :: nat where "minPasswordLength = 8"

text \<open>\<open>line\<close> is the line read from standard input when the environment has no password.\<close>

definition addUser ::
  "idkey \<Rightarrow> fault \<Rightarrow> string + nat list \<Rightarrow> int64 \<Rightarrow> string \<Rightarrow> string + string \<Rightarrow> string \<Rightarrow> db \<Rightarrow> (account_error + unit) \<times> db" where
  "addUser idkey flt rand now envPassword line username d =
     (case (if envPassword \<noteq> '''' then Inr envPassword
            else (case line of Inl e \<Rightarrow> Inl (InputFailed e) | Inr l \<Rightarrow> Inr (trim_space l))) of
        Inl e \<Rightarrow> (Inl e, d)
      | Inr password \<Rightarrow>
          if length password < 8 then (Inl PasswordTooShort, d)
          else (case HashPassword idkey rand password of
                  Inl e \<Rightarrow> (Inl (HashFailed e), d)
                | Inr h \<Rightarrow>
                    (case CreateUser flt now username h d of
                       (Inl e, d') \<Rightarrow> (Inl (StoreFailed e), d')
                     | (Inr _, d') \<Rightarrow> (Inr (), d'))))"

definition handleListUsers :: "fault \<Rightarrow> db \<Rightarrow> reply" where
  "handleListUsers flt d =
     (case ListUsers flt d of
        Inl e \<Rightarrow> writeError 500 (store_error_text e)
      | Inr us \<Rightarrow> writeJSON 200 (AllUsers (map user_json us)))"

definition handleCreateUser ::
  "idkey \<Rightarrow> fault \<Rightarrow> fault \<Rightarrow> string + nat list \<Rightarrow> int64 \<Rightarrow> string + string \<times> string \<Rightarrow> db \<Rightarrow> reply \<times> db" where
  "handleCreateUser idkey flt flt' rand now body d =
     (case body of
        Inl e \<Rightarrow> (writeError 400 ''invalid JSON'', d)
      | Inr (name, password) \<Rightarrow>
          let username = trim_space name
          in if username = '''' then (writeError 422 ''username is required'', d)
             else if length password < minPasswordLength
             then (writeError 422 (''password must be at least '' @ nat_string minPasswordLength @ '' characters''), d)
             else (case GetUserByName flt username d of
                     Inr _ \<Rightarrow> (writeError 409 ''that username is taken'', d)
                   | Inl _ \<Rightarrow>
                       (case HashPassword idkey rand password of
                          Inl e \<Rightarrow> (writeError 500 ''could not hash password'', d)
                        | Inr h \<Rightarrow>
                            (case CreateUser flt' now username h d of
                               (Inl e, d') \<Rightarrow> (writeError 409 (''could not create user: '' @ store_error_text e), d')
                             | (Inr user, d') \<Rightarrow> (writeJSON 201 (OneUser (user_json user)), d')))))"

text \<open>The checks of \<open>handleDeleteUser\<close> and its write are two steps.\<close>

definition delete_user_check :: "fault \<Rightarrow> user option \<Rightarrow> string \<Rightarrow> db \<Rightarrow> reply + int" where
  "delete_user_check flt current pathID d =
     (case parse_int64 pathID of
        None \<Rightarrow> Inl (writeError 400 ''invalid user id'')
      | Some i \<Rightarrow>
          if (case current of None \<Rightarrow> False | Some u \<Rightarrow> us_ID u = i) then Inl (writeError 409 ''you cannot delete your own account'')
          else if (case CountUsers flt d of Inl _ \<Rightarrow> False | Inr n \<Rightarrow> n \<le> 1)
          then Inl (writeError 409 ''cannot delete the last account: the server will not start without one'')
          else Inr i)"

definition delete_user_write :: "fault \<Rightarrow> int \<Rightarrow> db \<Rightarrow> reply \<times> db" where
  "delete_user_write flt i d =
     (case DeleteUser flt i d of
        (Inl ErrNotFound, d') \<Rightarrow> (writeError 404 ''user not found'', d')
      | (Inl (SqlError e), d') \<Rightarrow> (writeError 500 e, d')
      | (Inr _, d') \<Rightarrow> (writeJSON 204 NoPayload, d'))"

definition handleDeleteUser :: "fault \<Rightarrow> fault \<Rightarrow> user option \<Rightarrow> string \<Rightarrow> db \<Rightarrow> reply \<times> db" where
  "handleDeleteUser flt flt' current pathID d =
     (case delete_user_check flt current pathID d of
        Inl r \<Rightarrow> (r, d)
      | Inr i \<Rightarrow> delete_user_write flt' i d)"

section \<open>Passwords\<close>

lemma base64_no_dollar: "bytes_ok bs \<Longrightarrow> CHR ''$'' \<notin> set (base64_encode std_alphabet bs)"
  using base64_chars [of bs] by (auto simp: std_alphabet_def)

lemma argon_text: "nat_string argonMemory = ''65536''" "nat_string argonTime = ''3''" "nat_string argonThreads = ''4''"
  by (simp_all add: argonMemory_def argonTime_def argonThreads_def nat_string.simps digit_char_def char_of_eq_iff)

lemma split_encoded_hash:
  assumes "bytes_ok salt" and "bytes_ok key"
  shows "split_on (CHR ''$'') (encoded_hash salt key) =
    ['''', ''argon2id'', ''v=19'', ''m=65536,t=3,p=4'', base64_encode std_alphabet salt, base64_encode std_alphabet key]"
  using split_on_append [OF base64_no_dollar [OF assms(1)]] split_on_no [OF base64_no_dollar [OF assms(2)]]
  by (simp add: encoded_hash_def argon_text)

lemma scan_argon: "scan_params ''m=65536,t=3,p=4'' = Some (65536, 3, 4)"
  by (simp add: scan_params_def scan_uint_def cut_prefix_def has_prefix_def is_space_def is_digit_def byte_def digits_val_def digit_val_def Let_def)

lemma verify_hashed:
  assumes "HashPassword idkey (Inr salt) p = Inr h" and "bytes_ok salt"
    and "\<And>q. length (idkey q salt argonTime argonMemory argonThreads argonKeyLen) = argonKeyLen
           \<and> bytes_ok (idkey q salt argonTime argonMemory argonThreads argonKeyLen)"
  shows "VerifyPassword idkey q h = Some (idkey q salt argonTime argonMemory argonThreads argonKeyLen
           = idkey p salt argonTime argonMemory argonThreads argonKeyLen)"
proof -
  let ?key = "idkey p salt argonTime argonMemory argonThreads argonKeyLen"
  have h: "h = encoded_hash salt ?key" using assms(1) by (simp add: HashPassword_def)
  have k: "length ?key = 32" "bytes_ok ?key" using assms(3) [of p] by (auto simp: argonKeyLen_def)
  show ?thesis
    unfolding VerifyPassword_def h split_encoded_hash [OF assms(2) k(2)] Let_def
    by (simp add: scan_argon base64_round_trip [OF assms(2)] base64_round_trip [OF k(2)] k(1))
      (simp add: argonTime_def argonMemory_def argonThreads_def argonKeyLen_def)
qed

text \<open>C17: A stored hash accepts a password exactly when the password's key is the stored key: encoding
  and decoding the hash lose nothing. In particular the right password is accepted.\<close>

theorem password_round_trip:
  assumes "HashPassword idkey (Inr salt) p = Inr h" and "bytes_ok salt"
    and "\<And>q. length (idkey q salt argonTime argonMemory argonThreads argonKeyLen) = argonKeyLen
           \<and> bytes_ok (idkey q salt argonTime argonMemory argonThreads argonKeyLen)"
  shows "VerifyPassword idkey q h = Some (idkey q salt argonTime argonMemory argonThreads argonKeyLen
           = idkey p salt argonTime argonMemory argonThreads argonKeyLen)"
  by (rule verify_hashed [OF assms])

definition toy_idkey :: idkey where
  "toy_idkey p salt t m th n = map (\<lambda>i. length p mod 256) [0..<n]"

theorem password_round_trip_witness:
  "VerifyPassword toy_idkey ''secret!'' (encoded_hash [1, 2, 3] (toy_idkey ''secret12'' [1, 2, 3] argonTime argonMemory argonThreads argonKeyLen)) = Some False"
proof -
  have "VerifyPassword toy_idkey ''secret!'' (encoded_hash [1, 2, 3] (toy_idkey ''secret12'' [1, 2, 3] argonTime argonMemory argonThreads argonKeyLen))
    = Some (toy_idkey ''secret!'' [1, 2, 3] argonTime argonMemory argonThreads argonKeyLen = toy_idkey ''secret12'' [1, 2, 3] argonTime argonMemory argonThreads argonKeyLen)"
    by (rule password_round_trip) (auto simp: HashPassword_def bytes_ok_def toy_idkey_def)
  then show ?thesis by (simp add: toy_idkey_def argonKeyLen_def upt_rec)
qed

section \<open>Signing in and out\<close>

lemma CreateSession_Inr:
  assumes "CreateSession flt tok i t d = (Inr x, d')"
  shows "d' = d\<lparr>db_sessions := db_sessions d @ [\<lparr>ss_TokenHash = tok, ss_UserID = i, ss_ExpiresAt = t\<rparr>]\<rparr>"
    and "\<exists>u \<in> set (db_users d). us_ID u = i"
  using assms by (auto simp: CreateSession_def split: option.splits if_splits)

lemma GetUserByName_in: "GetUserByName flt n d = Inr u \<Longrightarrow> u \<in> set (db_users d)"
  by (auto simp: GetUserByName_def find_Some_iff split: option.splits)

text \<open>What a successful login did.\<close>

lemma handleLogin_200:
  assumes "handleLogin idkey a flt flt' rand now body d = Some (r, d')" and "rp_code r = 200"
  shows "\<exists>u buf. rand = Inr buf \<and> u \<in> set (db_users d) \<and> rp_payload r = LoggedIn (us_Username u)
    \<and> rp_cookie r = Some (sessionCookieValue a (base64_encode url_alphabet buf) (f64_to_int64 (Seconds (au_SessionTTL a))))
    \<and> CreateSession flt' (hashToken (base64_encode url_alphabet buf)) (us_ID u) (unix_milli (now + au_SessionTTL a)) d = (Inr (), d')"
  using assms
  by (auto simp: handleLogin_def writeError_def writeJSON_def newToken_def
      split: sum.splits prod.splits option.splits bool.splits) (use GetUserByName_in in blast)

text \<open>C16: The cookie of a successful login opens the protected handlers, for the user who signed in and
  until it expires; once it has been signed out no protected handler runs for it again, whatever
  other sessions end and at any later time.\<close>

theorem login_until_logout:
  assumes "db_ok d" and "au_Enabled a" and "handleLogin idkey a flt None (Inr buf) now body d = Some (r, d')" and "rp_code r = 200"
    and "buf \<noteq> []"
  shows "\<exists>u c. rp_payload r = LoggedIn (us_Username u) \<and> rp_cookie r = Some c
    \<and> (\<forall>t f. unix_milli t < unix_milli (now + au_SessionTTL a) \<longrightarrow>
        requireAuth a (\<lambda>d. d) None t (Some (ck_Value c)) f d' = f (Some u) d')
    \<and> (\<forall>t t' f d''. sess.ended_later t (snd (handleLogout a None (Some (ck_Value c)) d')) (unix_milli t') d'' \<longrightarrow>
        rp_code (fst (requireAuth a (\<lambda>d. d) None t' (Some (ck_Value c)) f d'')) = 401
        \<and> snd (requireAuth a (\<lambda>d. d) None t' (Some (ck_Value c)) f d'') = d'')"
proof -
  let ?tok = "base64_encode url_alphabet buf"
  obtain u where u: "u \<in> set (db_users d)" "rp_payload r = LoggedIn (us_Username u)"
    and c: "rp_cookie r = Some (sessionCookieValue a ?tok (f64_to_int64 (Seconds (au_SessionTTL a))))"
    and cs: "CreateSession None (hashToken ?tok) (us_ID u) (unix_milli (now + au_SessionTTL a)) d = (Inr (), d')"
    using handleLogin_200 [OF assms(3,4)] by auto
  have ok: "db_ok d'" by (rule db_step_ok [OF db_step.create_session [OF cs] assms(1)])
  note d' = CreateSession_Inr(1) [OF cs]
  have ne: "?tok \<noteq> ''''" using assms(5) by (cases buf rule: sextets.cases) (simp_all add: base64_encode_def)
  have "UserForSession None (hashToken ?tok) (unix_milli t) d' = Inr u" if "unix_milli t < unix_milli (now + au_SessionTTL a)" for t
  proof -
    have "resolve_session (hashToken ?tok) (unix_milli t) d' = Some u"
      unfolding resolve_iff [OF ok] using that u(1) by (auto simp: d')
    then show ?thesis by (auto simp: resolve_session_def split: sum.splits)
  qed
  then have 1: "\<forall>t f. unix_milli t < unix_milli (now + au_SessionTTL a) \<longrightarrow> requireAuth a (\<lambda>d. d) None t (Some ?tok) f d' = f (Some u) d'"
    using assms(2) ne by (simp add: requireAuth_def)
  have 2: "UserForSession None (hashToken ?tok) (unix_milli t') d'' = Inl ErrNotFound"
    if "sess.ended_later t (snd (handleLogout a None (Some ?tok) d')) (unix_milli t') d''" for t t' d''
    using signed_out_stays_out [OF ok] that ne by (simp add: handleLogout_def)
  have "rp_code (fst (requireAuth a (\<lambda>d. d) None t' (Some ?tok) f d'')) = 401 \<and> snd (requireAuth a (\<lambda>d. d) None t' (Some ?tok) f d'') = d''"
    if "sess.ended_later t (snd (handleLogout a None (Some ?tok) d')) (unix_milli t') d''" for t t' f d''
    using 2 [OF that] assms(2) ne by (simp add: requireAuth_def writeError_def writeJSON_def)
  with 1 u c show ?thesis by (auto simp: sessionCookieValue_def)
qed

lemma toy_idkey_ok: "length (toy_idkey q salt argonTime argonMemory argonThreads argonKeyLen) = argonKeyLen
    \<and> bytes_ok (toy_idkey q salt argonTime argonMemory argonThreads argonKeyLen)"
  by (auto simp: toy_idkey_def bytes_ok_def)

definition ann_hash :: string where
  "ann_hash = encoded_hash [1, 2, 3] (toy_idkey ''secret12'' [1, 2, 3] argonTime argonMemory argonThreads argonKeyLen)"

definition ann_db :: db where
  "ann_db = empty_db\<lparr>db_users := [\<lparr>us_ID = 1, us_Username = ''ann'', us_PasswordHash = ann_hash, us_CreatedAt = 0\<rparr>], db_lastUser := 1\<rparr>"

definition demo_auth :: auth_config where
  "demo_auth = \<lparr>au_Enabled = True, au_SessionTTL = 3600000000000, au_SecureCookies = True\<rparr>"

lemma ann_db_ok: "db_ok ann_db"
  by (simp add: ann_db_def empty_db_def db_ok_def runs_ok_def users_ok_def plans_ok_def)

lemma ann_logs_in:
  "handleLogin toy_idkey demo_auth None None (Inr [1, 2, 3]) 0 (Inr ('' Ann '', ''secret12'')) ann_db =
     Some ((writeJSON 200 (LoggedIn ''ann''))\<lparr>rp_cookie := Some (sessionCookieValue demo_auth (base64_encode url_alphabet [1, 2, 3])
         (f64_to_int64 (Seconds (au_SessionTTL demo_auth))))\<rparr>,
       snd (CreateSession None (hashToken (base64_encode url_alphabet [1, 2, 3])) 1 (unix_milli (au_SessionTTL demo_auth)) ann_db))"
proof -
  have v: "VerifyPassword toy_idkey ''secret12'' ann_hash = Some True"
    by (subst verify_hashed [where idkey = toy_idkey and salt = "[1, 2, 3]" and p = "''secret12''"])
      (simp_all add: HashPassword_def ann_hash_def bytes_ok_def toy_idkey_ok [unfolded bytes_ok_def])
  have t: "trim_space '' Ann '' = ''Ann''" by (simp add: trim_space_def is_space_def byte_def)
  have l: "map lower_char ''Ann'' = ''ann''" "map lower_char ''ann'' = ''ann''"
    by (simp_all add: lower_char_def byte_def char_of_eq_iff)
  have g: "GetUserByName None ''Ann'' ann_db = Inr \<lparr>us_ID = 1, us_Username = ''ann'', us_PasswordHash = ann_hash, us_CreatedAt = 0\<rparr>"
    using l by (simp add: ann_db_def empty_db_def GetUserByName_def same_name_def to_lower_def)
  obtain d' where "CreateSession None (hashToken (base64_encode url_alphabet [1, 2, 3])) 1 (unix_milli (au_SessionTTL demo_auth)) ann_db = (Inr (), d')"
    by (simp add: CreateSession_def ann_db_def empty_db_def)
  with v g show ?thesis by (simp add: handleLogin_def t newToken_def)
qed

theorem login_until_logout_witness:
  "let c = base64_encode url_alphabet [1, 2, 3];
       d' = snd (CreateSession None (hashToken c) 1 (unix_milli (au_SessionTTL demo_auth)) ann_db);
       h = \<lambda>u s. (writeJSON 200 (AuthState True (map_option us_Username u)), s)
   in rp_code (fst (requireAuth demo_auth (\<lambda>d. d) None 7 (Some c) h d')) = 200
     \<and> rp_code (fst (requireAuth demo_auth (\<lambda>d. d) None 7 (Some c) h (snd (handleLogout demo_auth None (Some c) d')))) = 401"
proof -
  let ?h = "\<lambda>u s. (writeJSON 200 (AuthState True (map_option us_Username u)), s)"
  let ?tok = "base64_encode url_alphabet [1, 2, 3]"
  let ?d' = "snd (CreateSession None (hashToken ?tok) 1 (unix_milli (au_SessionTTL demo_auth)) ann_db)"
  obtain u c where c: "c = sessionCookieValue demo_auth ?tok (f64_to_int64 (Seconds (au_SessionTTL demo_auth)))"
    and 1: "\<And>t f. unix_milli t < unix_milli (0 + au_SessionTTL demo_auth) \<Longrightarrow>
        requireAuth demo_auth (\<lambda>d. d) None t (Some (ck_Value c)) f ?d' = f (Some u) ?d'"
    and 2: "\<And>t t' f d''. sess.ended_later t (snd (handleLogout demo_auth None (Some (ck_Value c)) ?d')) (unix_milli t') d'' \<Longrightarrow>
        rp_code (fst (requireAuth demo_auth (\<lambda>d. d) None t' (Some (ck_Value c)) f d'')) = 401"
    using login_until_logout [OF ann_db_ok _ ann_logs_in] by (auto simp: demo_auth_def writeJSON_def)
  have v: "ck_Value c = ?tok" by (simp add: c sessionCookieValue_def)
  have "unix_milli 7 < unix_milli (0 + au_SessionTTL demo_auth)" by (simp add: demo_auth_def unix_milli_def)
  from 1 [OF this, of ?h] 2 [OF sess.ended_later.same, of _ ?h] show ?thesis
    unfolding Let_def v by (simp add: writeJSON_def)
qed

section \<open>Accounts\<close>

lemma delete_user_write_users: "db_users (snd (delete_user_write flt i d)) =
    (if flt = None then filter (\<lambda>u. us_ID u \<noteq> i) (db_users d) else db_users d)"
  by (auto simp: delete_user_write_def DeleteUser_def count_where_0 filter_id_conv split: option.splits prod.splits sum.splits store_error.splits)

lemma distinct_filter_one: "distinct (map f xs) \<Longrightarrow> length xs \<le> Suc (length (filter (\<lambda>x. f x \<noteq> i) xs))"
proof (induction xs)
  case (Cons x xs)
  show ?case
  proof (cases "f x = i")
    case True
    then have "\<forall>y \<in> set xs. f y \<noteq> i" using Cons.prems by (auto simp: image_iff)
    with True show ?thesis by simp
  qed (use Cons in simp)
qed simp

text \<open>When the count of users can be read, deleting a user leaves at least one, and never the one who
  asks.\<close>

theorem delete_keeps_an_account:
  assumes "db_ok d" and "db_users d \<noteq> []" and "handleDeleteUser None flt current pathID d = (r, d')"
  shows "db_users d' \<noteq> [] \<and> (\<forall>u. current = Some u \<longrightarrow> u \<in> set (db_users d) \<longrightarrow> u \<in> set (db_users d'))"
proof (cases "delete_user_check None current pathID d")
  case (Inl x)
  with assms show ?thesis by (auto simp: handleDeleteUser_def)
next
  case (Inr i)
  then have n: "1 < length (db_users d)" and cur: "\<forall>u. current = Some u \<longrightarrow> us_ID u \<noteq> i"
    by (auto simp: delete_user_check_def CountUsers_def split: option.splits if_splits)
  have d': "d' = snd (delete_user_write flt i d)" using Inr assms(3) by (simp add: handleDeleteUser_def)
  have "distinct (map us_ID (db_users d))" using assms(1) by (simp add: db_ok_def users_ok_def)
  from distinct_filter_one [OF this, of i] n have "db_users d' \<noteq> []"
    by (auto simp: d' delete_user_write_users)
  moreover have "u \<in> set (db_users d')" if "current = Some u" "u \<in> set (db_users d)" for u
    using that cur by (simp add: d' delete_user_write_users)
  ultimately show ?thesis by blast
qed

theorem delete_keeps_an_account_witness:
  "db_users (snd (handleDeleteUser None None (Some (hd (db_users two_users))) ''2'' two_users)) \<noteq> []"
  using delete_keeps_an_account [OF two_users_ok _ surjective_pairing] by (simp add: two_users_def empty_db_def)

text \<open>The check and the write of a deletion are not one step: two signed-in users who delete each
  other at the same time both pass the check, and no account is left.\<close>

theorem accounts_can_run_out:
  assumes "db_users d = [u, v]" and "us_ID u \<noteq> us_ID v" and "in64 (us_ID u)" and "in64 (us_ID v)"
  shows "delete_user_check None (Some u) (int_string (us_ID v)) d = Inr (us_ID v)
    \<and> delete_user_check None (Some v) (int_string (us_ID u)) d = Inr (us_ID u)
    \<and> db_users (snd (delete_user_write None (us_ID u) (snd (delete_user_write None (us_ID v) d)))) = []"
  using assms by (simp add: delete_user_check_def parse_int64_string CountUsers_def delete_user_write_users)

theorem accounts_can_run_out_witness:
  "db_users (snd (delete_user_write None 1 (snd (delete_user_write None 2 two_users)))) = []"
proof -
  have "db_users two_users = [hd (db_users two_users), hd (tl (db_users two_users))]" by (simp add: two_users_def)
  from accounts_can_run_out [OF this] show ?thesis by (simp add: two_users_def in64_def)
qed

text \<open>A name with white space around it has no case variant without.\<close>

lemma same_name_trimmed: "to_lower (trim_space n) = to_lower name \<Longrightarrow> trim_space name = name"
proof (rule length_trim_space)
  assume e: "to_lower (trim_space n) = to_lower name"
  have "length (trim_space name) = length (trim_space (to_lower name))" by (simp add: trim_to_lower) (simp add: to_lower_def)
  also have "\<dots> = length (trim_space n)" by (simp add: trim_to_lower flip: e) (simp add: to_lower_def)
  also have "\<dots> = length name" using arg_cong [OF e, of length] by (simp add: to_lower_def)
  finally show "length (trim_space name) = length name" .
qed

text \<open>On a database without users, starting with credentials creates an account that can sign in with
  them, provided the name has no white space around it; with white space around it the account exists and
  nobody can ever sign in, with any name and password.\<close>

theorem bootstrap_then_login:
  assumes "db_users d = []" and "db_sessions d = []" and "BootstrapUser idkey None None (Inr salt) t0 name password d = (Inr True, d')"
    and "bytes_ok salt" and "\<And>q. length (idkey q salt argonTime argonMemory argonThreads argonKeyLen) = argonKeyLen
           \<and> bytes_ok (idkey q salt argonTime argonMemory argonThreads argonKeyLen)"
  shows "if trim_space name = name
    then \<exists>r d''. handleLogin idkey a None None (Inr buf) now (Inr (name, password)) d' = Some (r, d'') \<and> rp_code r = 200
    else db_users d' \<noteq> [] \<and> (\<forall>flt flt' rand body. \<forall>(r, d'') \<in> set_option (handleLogin idkey a flt flt' rand now body d'). rp_code r \<noteq> 200)"
proof -
  obtain h where h: "HashPassword idkey (Inr salt) password = Inr h"
    and cu: "CreateUser None t0 name h d = (Inr \<lparr>us_ID = db_lastUser d + 1, us_Username = name, us_PasswordHash = h, us_CreatedAt = t0\<rparr>, d')"
    using assms(1,3) by (auto simp: BootstrapUser_def CountUsers_def CreateUser_def Let_def split: sum.splits if_splits)
  let ?u = "\<lparr>us_ID = db_lastUser d + 1, us_Username = name, us_PasswordHash = h, us_CreatedAt = t0\<rparr>"
  have users: "db_users d' = [?u]" "db_sessions d' = []" using cu assms(1,2) by (auto simp: CreateUser_def Let_def split: if_splits)
  have v: "VerifyPassword idkey password h = Some True" using verify_hashed [OF h assms(4,5), of password] by simp
  show ?thesis
  proof (cases "trim_space name = name")
    case True
    then have "GetUserByName None (trim_space name) d' = Inr ?u" by (simp add: GetUserByName_def users same_name_def)
    then show ?thesis using True v users
      by (simp add: handleLogin_def newToken_def CreateSession_def writeJSON_def)
  next
    case False
    have "rp_code r \<noteq> 200" if l: "handleLogin idkey a flt flt' rand now body d' = Some (r, d'')" for flt flt' rand body r d''
    proof -
      have "\<exists>e. GetUserByName flt (trim_space n) d' = Inl e" for n
        using False same_name_trimmed [of n name] by (auto simp: GetUserByName_def users same_name_def split: option.splits)
      then have "rp_code r = 400 \<or> rp_code r = 401"
      proof (cases body)
        case (Inr p)
        obtain n pw e where "p = (n, pw)" "GetUserByName flt (trim_space n) d' = Inl e"
          using \<open>\<And>n. \<exists>e. GetUserByName flt (trim_space n) d' = Inl e\<close> by (metis surj_pair)
        with Inr l show ?thesis by (auto simp: handleLogin_def writeError_def writeJSON_def)
      qed (use l in \<open>auto simp: handleLogin_def writeError_def writeJSON_def\<close>)
      then show ?thesis by auto
    qed
    with False users show ?thesis by auto
  qed
qed

theorem bootstrap_then_login_witness:
  "\<exists>r d. handleLogin toy_idkey demo_auth None None (Inr [9]) 5 (Inr (''root'', ''secret12''))
     (snd (BootstrapUser toy_idkey None None (Inr [4]) 0 ''root'' ''secret12'' empty_db)) = Some (r, d) \<and> rp_code r = 200"
proof -
  have b: "BootstrapUser toy_idkey None None (Inr [4]) 0 ''root'' ''secret12'' empty_db =
    (Inr True, snd (BootstrapUser toy_idkey None None (Inr [4]) 0 ''root'' ''secret12'' empty_db))"
    by (simp add: BootstrapUser_def CountUsers_def HashPassword_def CreateUser_def empty_db_def Let_def)
  have t: "trim_space ''root'' = ''root''" by (simp add: trim_space_def is_space_def byte_def)
  show ?thesis
    using bootstrap_then_login [where idkey = toy_idkey and salt = "[4]" and buf = "[9]" and now = 5 and a = demo_auth, OF _ _ b] toy_idkey_ok
    unfolding t by (simp add: empty_db_def bytes_ok_def)
qed

end
