(* ===== verification/Api_Handlers.thy ===== *)
theory Api_Handlers
  imports Auth Run_Queue
begin

text \<open>
  The HTTP server of \<open>internal/api\<close>: \<open>server.go\<close>, \<open>history.go\<close> and the stream of \<open>sse.go\<close>. A handler
  takes the store, what it reads of the queue and the recorder, the answers of the orchestrator, the
  faults of its statements and the parts of the request it uses. \<open>serve\<close> composes the routes, the
  session check and the handlers over the whole server.

  Parameters: JSON decoders and encoders, the environment and map orders of \<open>FromSpec\<close>, the
  orchestrator's answers (\<open>Inl\<close> is a failed call), the clock, random bytes, \<open>argon2\<close>.
\<close>

section \<open>Submitting a run\<close>

text \<open>The handler reads the clock twice: \<open>id_ms\<close> names the run, \<open>now_ms\<close> is its submission time.\<close>

definition peakOf :: "stage list \<Rightarrow> int" where
  "peakOf sts = fold (\<lambda>st m. if st_TargetVUs st > m then st_TargetVUs st else m) sts 0"

definition run_of_request :: "(yaml_test_plan \<Rightarrow> string) \<Rightarrow> int64 \<Rightarrow> int64 \<Rightarrow> user option \<Rightarrow> yaml_test_plan \<Rightarrow> scenario \<Rightarrow> run_row" where
  "run_of_request marshal id_ms now_ms current req sc = zero_run\<lparr>rw_ID := ''run-'' @ int_string id_ms, rw_Name := sc_Name sc,
     rw_PlanSpec := marshal req, rw_Status := ''QUEUED'', rw_StartedAt := now_ms,
     rw_StartedBy := (case current of None \<Rightarrow> '''' | Some u \<Rightarrow> us_Username u), rw_PeakVUs := peakOf (sc_Stages sc)\<rparr>"

definition handleStartRun ::
  "(yaml_test_plan \<Rightarrow> string) \<Rightarrow> string list \<Rightarrow> (nat \<Rightarrow> string list) \<Rightarrow> string list \<Rightarrow> fault \<Rightarrow> fault \<Rightarrow> int64 \<Rightarrow> int64
     \<Rightarrow> user option \<Rightarrow> string + yaml_test_plan \<Rightarrow> db \<Rightarrow> reply \<times> db" where
  "handleStartRun marshal env ords allow flt flt' id_ms now_ms current body d =
     (case body of
        Inl e \<Rightarrow> (writeError 400 (''invalid JSON: '' @ e), d)
      | Inr req \<Rightarrow>
          (case FromSpec env ords req of
             Inl e \<Rightarrow> (writeJSON 422 (PlanRefused e), d)
           | Inr scenario \<Rightarrow>
               (case Check allow (hc_BaseURL (sc_HTTP scenario)) of
                  Some e \<Rightarrow> (writeJSON 403 (TargetRefused e), d)
                | None \<Rightarrow>
                    let run = run_of_request marshal id_ms now_ms current req scenario
                    in case CreateRun flt run d of
                         (Inl e, d') \<Rightarrow> (writeError 500 (''could not queue run: '' @ store_error_text e), d')
                       | (Inr _, d') \<Rightarrow>
                           let position = (case CountQueuedBefore flt' (rw_ID run) d' of Inl e \<Rightarrow> 0 | Inr n \<Rightarrow> n)
                           in (writeJSON 202 (Started (rw_ID run) ''QUEUED'' position), d'))))"

section \<open>Status and stop\<close>

text \<open>\<open>live\<close> says whether the recorder has a session for the run.\<close>

definition handleRunStatus ::
  "fault \<Rightarrow> fault \<Rightarrow> bool \<Rightarrow> string + test_status_response \<Rightarrow> string \<Rightarrow> db \<Rightarrow> reply" where
  "handleRunStatus flt flt' live answer testID d =
     (case GetRun flt testID d of
        Inl e \<Rightarrow> writeError 404 (''run not found: '' @ testID)
      | Inr run \<Rightarrow>
          let out = \<lparr>rso_TestID = testID, rso_Status = rw_Status run, rso_ActiveWorkers = 0, rso_TotalVUs = 0,
                rso_Metrics = None, rso_Run = Some run, rso_Position = 0\<rparr>;
              out = (if rw_Status run = ''QUEUED''
                then (case CountQueuedBefore flt' testID d of Inl e \<Rightarrow> out | Inr pos \<Rightarrow> out\<lparr>rso_Position := pos\<rparr>) else out);
              out = (if live
                then (case answer of
                        Inl e \<Rightarrow> out
                      | Inr resp \<Rightarrow> out\<lparr>rso_Status := pb_status_string (tsr_Status resp), rso_ActiveWorkers := tsr_ActiveWorkers resp,
                          rso_TotalVUs := tsr_TotalVus resp, rso_Metrics := metricsFromProto (tsr_CurrentMetrics resp)\<rparr>)
                else out)
          in writeJSON 200 (Status out))"

definition handleStopRun :: "fault \<Rightarrow> fault \<Rightarrow> string + stop_response \<Rightarrow> string \<Rightarrow> db \<Rightarrow> reply \<times> db" where
  "handleStopRun flt flt' answer testID d =
     (case Cancel flt flt' testID d of
        (None, d') \<Rightarrow> (writeJSON 200 (MessageText ''run cancelled before it started''), d')
      | (Some _, d') \<Rightarrow>
          (case answer of
             Inl e \<Rightarrow> (writeError 502 e, d')
           | Inr resp \<Rightarrow>
               if \<not> sr_Success resp then (writeError 409 (sr_Message resp), d')
               else (writeJSON 200 (MessageText (sr_Message resp)), d')))"

section \<open>Workers and health\<close>

fun fleet_capacity :: "int32 \<Rightarrow> worker_info list \<Rightarrow> int32" where
  "fleet_capacity c [] = c"
| "fleet_capacity c (wk # wks) = fleet_capacity (i32 (c + wi_MaxVus wk)) wks"

definition handleWorkers :: "string + worker_info list \<Rightarrow> reply" where
  "handleWorkers answer =
     (case answer of
        Inl e \<Rightarrow> writeError 502 (''orchestrator unreachable: '' @ e)
      | Inr workers \<Rightarrow> writeJSON 200 (Fleet workers (fleet_capacity 0 workers)))"

definition handleHealth :: "string + worker_info list \<Rightarrow> string \<Rightarrow> reply" where
  "handleHealth answer current =
     writeJSON 200 (Health ''ok'' (case answer of Inl e \<Rightarrow> ''unreachable'' | Inr _ \<Rightarrow> ''ok'') current)"

section \<open>History\<close>

definition handleListRuns :: "fault \<Rightarrow> string \<Rightarrow> string \<Rightarrow> db \<Rightarrow> reply" where
  "handleListRuns flt limit offset d =
     (case ListRuns flt (intParam limit 50) (intParam offset 0) d of
        Inl e \<Rightarrow> writeError 500 (store_error_text e)
      | Inr runs \<Rightarrow> writeJSON 200 (AllRuns runs))"

definition handleDeleteRun :: "fault \<Rightarrow> string \<Rightarrow> string \<Rightarrow> db \<Rightarrow> reply \<times> db" where
  "handleDeleteRun flt current i d =
     (if current = i then (writeError 409 ''run is still in flight; stop it first'', d)
      else (case DeleteRun flt i d of
              (Inl ErrNotFound, d') \<Rightarrow> (writeError 404 ''run not found'', d')
            | (Inl (SqlError e), d') \<Rightarrow> (writeError 500 e, d')
            | (Inr _, d') \<Rightarrow> (writeJSON 204 NoPayload, d')))"

definition handleRunSeries :: "fault \<Rightarrow> string \<Rightarrow> db \<Rightarrow> reply" where
  "handleRunSeries flt i d =
     (case ListSamples flt i d of
        Inl e \<Rightarrow> writeError 500 (store_error_text e)
      | Inr samples \<Rightarrow> writeJSON 200 (Series samples))"

section \<open>Saved plans\<close>

text \<open>The body of a saved plan is its name and the raw JSON of its spec, empty when there is none.\<close>

definition decodePlan :: "string + string \<times> string \<Rightarrow> reply + string \<times> string" where
  "decodePlan body =
     (case body of
        Inl e \<Rightarrow> Inl (writeError 400 (''invalid JSON: '' @ e))
      | Inr p \<Rightarrow>
          if fst p = '''' then Inl (writeError 422 ''name is required'')
          else if length (snd p) = 0 then Inl (writeError 422 ''spec is required'')
          else Inr p)"

definition handleListPlans :: "fault \<Rightarrow> db \<Rightarrow> reply" where
  "handleListPlans flt d =
     (case ListPlans flt d of Inl e \<Rightarrow> writeError 500 (store_error_text e) | Inr ps \<Rightarrow> writeJSON 200 (AllPlans ps))"

definition handleCreatePlan :: "fault \<Rightarrow> int64 \<Rightarrow> string + string \<times> string \<Rightarrow> db \<Rightarrow> reply \<times> db" where
  "handleCreatePlan flt now_ms body d =
     (case decodePlan body of
        Inl r \<Rightarrow> (r, d)
      | Inr p \<Rightarrow>
          (case CreatePlan flt now_ms (fst p) (snd p) d of
             (Inl e, d') \<Rightarrow> (writeError 500 (store_error_text e), d')
           | (Inr plan, d') \<Rightarrow> (writeJSON 201 (OnePlan plan), d')))"

definition handleUpdatePlan :: "fault \<Rightarrow> fault \<Rightarrow> int64 \<Rightarrow> string \<Rightarrow> string + string \<times> string \<Rightarrow> db \<Rightarrow> reply \<times> db" where
  "handleUpdatePlan flt flt' now_ms pathID body d =
     (case parse_int64 pathID of
        None \<Rightarrow> (writeError 400 ''invalid plan id'', d)
      | Some i \<Rightarrow>
          (case decodePlan body of
             Inl r \<Rightarrow> (r, d)
           | Inr p \<Rightarrow>
               (case UpdatePlan flt flt' now_ms i (fst p) (snd p) d of
                  (Inl ErrNotFound, d') \<Rightarrow> (writeError 404 ''plan not found'', d')
                | (Inl (SqlError e), d') \<Rightarrow> (writeError 500 e, d')
                | (Inr plan, d') \<Rightarrow> (writeJSON 200 (OnePlan plan), d'))))"

definition handleDeletePlan :: "fault \<Rightarrow> string \<Rightarrow> db \<Rightarrow> reply \<times> db" where
  "handleDeletePlan flt pathID d =
     (case parse_int64 pathID of
        None \<Rightarrow> (writeError 400 ''invalid plan id'', d)
      | Some i \<Rightarrow>
          (case DeletePlan flt i d of
             (Inl ErrNotFound, d') \<Rightarrow> (writeError 404 ''plan not found'', d')
           | (Inl (SqlError e), d') \<Rightarrow> (writeError 500 e, d')
           | (Inr _, d') \<Rightarrow> (writeJSON 204 NoPayload, d')))"

section \<open>The event stream\<close>

text \<open>
  \<open>sendEvent\<close> writes one frame, and nothing when the payload cannot be encoded (a float that is no
  number). \<open>marshal\<close> is the JSON encoder.
\<close>

fun event_type :: "event \<Rightarrow> string" where
  "event_type (MetricsEvent m) = ''metrics''"
| "event_type (StatusEvent s) = ''status''"
| "event_type (EndEvent s) = ''end''"

definition newline :: char where "newline = char_of (10 :: nat)"

definition sendEvent :: "(event \<Rightarrow> string option) \<Rightarrow> event \<Rightarrow> string" where
  "sendEvent marshal ev =
     (case marshal ev of
        None \<Rightarrow> ''''
      | Some body \<Rightarrow> ''event: '' @ event_type ev @ [newline] @ ''data: '' @ body @ [newline, newline])"

text \<open>
  What a round of \<open>awaitDispatch\<close> meets: the faults of its two statements, the store, whether the
  recorder has a session by then, and whether the client is gone before the ticker fires.
\<close>

record poll =
  po_flt :: fault
  po_flt' :: fault
  po_db :: db
  po_live :: bool
  po_gone :: bool

datatype awaited = Dispatched | Over | WaitingOn

definition poll_status :: "string \<Rightarrow> poll \<Rightarrow> run_status_out" where
  "poll_status testID p = \<lparr>rso_TestID = testID, rso_Status = ''QUEUED'', rso_ActiveWorkers = 0, rso_TotalVUs = 0, rso_Metrics = None,
     rso_Run = None, rso_Position = (case CountQueuedBefore (po_flt' p) testID (po_db p) of Inl e \<Rightarrow> 0 | Inr n \<Rightarrow> n)\<rparr>"

fun awaitDispatch :: "string \<Rightarrow> poll list \<Rightarrow> event list \<times> awaited" where
  "awaitDispatch testID [] = ([], WaitingOn)"
| "awaitDispatch testID (p # ps) =
     (case GetRun (po_flt p) testID (po_db p) of
        Inl e \<Rightarrow> ([EndEvent ''UNKNOWN''], Over)
      | Inr run \<Rightarrow>
          if rw_Status run \<noteq> ''QUEUED''
          then (if po_live p then ([], Dispatched) else ([EndEvent (rw_Status run)], Over))
          else if po_gone p then ([StatusEvent (poll_status testID p)], Over)
          else (case awaitDispatch testID ps of (evs, res) \<Rightarrow> (StatusEvent (poll_status testID p) # evs, res)))"

text \<open>What the stream's \<open>select\<close> receives once it has subscribed.\<close>

datatype stream_input = ClientGone | FromChannel event | ChannelClosed

fun stream_loop :: "stream_input list \<Rightarrow> event list \<times> bool" where
  "stream_loop [] = ([], False)"
| "stream_loop (inp # inps) =
     (case inp of
        ClientGone \<Rightarrow> ([], True)
      | ChannelClosed \<Rightarrow> ([], True)
      | FromChannel ev \<Rightarrow>
          if event_type ev = ''end'' then ([ev], True)
          else (case stream_loop inps of (evs, over) \<Rightarrow> (ev # evs, over)))"

definition handleStreamRun :: "bool \<Rightarrow> string \<Rightarrow> poll list \<Rightarrow> stream_input list \<Rightarrow> event list \<times> bool" where
  "handleStreamRun live testID polls inps =
     (if live then stream_loop inps
      else (case awaitDispatch testID polls of
              (evs, Dispatched) \<Rightarrow> (case stream_loop inps of (evs', over) \<Rightarrow> (evs @ evs', over))
            | (evs, Over) \<Rightarrow> (evs, True)
            | (evs, WaitingOn) \<Rightarrow> (evs, False)))"

section \<open>The embedded frontend\<close>

text \<open>What \<open>fs.Stat\<close> says of a name in the frontend's file system. The handler serves the file at the
  path it returns; slicing an empty path panics.\<close>

datatype stat_result = Exists | NotExist | StatFailed string

definition uiBuilt :: "(string \<Rightarrow> stat_result) option \<Rightarrow> bool" where
  "uiBuilt ui = (case ui of None \<Rightarrow> False | Some stat \<Rightarrow> stat ''index.html'' = Exists)"

definition spaHandler :: "(string \<Rightarrow> stat_result) \<Rightarrow> string \<Rightarrow> string option" where
  "spaHandler stat path =
     (if path = ''/'' then Some path
      else if path = '''' then None
      else if stat (drop 1 path) = NotExist then Some ''/''
      else Some path)"

section \<open>Routes\<close>

datatype open_endpoint = EpHealth | EpMe | EpLogin | EpLogout

datatype endpoint =
    EpWorkers | EpStartRun | EpListRuns | EpRunStatus | EpDeleteRun | EpRunSeries | EpStopRun | EpStreamRun
  | EpListPlans | EpCreatePlan | EpUpdatePlan | EpDeletePlan
  | EpListUsers | EpCreateUser | EpDeleteUser

text \<open>A pattern is a method and the path's segments, \<open>None\<close> for \<open>{id}\<close>.\<close>

definition open_routes :: "((string \<times> string option list) \<times> open_endpoint) list" where
  "open_routes =
     [((''GET'', [Some ''api'', Some ''health'']), EpHealth),
      ((''GET'', [Some ''api'', Some ''auth'', Some ''me'']), EpMe),
      ((''POST'', [Some ''api'', Some ''auth'', Some ''login'']), EpLogin),
      ((''POST'', [Some ''api'', Some ''auth'', Some ''logout'']), EpLogout)]"

definition protected_routes :: "((string \<times> string option list) \<times> endpoint) list" where
  "protected_routes =
     [((''GET'', [Some ''api'', Some ''workers'']), EpWorkers),
      ((''POST'', [Some ''api'', Some ''runs'']), EpStartRun),
      ((''GET'', [Some ''api'', Some ''runs'']), EpListRuns),
      ((''GET'', [Some ''api'', Some ''runs'', None]), EpRunStatus),
      ((''DELETE'', [Some ''api'', Some ''runs'', None]), EpDeleteRun),
      ((''GET'', [Some ''api'', Some ''runs'', None, Some ''series'']), EpRunSeries),
      ((''POST'', [Some ''api'', Some ''runs'', None, Some ''stop'']), EpStopRun),
      ((''GET'', [Some ''api'', Some ''runs'', None, Some ''stream'']), EpStreamRun),
      ((''GET'', [Some ''api'', Some ''plans'']), EpListPlans),
      ((''POST'', [Some ''api'', Some ''plans'']), EpCreatePlan),
      ((''PUT'', [Some ''api'', Some ''plans'', None]), EpUpdatePlan),
      ((''DELETE'', [Some ''api'', Some ''plans'', None]), EpDeletePlan),
      ((''GET'', [Some ''api'', Some ''users'']), EpListUsers),
      ((''POST'', [Some ''api'', Some ''users'']), EpCreateUser),
      ((''DELETE'', [Some ''api'', Some ''users'', None]), EpDeleteUser)]"

text \<open>\<open>http.ServeMux\<close> on a cleaned path: the segments must agree, a wildcard takes one segment; a
  pattern for \<open>GET\<close> serves \<open>HEAD\<close> too. The result is the value of \<open>{id}\<close>.\<close>

fun match_segments :: "string option list \<Rightarrow> string list \<Rightarrow> string option" where
  "match_segments [] [] = Some ''''"
| "match_segments (Some l # ps) (s # ss) = (if l = s then match_segments ps ss else None)"
| "match_segments (None # ps) (s # ss) = (if s = '''' then None else map_option (\<lambda>_. s) (match_segments ps ss))"
| "match_segments _ _ = None"

definition method_matches :: "string \<Rightarrow> string \<Rightarrow> bool" where
  "method_matches pat m \<longleftrightarrow> pat = m \<or> pat = ''GET'' \<and> m = ''HEAD''"

fun find_route :: "((string \<times> string option list) \<times> 'e) list \<Rightarrow> string \<Rightarrow> string list \<Rightarrow> ('e \<times> string) option" where
  "find_route [] m segs = None"
| "find_route (((pm, ps), ep) # rs) m segs =
     (if method_matches pm m
      then (case match_segments ps segs of Some i \<Rightarrow> Some (ep, i) | None \<Rightarrow> find_route rs m segs)
      else find_route rs m segs)"

section \<open>The server\<close>

record http_request =
  hr_Method :: string
  hr_Path :: string
  hr_Segments :: "string list"
  hr_Query :: "string \<Rightarrow> string"
  hr_Cookie :: "string option"
  hr_Body :: string

record api_server =
  sv_auth :: auth_config
  sv_allow :: "string list"
  sv_ui :: "(string \<Rightarrow> stat_result) option"
  sv_db :: db
  sv_current :: string
  sv_sessions :: sessions

text \<open>What is not the server's: the clock as \<open>requireAuth\<close> reads it and then the handler, which a
  submission reads twice, random bytes, the decoders and encoders, the statements'
  faults, \<open>argon2\<close>, and the answers of the orchestrator.\<close>

record outside =
  ou_checked :: go_time
  ou_now :: go_time
  ou_then :: go_time
  ou_rand :: "string + nat list"
  ou_idkey :: idkey
  ou_flt0 :: fault
  ou_flt1 :: fault
  ou_flt2 :: fault
  ou_credentials :: "string \<Rightarrow> string + string \<times> string"
  ou_planPayload :: "string \<Rightarrow> string + string \<times> string"
  ou_spec :: "string \<Rightarrow> string + yaml_test_plan"
  ou_marshal :: "yaml_test_plan \<Rightarrow> string"
  ou_env :: "string list"
  ou_ords :: "nat \<Rightarrow> string list"
  ou_workers :: "string + worker_info list"
  ou_status :: "string + test_status_response"
  ou_stop :: "string + stop_response"

definition on_db :: "(db \<Rightarrow> reply \<times> db) \<Rightarrow> api_server \<Rightarrow> reply \<times> api_server" where
  "on_db f s = (case f (sv_db s) of (r, d) \<Rightarrow> (r, s\<lparr>sv_db := d\<rparr>))"

text \<open>\<open>i\<close> is \<open>r.PathValue("id")\<close>, \<open>u\<close> the user \<open>requireAuth\<close> put in the context. The body of a stream's
  reply is \<open>handleStreamRun\<close>.\<close>

fun protected_handler :: "outside \<Rightarrow> http_request \<Rightarrow> string \<Rightarrow> endpoint \<Rightarrow> user option \<Rightarrow> api_server \<Rightarrow> reply \<times> api_server" where
  "protected_handler ou rq i EpStartRun u s = on_db (handleStartRun (ou_marshal ou) (ou_env ou) (ou_ords ou) (sv_allow s)
     (ou_flt1 ou) (ou_flt2 ou) (unix_milli (ou_now ou)) (unix_milli (ou_then ou)) u (ou_spec ou (hr_Body rq))) s"
| "protected_handler ou rq i EpListRuns u s = (handleListRuns (ou_flt1 ou) (hr_Query rq ''limit'') (hr_Query rq ''offset'') (sv_db s), s)"
| "protected_handler ou rq i EpRunStatus u s =
     (handleRunStatus (ou_flt1 ou) (ou_flt2 ou) (Session i (sv_sessions s) \<noteq> None) (ou_status ou) i (sv_db s), s)"
| "protected_handler ou rq i EpDeleteRun u s = on_db (handleDeleteRun (ou_flt1 ou) (sv_current s) i) s"
| "protected_handler ou rq i EpRunSeries u s = (handleRunSeries (ou_flt1 ou) i (sv_db s), s)"
| "protected_handler ou rq i EpStopRun u s = on_db (handleStopRun (ou_flt1 ou) (ou_flt2 ou) (ou_stop ou) i) s"
| "protected_handler ou rq i EpStreamRun u s = (writeJSON 200 EventStream, s)"
| "protected_handler ou rq i EpListPlans u s = (handleListPlans (ou_flt1 ou) (sv_db s), s)"
| "protected_handler ou rq i EpCreatePlan u s =
     on_db (handleCreatePlan (ou_flt1 ou) (unix_milli (ou_now ou)) (ou_planPayload ou (hr_Body rq))) s"
| "protected_handler ou rq i EpUpdatePlan u s =
     on_db (handleUpdatePlan (ou_flt1 ou) (ou_flt2 ou) (unix_milli (ou_now ou)) i (ou_planPayload ou (hr_Body rq))) s"
| "protected_handler ou rq i EpDeletePlan u s = on_db (handleDeletePlan (ou_flt1 ou) i) s"
| "protected_handler ou rq i EpListUsers u s = (handleListUsers (ou_flt1 ou) (sv_db s), s)"
| "protected_handler ou rq i EpCreateUser u s = on_db (handleCreateUser (ou_idkey ou) (ou_flt1 ou) (ou_flt2 ou) (ou_rand ou)
     (unix_milli (ou_now ou)) (ou_credentials ou (hr_Body rq))) s"
| "protected_handler ou rq i EpDeleteUser u s = on_db (handleDeleteUser (ou_flt1 ou) (ou_flt2 ou) u i) s"
| "protected_handler ou rq i EpWorkers u s = (handleWorkers (ou_workers ou), s)"

fun open_handler :: "outside \<Rightarrow> http_request \<Rightarrow> open_endpoint \<Rightarrow> api_server \<Rightarrow> (reply \<times> api_server) option" where
  "open_handler ou rq EpMe s = Some (handleMe (sv_auth s) (ou_flt1 ou) (ou_now ou) (hr_Cookie rq) (sv_db s), s)"
| "open_handler ou rq EpLogin s =
     map_option (\<lambda>(r, d). (r, s\<lparr>sv_db := d\<rparr>))
       (handleLogin (ou_idkey ou) (sv_auth s) (ou_flt1 ou) (ou_flt2 ou) (ou_rand ou) (ou_now ou) (ou_credentials ou (hr_Body rq)) (sv_db s))"
| "open_handler ou rq EpLogout s = Some (on_db (handleLogout (sv_auth s) (ou_flt1 ou) (hr_Cookie rq)) s)"
| "open_handler ou rq EpHealth s = Some (handleHealth (ou_workers ou) (sv_current s), s)"

text \<open>One request, atomically: \<open>None\<close> is a panic, which the HTTP server turns into a closed connection.\<close>

definition serve :: "outside \<Rightarrow> http_request \<Rightarrow> api_server \<Rightarrow> (reply \<times> api_server) option" where
  "serve ou rq s =
     (case find_route open_routes (hr_Method rq) (hr_Segments rq) of
        Some (ep, i) \<Rightarrow> open_handler ou rq ep s
      | None \<Rightarrow>
          (case find_route protected_routes (hr_Method rq) (hr_Segments rq) of
             Some (ep, i) \<Rightarrow>
               Some (requireAuth (sv_auth s) sv_db (ou_flt0 ou) (ou_checked ou) (hr_Cookie rq) (protected_handler ou rq i ep) s)
           | None \<Rightarrow>
               (case sv_ui s of
                  Some stat \<Rightarrow>
                    if uiBuilt (sv_ui s) then map_option (\<lambda>p. (writeJSON 200 (Page p), s)) (spaHandler stat (hr_Path rq))
                    else Some (writeJSON 503 (Page ''Dashboard not built''), s)
                | None \<Rightarrow> Some (writeJSON 503 (Page ''Dashboard not built''), s))))"

section \<open>What a submission does\<close>

lemma reply_sel [simp]:
  "rp_code (writeJSON n p) = n" "rp_payload (writeJSON n p) = p" "rp_code (writeError n m) = n" "rp_payload (writeError n m) = ErrorText m"
  by (simp_all add: writeJSON_def writeError_def)

lemma find_run_snoc: "find_run i d = None \<Longrightarrow> find_run i (d\<lparr>db_runs := db_runs d @ [r]\<rparr>) = (if rw_ID r = i then Some r else None)"
proof -
  have "find P xs = None \<Longrightarrow> find P (xs @ [x]) = (if P x then Some x else None)" for P and xs :: "run_row list" and x
    by (induction xs) (auto split: if_splits)
  then show "find_run i d = None \<Longrightarrow> ?thesis" by (simp add: find_run_def)
qed

lemma peakOf_Max:
  assumes "sts \<noteq> []" and "\<forall>st \<in> set sts. 0 < st_TargetVUs st"
  shows "peakOf sts = Max (st_TargetVUs ` set sts)"
proof -
  have f: "fold (\<lambda>st m. if st_TargetVUs st > m then st_TargetVUs st else m) sts m = fold max (map st_TargetVUs sts) m" for m
    by (induction sts arbitrary: m) (simp_all add: max_def)
  have "peakOf sts = Max (set (0 # map st_TargetVUs sts))" unfolding peakOf_def f by (simp only: Max.set_eq_fold)
  also have "\<dots> = max 0 (Max (st_TargetVUs ` set sts))" using assms(1) by simp
  also have "0 < Max (st_TargetVUs ` set sts)" using assms by (subst Max_gr_iff) (auto simp: neq_Nil_conv)
  then have "max 0 (Max (st_TargetVUs ` set sts)) = Max (st_TargetVUs ` set sts)" by simp
  finally show ?thesis .
qed

lemma run_of_request_sel [simp]:
  "rw_ID (run_of_request marshal k t u req sc) = ''run-'' @ int_string k" "rw_Status (run_of_request marshal k t u req sc) = ''QUEUED''"
  "rw_StartedAt (run_of_request marshal k t u req sc) = t" "rw_PlanSpec (run_of_request marshal k t u req sc) = marshal req"
  "rw_PeakVUs (run_of_request marshal k t u req sc) = peakOf (sc_Stages sc)"
  by (simp_all add: run_of_request_def)

lemma CreateRun_submitted:
  "CreateRun None (run_of_request marshal k t u req sc) d =
     (if find_run (''run-'' @ int_string k) d \<noteq> None then (Inl (SqlError ''UNIQUE constraint failed: runs.id''), d)
      else (Inr (), d\<lparr>db_runs := db_runs d @ [run_of_request marshal k t u req sc]\<rparr>))"
  by (simp add: CreateRun_def run_of_request_def zero_run_def)

lemma position_of_new:
  assumes "find_run (rw_ID r) d = None"
  shows "CountQueuedBefore None (rw_ID r) (d\<lparr>db_runs := db_runs d @ [r]\<rparr>)
    = Inr (count_where (\<lambda>x. rw_Status x = ''QUEUED'' \<and> rw_StartedAt x < rw_StartedAt r) (db_runs d))"
proof -
  have "find_run (rw_ID r) (d\<lparr>db_runs := db_runs d @ [r]\<rparr>) = Some r"
    using assms by (simp add: find_run_snoc)
  then show ?thesis by (simp add: CountQueuedBefore_def count_where_def)
qed

text \<open>The replies of a submission, in the order of the checks.\<close>

lemma start_run_cases:
  assumes "handleStartRun marshal env ords allow flt flt' k t u body d = (r, d')"
  obtains (bad_json) e where "body = Inl e" "rp_code r = 400" "d' = d"
  | (bad_plan) req e where "body = Inr req" "FromSpec env ords req = Inl e" "rp_code r = 422" "d' = d"
  | (bad_target) req sc e where "body = Inr req" "FromSpec env ords req = Inr sc" "Check allow (hc_BaseURL (sc_HTTP sc)) = Some e" "rp_code r = 403" "d' = d"
  | (not_stored) req sc e where "body = Inr req" "FromSpec env ords req = Inr sc" "Check allow (hc_BaseURL (sc_HTTP sc)) = None"
      "CreateRun flt (run_of_request marshal k t u req sc) d = (Inl e, d')" "rp_code r = 500" "d' = d"
  | (queued) req sc where "body = Inr req" "FromSpec env ords req = Inr sc" "Check allow (hc_BaseURL (sc_HTTP sc)) = None"
      "flt = None" "find_run (''run-'' @ int_string k) d = None" "CreateRun flt (run_of_request marshal k t u req sc) d = (Inr (), d')"
      "d' = d\<lparr>db_runs := db_runs d @ [run_of_request marshal k t u req sc]\<rparr>" "rp_code r = 202"
      "rp_payload r = Started (''run-'' @ int_string k) ''QUEUED''
         (case CountQueuedBefore flt' (''run-'' @ int_string k) d' of Inl e \<Rightarrow> 0 | Inr n \<Rightarrow> n)"
proof (cases body)
  case (Inl e)
  with assms show ?thesis by (intro bad_json) (auto simp: handleStartRun_def)
next
  case (Inr req)
  note b = Inr
  show ?thesis
  proof (cases "FromSpec env ords req")
    case (Inl e)
    with b assms show ?thesis by (intro bad_plan) (auto simp: handleStartRun_def)
  next
    case (Inr sc)
    note f = Inr
    show ?thesis
    proof (cases "Check allow (hc_BaseURL (sc_HTTP sc))")
      case (Some e)
      with b f assms show ?thesis by (intro bad_target) (auto simp: handleStartRun_def)
    next
      case None
      obtain res d'' where c: "CreateRun flt (run_of_request marshal k t u req sc) d = (res, d'')" by (cases "CreateRun flt (run_of_request marshal k t u req sc) d")
      show ?thesis
      proof (cases res)
        case (Inl e)
        then have "d'' = d" using c by (auto simp: CreateRun_def split: option.splits if_splits)
        with b f None c Inl assms show ?thesis by (intro not_stored) (auto simp: handleStartRun_def Let_def)
      next
        case (Inr x)
        then have fl: "flt = None" using c by (auto simp: CreateRun_def split: option.splits)
        with c Inr have "find_run (''run-'' @ int_string k) d = None" "d'' = d\<lparr>db_runs := db_runs d @ [run_of_request marshal k t u req sc]\<rparr>"
          by (auto simp: CreateRun_submitted split: if_splits)
        with b f None c Inr fl assms show ?thesis by (intro queued) (auto simp: handleStartRun_def Let_def)
      qed
    qed
  qed
qed


lemma demo_Check: "Check [''h''] ''http://h'' = None"
proof -
  have "trim_space ''http://h'' = ''http://h''" by (simp add: trim_space_def is_space_def byte_def)
  then show ?thesis by (simp add: Check_def matchHost_def to_lower_def lower_char_def url_eval)
qed

text \<open>The identifier of a run is the millisecond of its submission, so of two submissions in one
  millisecond the second is answered with an internal error and is not queued.\<close>

theorem same_millisecond_refused:
  assumes "handleStartRun marshal env ords allow flt flt' k t u body d = (r, d')" and "rp_code r = 202"
    and "handleStartRun marshal env' ords' allow' None flt'' k t' u' body' d' = (r', d'')"
    and "body' = Inr req" and "FromSpec env' ords' req = Inr sc" and "Check allow' (hc_BaseURL (sc_HTTP sc)) = None"
  shows "rp_code r' = 500 \<and> d'' = d'"
proof -
  from assms(1,2) have f: "find_run (''run-'' @ int_string k) d' \<noteq> None"
    by (cases rule: start_run_cases) (auto simp: find_run_snoc)
  from assms(3) show ?thesis using f assms(4-6) by (cases rule: start_run_cases) auto
qed

lemma demo_submitted:
  "handleStartRun (\<lambda>_. ''{}'') [] (\<lambda>_. [''host'']) [''h''] None None 7 8 u (Inr demo_yaml) empty_db =
     (writeJSON 202 (Started (''run-'' @ int_string 7) ''QUEUED'' 0),
      empty_db\<lparr>db_runs := [run_of_request (\<lambda>_. ''{}'') 7 8 u demo_yaml demo_scenario]\<rparr>)"
proof -
  have base: "hc_BaseURL (sc_HTTP demo_scenario) = ''http://h''" by (simp add: demo_scenario_def)
  have e: "db_runs empty_db = []" "find_run i empty_db = None" for i by (simp_all add: empty_db_def find_run_def)
  have "CountQueuedBefore None (''run-'' @ int_string 7) (empty_db\<lparr>db_runs := [run_of_request (\<lambda>_. ''{}'') 7 8 u demo_yaml demo_scenario]\<rparr>) = Inr 0"
    using position_of_new [OF e(2), of "run_of_request (\<lambda>_. ''{}'') 7 8 u demo_yaml demo_scenario"] by (simp add: e count_where_def)
  then show ?thesis by (simp add: handleStartRun_def demo_FromSpec base demo_Check CreateRun_submitted e Let_def)
qed

theorem same_millisecond_refused_witness:
  "rp_code (fst (handleStartRun (\<lambda>_. ''{}'') [] (\<lambda>_. [''host'']) [''h''] None None 7 8 None (Inr demo_yaml)
     (empty_db\<lparr>db_runs := [run_of_request (\<lambda>_. ''{}'') 7 8 None demo_yaml demo_scenario]\<rparr>))) = 500"
  using same_millisecond_refused [OF demo_submitted _ surjective_pairing refl demo_FromSpec]
  by (simp add: demo_Check) (simp add: demo_scenario_def demo_Check)


section \<open>Handlers and the queue\<close>

text \<open>Two queues that only differ in what handlers under way have read.\<close>

definition same_work :: "queue \<Rightarrow> queue \<Rightarrow> bool" where
  "same_work q q' \<longleftrightarrow> qs_current q' = qs_current q \<and> qs_attempts q' = qs_attempts q \<and> qs_pc q' = qs_pc q
     \<and> qs_recording q' = qs_recording q \<and> qs_done q' = qs_done q \<and> qs_sent q' = qs_sent q"

lemma start_run_step:
  assumes "handleStartRun marshal env ords allow flt flt' k t u body (qs_db q) = (r, d)"
  shows "\<exists>q'. (q_step req)\<^sup>*\<^sup>* q q' \<and> qs_db q' = d \<and> same_work q q'"
  using assms
proof (cases rule: start_run_cases)
  case (queued y sc)
  have "q_step req q (q\<lparr>qs_db := d\<rparr>)" by (rule q_step.submit_run [OF _ _ queued(6)]) simp_all
  then show ?thesis by (intro exI [of _ "q\<lparr>qs_db := d\<rparr>"]) (auto simp: same_work_def)
qed (auto simp: same_work_def)

lemma cancel_steps:
  assumes "Cancel flt flt' i (qs_db q) = (e, d)"
  shows "\<exists>q'. (q_step req)\<^sup>*\<^sup>* q q' \<and> qs_db q' = d \<and> same_work q q'"
proof (cases "cancel_check flt i (qs_db q)")
  case None
  let ?q = "q\<lparr>qs_cancels := qs_cancels q @ [i]\<rparr>"
  obtain res d' where s: "SetRunStatus flt' i ''CANCELLED'' (qs_db ?q) = (res, d')" by fastforce
  with assms None have d: "d' = d" by (auto simp: Cancel_def split: sum.splits)
  have "(q_step req)\<^sup>*\<^sup>* q (?q\<lparr>qs_db := d, qs_cancels := remove1 i (qs_cancels ?q)\<rparr>)"
    using q_step.cancel_read [OF None, where req = req] q_step.cancel_write [OF _ s, where req = req] d by (auto intro: rtranclp.rtrancl_into_rtrancl)
  then show ?thesis by (intro exI conjI) (assumption, auto simp: same_work_def)
qed (use assms in \<open>auto simp: Cancel_def same_work_def\<close>)

lemma delete_steps:
  assumes "handleDeleteRun flt (qs_current q) i (qs_db q) = (r, d)"
  shows "\<exists>q'. (q_step req)\<^sup>*\<^sup>* q q' \<and> qs_db q' = d \<and> same_work q q'"
proof (cases "qs_current q = i")
  case False
  let ?q = "q\<lparr>qs_deletes := qs_deletes q @ [i]\<rparr>"
  obtain res d' where s: "DeleteRun flt i (qs_db ?q) = (res, d')" by fastforce
  with assms False have d: "d' = d" by (auto simp: handleDeleteRun_def split: sum.splits store_error.splits)
  have "(q_step req)\<^sup>*\<^sup>* q (?q\<lparr>qs_db := d, qs_deletes := remove1 i (qs_deletes ?q)\<rparr>)"
    using q_step.delete_check [OF False, where req = req] q_step.delete_write [OF _ s, where req = req] d by (auto intro: rtranclp.rtrancl_into_rtrancl)
  then show ?thesis by (intro exI conjI) (assumption, auto simp: same_work_def)
qed (use assms in \<open>auto simp: handleDeleteRun_def same_work_def\<close>)

text \<open>C9: What the handlers that submit, stop and delete runs do to the store are steps of the queue, so
  between any two requests the queue is in a reachable state and keeps what is proved of those: in
  particular at most one run is in flight, before and after.\<close>

theorem handlers_are_queue_steps:
  assumes "q_reach req q"
    and "handleStartRun marshal env ords allow flt flt' k t u body (qs_db q) = (r, d)
      \<or> handleStopRun flt flt' answer i (qs_db q) = (r, d)
      \<or> handleDeleteRun flt (qs_current q) i (qs_db q) = (r, d)"
  shows "\<exists>q'. (q_step req)\<^sup>*\<^sup>* q q' \<and> q_reach req q' \<and> qs_db q' = d \<and> same_work q q' \<and> in_flight q' = in_flight q"
proof -
  have "\<exists>e. Cancel flt flt' i (qs_db q) = (e, d)" if "handleStopRun flt flt' answer i (qs_db q) = (r, d)"
    using that by (auto simp: handleStopRun_def split: prod.splits option.splits sum.splits if_splits)
  then obtain q' where q': "(q_step req)\<^sup>*\<^sup>* q q'" "qs_db q' = d" "same_work q q'"
    using assms(2) start_run_step [of marshal env ords allow flt flt' k t u body q r d req]
      cancel_steps [of flt flt' i q _ d req] delete_steps [of flt q i r d req] by blast
  moreover have "q_reach req q'" using assms(1) q'(1) unfolding q_reach_def by (meson rtranclp_trans)
  moreover have "in_flight q' = in_flight q" using q'(3) by (simp add: same_work_def in_flight_def)
  ultimately show ?thesis by blast
qed

theorem handlers_are_queue_steps_witness:
  "\<exists>q'. q_reach (\<lambda>_. Inl (RpcError '''')) q' \<and> length (db_runs (qs_db q')) = 1 \<and> in_flight q' = []"
proof -
  let ?q = "queue_Start None 5 empty_db"
  have d: "qs_db ?q = empty_db"
    by (simp add: queue_Start_def NewQueue_def FailInterruptedRuns_def update_where_def) (simp add: empty_db_def)
  have ok: "db_ok empty_db" "named empty_db" by (auto simp: empty_db_def db_ok_def runs_ok_def users_ok_def plans_ok_def named_def)
  then have q: "q_reach (\<lambda>_. Inl (RpcError '''')) ?q" by (auto simp: q_reach_def)
  have "handleStartRun (\<lambda>_. ''{}'') [] (\<lambda>_. [''host'']) [''h''] None None 7 8 None (Inr demo_yaml) (qs_db ?q) =
     (writeJSON 202 (Started (''run-'' @ int_string 7) ''QUEUED'' 0),
      empty_db\<lparr>db_runs := [run_of_request (\<lambda>_. ''{}'') 7 8 None demo_yaml demo_scenario]\<rparr>)" unfolding d by (rule demo_submitted)
  from handlers_are_queue_steps [OF q disjI1 [OF this]] obtain q' where
    "q_reach (\<lambda>_. Inl (RpcError '''')) q'" "qs_db q' = empty_db\<lparr>db_runs := [run_of_request (\<lambda>_. ''{}'') 7 8 None demo_yaml demo_scenario]\<rparr>"
    "in_flight q' = in_flight ?q" by blast
  moreover have "in_flight ?q = []" by (simp add: queue_Start_def NewQueue_def)
  ultimately show ?thesis by (intro exI [of _ q']) simp
qed

section \<open>Requests without a session\<close>

text \<open>No path has an open and a protected handler.\<close>

lemma find_route_in: "find_route rs m segs = Some (ep, i) \<Longrightarrow> \<exists>pm ps. ((pm, ps), ep) \<in> set rs \<and> match_segments ps segs = Some i"
  by (induction rs m segs rule: find_route.induct) (auto split: if_splits option.splits)

definition protected_areas :: "string list" where
  "protected_areas = [''workers'', ''runs'', ''plans'', ''users'']"

fun in_area :: "string option list \<Rightarrow> bool" where
  "in_area (Some a # Some x # ps) = (a = ''api'' \<and> x \<in> set protected_areas)"
| "in_area _ = False"

lemma protected_in_area: "list_all (\<lambda>((pm, ps), ep). in_area ps) protected_routes"
  by (simp add: protected_routes_def protected_areas_def)

lemma in_areaE:
  assumes "in_area ps"
  obtains x ps' where "ps = Some ''api'' # Some x # ps'" "x \<in> set protected_areas"
  using assms by (cases ps rule: in_area.cases) auto

lemma open_not_protected:
  assumes "find_route protected_routes m segs = Some (ep, i)"
  shows "find_route open_routes m segs = None"
proof -
  obtain pm ps where "((pm, ps), ep) \<in> set protected_routes" and m: "match_segments ps segs = Some i"
    using find_route_in [OF assms] by blast
  then have "in_area ps" using protected_in_area by (fastforce simp: list_all_iff)
  then obtain x ps' where ps: "ps = Some ''api'' # Some x # ps'" and x: "x \<in> set protected_areas" by (rule in_areaE)
  from m obtain rest where "segs = ''api'' # x # rest" unfolding ps
    by (cases segs rule: remdups_adj.cases) (auto split: if_splits)
  moreover have "''health'' \<noteq> x" "''auth'' \<noteq> x" using x by (auto simp: protected_areas_def)
  ultimately show ?thesis by (simp add: open_routes_def)
qed

definition without_session :: "outside \<Rightarrow> http_request \<Rightarrow> api_server \<Rightarrow> bool" where
  "without_session ou rq s \<longleftrightarrow>
     (case hr_Cookie rq of None \<Rightarrow> True | Some c \<Rightarrow> isl (UserForSession (ou_flt0 ou) (hashToken c) (unix_milli (ou_checked ou)) (sv_db s)))"

lemma requireAuth_without:
  assumes "without_session ou rq s" and "au_Enabled (sv_auth s)"
  shows "\<exists>r. requireAuth (sv_auth s) sv_db (ou_flt0 ou) (ou_checked ou) (hr_Cookie rq) h s = (r, s) \<and> rp_code r = 401"
  using assms by (auto simp: requireAuth_def without_session_def writeError_def writeJSON_def isl_def split: option.splits sum.splits)

lemma login_db:
  assumes "handleLogin idkey a flt flt' rand now body d = Some (r, d')"
  shows "d' = d \<or> (\<exists>u name pw tok t. u \<in> set (db_users d) \<and> body = Inr (name, pw) \<and> VerifyPassword idkey pw (us_PasswordHash u) = Some True
    \<and> d' = d\<lparr>db_sessions := db_sessions d @ [\<lparr>ss_TokenHash = tok, ss_UserID = us_ID u, ss_ExpiresAt = t\<rparr>]\<rparr>)"
proof (cases "d' = d")
  case False
  have C: "d'' = d" if "CreateSession f tok j t d = (Inl e, d'')" for f tok j t e d''
    using that by (auto simp: CreateSession_def split: option.splits if_splits)
  obtain name pw where b: "body = Inr (name, pw)" using assms False by (cases body) (auto simp: handleLogin_def)
  obtain u where u: "GetUserByName flt (trim_space name) d = Inr u"
    using assms False b by (auto simp: handleLogin_def split: sum.splits)
  have v: "VerifyPassword idkey pw (us_PasswordHash u) = Some True"
    using assms False b u by (auto simp: handleLogin_def split: option.splits bool.splits)
  obtain tok where t: "newToken rand = Inr tok" using assms False b u v by (cases "newToken rand") (auto simp: handleLogin_def)
  obtain x where "CreateSession flt' (hashToken tok) (us_ID u) (unix_milli (now + au_SessionTTL a)) d = (Inr x, d')"
    using assms False b u v t C by (auto simp: handleLogin_def split: prod.splits sum.splits)
  from CreateSession_Inr(1) [OF this] GetUserByName_in [OF u] b v show ?thesis by blast
qed simp

text \<open>C7: With authentication enabled, a request without a live session gets no protected handler to run:
  it is answered 401 and nothing changes. The open handlers change nothing but the table of sessions, and
  a session they add is one for a user whose password the request carries.\<close>

theorem requests_without_session:
  assumes "au_Enabled (sv_auth s)" and "without_session ou rq s" and "serve ou rq s = Some (r, s')"
  shows "(find_route protected_routes (hr_Method rq) (hr_Segments rq) \<noteq> None \<longrightarrow> rp_code r = 401 \<and> s' = s)
    \<and> s' = s\<lparr>sv_db := sv_db s\<lparr>db_sessions := db_sessions (sv_db s')\<rparr>\<rparr>
    \<and> (\<forall>x \<in> set (db_sessions (sv_db s')). x \<in> set (db_sessions (sv_db s)) \<or>
        (\<exists>u \<in> set (db_users (sv_db s)). ss_UserID x = us_ID u
          \<and> (\<exists>name pw. ou_credentials ou (hr_Body rq) = Inr (name, pw) \<and> VerifyPassword (ou_idkey ou) pw (us_PasswordHash u) = Some True)))"
proof (cases "find_route protected_routes (hr_Method rq) (hr_Segments rq)")
  case (Some p)
  obtain ep i where p: "p = (ep, i)" by fastforce
  with Some open_not_protected have "find_route open_routes (hr_Method rq) (hr_Segments rq) = None" by blast
  with assms(3) Some p requireAuth_without [OF assms(2,1), of "protected_handler ou rq i ep"] show ?thesis
    by (auto simp: serve_def)
next
  case None
  show ?thesis
  proof (cases "find_route open_routes (hr_Method rq) (hr_Segments rq)")
    case open_none: None
    with assms(3) None have "s' = s" by (auto simp: serve_def split: option.splits if_splits)
    with None show ?thesis by simp
  next
    case open_some: (Some p)
    obtain ep i where p: "p = (ep, i)" by fastforce
    with assms(3) open_some have h: "open_handler ou rq ep s = Some (r, s')" by (simp add: serve_def)
    show ?thesis
    proof (cases ep)
      case EpLogin
      with h obtain d' where l: "handleLogin (ou_idkey ou) (sv_auth s) (ou_flt1 ou) (ou_flt2 ou) (ou_rand ou) (ou_now ou)
        (ou_credentials ou (hr_Body rq)) (sv_db s) = Some (r, d')" and s': "s' = s\<lparr>sv_db := d'\<rparr>" by auto
      from login_db [OF l] None show ?thesis unfolding s' by auto
    next
      case EpLogout
      with h None show ?thesis
        by (auto simp: on_db_def handleLogout_def DeleteSession_def split: option.splits prod.splits if_splits)
    qed (use h None in auto)
  qed
qed

definition demo_outside :: outside where
  "demo_outside = \<lparr>ou_checked = 0, ou_now = 0, ou_then = 1, ou_rand = Inr [7], ou_idkey = toy_idkey, ou_flt0 = None, ou_flt1 = None, ou_flt2 = None,
     ou_credentials = \<lambda>b. Inl b, ou_planPayload = \<lambda>b. Inl b, ou_spec = \<lambda>b. Inr demo_yaml, ou_marshal = \<lambda>p. ''{}'',
     ou_env = [], ou_ords = \<lambda>_. [''host''], ou_workers = Inr [], ou_status = Inl '''', ou_stop = Inl ''''\<rparr>"

definition demo_api :: api_server where
  "demo_api = \<lparr>sv_auth = demo_auth, sv_allow = [''h''], sv_ui = None, sv_db = ann_db, sv_current = '''', sv_sessions = []\<rparr>"

definition post_run :: http_request where
  "post_run = \<lparr>hr_Method = ''POST'', hr_Path = ''/api/runs'', hr_Segments = [''api'', ''runs''], hr_Query = \<lambda>_. '''', hr_Cookie = None, hr_Body = ''''\<rparr>"

lemma post_run_route: "find_route protected_routes ''POST'' [''api'', ''runs''] = Some (EpStartRun, '''')"
  by (simp add: protected_routes_def method_matches_def)

theorem requests_without_session_witness:
  "\<exists>r. serve demo_outside post_run demo_api = Some (r, demo_api) \<and> rp_code r = 401"
proof -
  have route: "find_route protected_routes (hr_Method post_run) (hr_Segments post_run) = Some (EpStartRun, '''')"
    by (simp add: post_run_def post_run_route)
  have n: "without_session demo_outside post_run demo_api" by (simp add: without_session_def post_run_def)
  obtain r s where s: "serve demo_outside post_run demo_api = Some (r, s)"
    using open_not_protected [OF route] route by (cases "requireAuth (sv_auth demo_api) sv_db (ou_flt0 demo_outside) (ou_checked demo_outside)
      (hr_Cookie post_run) (protected_handler demo_outside post_run '''' EpStartRun) demo_api") (simp add: serve_def)
  have "au_Enabled (sv_auth demo_api)" by (simp add: demo_api_def demo_auth_def)
  from requests_without_session [OF this n s] route s show ?thesis by auto
qed

section \<open>Event streams\<close>

definition is_end :: "event \<Rightarrow> bool" where
  "is_end ev \<longleftrightarrow> event_type ev = ''end''"

lemma is_end_simps [simp]: "is_end (EndEvent s)" "\<not> is_end (StatusEvent st)" "\<not> is_end (MetricsEvent m)"
  by (simp_all add: is_end_def)

lemma stream_loop_end:
  "stream_loop (map FromChannel buf @ [ChannelClosed]) =
     (takeWhile (\<lambda>ev. \<not> is_end ev) buf @ take 1 (dropWhile (\<lambda>ev. \<not> is_end ev) buf), True)"
  by (induction buf) (auto simp: is_end_def split: prod.splits)

lemma one_end: "list_all (\<lambda>ev. \<not> is_end ev) (butlast (takeWhile (\<lambda>ev. \<not> is_end ev) buf @ take 1 (dropWhile (\<lambda>ev. \<not> is_end ev) buf)))"
proof (cases "dropWhile (\<lambda>ev. \<not> is_end ev) buf")
  case Nil
  show ?thesis unfolding Nil by (auto simp: list_all_iff dest!: in_set_butlastD set_takeWhileD)
qed (auto simp: list_all_iff butlast_append dest: set_takeWhileD)

text \<open>A run that is no longer queued, or can no longer be read, ends the wait at the latest when it is polled.\<close>

definition left_queue :: "string \<Rightarrow> poll \<Rightarrow> bool" where
  "left_queue testID p = (case GetRun (po_flt p) testID (po_db p) of Inl e \<Rightarrow> True | Inr run \<Rightarrow> rw_Status run \<noteq> ''QUEUED'')"

lemma awaitDispatch_ends:
  "awaitDispatch testID ps = (evs, res) \<Longrightarrow> \<exists>p \<in> set ps. left_queue testID p \<Longrightarrow>
     res \<noteq> WaitingOn \<and> list_all (\<lambda>ev. \<not> is_end ev) (butlast evs) \<and> (res = Dispatched \<longrightarrow> list_all (\<lambda>ev. \<not> is_end ev) evs)
     \<and> length evs \<le> length ps"
proof (induction ps arbitrary: evs)
  case (Cons p ps)
  show ?case
  proof (cases "left_queue testID p")
    case True
    with Cons.prems(1) show ?thesis by (auto simp: left_queue_def split: sum.splits if_splits)
  next
    case False
    then obtain run where r: "GetRun (po_flt p) testID (po_db p) = Inr run" "rw_Status run = ''QUEUED''"
      by (auto simp: left_queue_def split: sum.splits)
    obtain evs' res' where w: "awaitDispatch testID ps = (evs', res')" by fastforce
    from False Cons.prems(2) have "\<exists>p \<in> set ps. left_queue testID p" by simp
    from Cons.IH [OF _ this, of evs'] Cons.prems(1) r w show ?thesis
      by (cases "po_gone p") auto
  qed
qed simp

text \<open>C37: A stream ends. Once the run has left the queue and its recording has closed the channel, the
  dashboard has been sent at most one event of type end, as the last one; that event may be missing when
  the dashboard's buffer was full, but the stream is over all the same.\<close>

theorem streams_end:
  assumes "live \<or> (\<exists>p \<in> set polls. left_queue testID p)"
  shows "snd (handleStreamRun live testID polls (map FromChannel buf @ [ChannelClosed]))
    \<and> list_all (\<lambda>ev. \<not> is_end ev) (butlast (fst (handleStreamRun live testID polls (map FromChannel buf @ [ChannelClosed]))))"
proof (cases live)
  case True
  then show ?thesis using one_end [of buf] by (simp add: handleStreamRun_def stream_loop_end)
next
  case False
  obtain evs res where a: "awaitDispatch testID polls = (evs, res)" by fastforce
  from awaitDispatch_ends [OF a] assms False have
    res: "res \<noteq> WaitingOn" "list_all (\<lambda>ev. \<not> is_end ev) (butlast evs)" "res = Dispatched \<Longrightarrow> list_all (\<lambda>ev. \<not> is_end ev) evs"
    by auto
  have app: "list_all P xs \<Longrightarrow> list_all P (butlast ys) \<Longrightarrow> list_all P (butlast (xs @ ys))" for P and xs ys :: "event list"
    by (auto simp: butlast_append list_all_iff dest: in_set_butlastD)
  show ?thesis
  proof (cases res)
    case Dispatched
    with res(3) app [OF _ one_end] show ?thesis using False by (simp add: handleStreamRun_def a stream_loop_end)
  qed (use res False in \<open>auto simp: handleStreamRun_def a\<close>)
qed

theorem streams_end_witness:
  "let (evs, over) = handleStreamRun False ''t''
     [\<lparr>po_flt = None, po_flt' = None, po_db = empty_db\<lparr>db_runs := [zero_run\<lparr>rw_ID := ''t'', rw_Status := ''QUEUED''\<rparr>]\<rparr>, po_live = False, po_gone = False\<rparr>,
      \<lparr>po_flt = None, po_flt' = None, po_db = one_running, po_live = True, po_gone = False\<rparr>]
     (map FromChannel [MetricsEvent some_metrics, EndEvent ''COMPLETED''] @ [ChannelClosed])
   in over \<and> length evs = 3"
proof -
  let ?ps = "[\<lparr>po_flt = None, po_flt' = None, po_db = empty_db\<lparr>db_runs := [zero_run\<lparr>rw_ID := ''t'', rw_Status := ''QUEUED''\<rparr>]\<rparr>, po_live = False, po_gone = False\<rparr>,
      \<lparr>po_flt = None, po_flt' = None, po_db = one_running, po_live = True, po_gone = False\<rparr>]"
  have q: "find_run ''t'' (empty_db\<lparr>db_runs := [zero_run\<lparr>rw_ID := ''t'', rw_Status := ''QUEUED''\<rparr>]\<rparr>) = Some (zero_run\<lparr>rw_ID := ''t'', rw_Status := ''QUEUED''\<rparr>)"
    by (simp add: find_run_def zero_run_def)
  have l: "left_queue ''t'' (last ?ps)" by (simp add: left_queue_def GetRun_def one_running_found)
  have "\<exists>p \<in> set ?ps. left_queue ''t'' p" using l by simp
  from streams_end [OF disjI2 [OF this], of False "[MetricsEvent some_metrics, EndEvent ''COMPLETED'']"]
  show ?thesis by (simp add: handleStreamRun_def GetRun_def q one_running_found)
qed

section \<open>Frames\<close>

text \<open>
  The receiving side, after the specification of server-sent events: a line is a field, its name ends
  at the first colon and a space after it is dropped; an empty line delivers the event, unless
  there is no data. Lines end at a line feed.
\<close>

definition field_name :: "string \<Rightarrow> string" where
  "field_name l = takeWhile (\<lambda>c. c \<noteq> CHR '':'') l"

definition field_value :: "string \<Rightarrow> string" where
  "field_value l = (let v = drop 1 (dropWhile (\<lambda>c. c \<noteq> CHR '':'') l) in if has_prefix v '' '' then drop 1 v else v)"

fun sse_feed :: "string \<Rightarrow> string list \<Rightarrow> string list \<Rightarrow> (string \<times> string list) list" where
  "sse_feed ty dt [] = []"
| "sse_feed ty dt (l # ls) =
     (if l = '''' then (if dt = [] then sse_feed '''' [] ls else (ty, dt) # sse_feed '''' [] ls)
      else if field_name l = ''event'' then sse_feed (field_value l) dt ls
      else if field_name l = ''data'' then sse_feed ty (dt @ [field_value l]) ls
      else sse_feed ty dt ls)"

definition sse_events :: "string \<Rightarrow> (string \<times> string list) list" where
  "sse_events stream = sse_feed '''' [] (split_on newline stream)"

lemma split_line: "newline \<notin> set l \<Longrightarrow> split_on newline (l @ newline # rest) = l # split_on newline rest"
  by (rule split_on_append)

lemma frame_fields:
  "field_name (''event: '' @ t) = ''event''" "field_value (''event: '' @ t) = t"
  "field_name (''data: '' @ b) = ''data''" "field_value (''data: '' @ b) = b"
  by (simp_all add: field_name_def field_value_def has_prefix_def)

lemma no_newline: "newline \<notin> set (event_type ev)" "newline \<notin> set ''event: ''" "newline \<notin> set ''data: ''" "newline \<notin> set ''''"
  by (cases ev; simp add: newline_def char_of_eq_iff) (simp_all add: newline_def char_of_eq_iff)

lemma sse_frame:
  assumes "newline \<notin> set body"
  shows "sse_events ((''event: '' @ event_type ev @ [newline] @ ''data: '' @ body @ [newline, newline]) @ rest)
    = (event_type ev, [body]) # sse_events rest"
proof -
  let ?e = "''event: '' @ event_type ev" and ?d = "''data: '' @ body"
  have n: "newline \<notin> set ?e" "newline \<notin> set ?d" "newline \<notin> set ''''" using no_newline assms by auto
  have "(''event: '' @ event_type ev @ [newline] @ ''data: '' @ body @ [newline, newline]) @ rest = ?e @ newline # ?d @ newline # '''' @ newline # rest"
    by simp
  then have "split_on newline ((''event: '' @ event_type ev @ [newline] @ ''data: '' @ body @ [newline, newline]) @ rest)
    = ?e # ?d # '''' # split_on newline rest"
    by (simp only: split_line [OF n(1)] split_line [OF n(2)] split_line [OF n(3)])
  then show ?thesis using frame_fields [of "event_type ev"] frame_fields(3,4) [of body] by (simp add: sse_events_def)
qed

text \<open>C36: What a dashboard reads back from the stream are exactly the events that were sent, in order, with
  their types and payloads, less those whose payload cannot be encoded.\<close>

theorem frames_round_trip:
  assumes "\<And>ev body. marshal ev = Some body \<Longrightarrow> newline \<notin> set body"
  shows "sse_events (concat (map (sendEvent marshal) evs)) =
    concat (map (\<lambda>ev. case marshal ev of None \<Rightarrow> [] | Some body \<Rightarrow> [(event_type ev, [body])]) evs)"
proof (induction evs)
  case Nil
  show ?case by (simp add: sse_events_def)
next
  case (Cons ev evs)
  show ?case
  proof (cases "marshal ev")
    case None
    with Cons show ?thesis by (simp add: sendEvent_def)
  next
    case (Some body)
    have "sse_events (sendEvent marshal ev @ rest) = (event_type ev, [body]) # sse_events rest" for rest
      using sse_frame [OF assms [OF Some]] by (simp only: sendEvent_def Some option.case)
    with Cons Some show ?thesis by simp
  qed
qed

theorem frames_round_trip_witness:
  "sse_events (concat (map (sendEvent (\<lambda>ev. case ev of EndEvent s \<Rightarrow> Some ''over'' | _ \<Rightarrow> None)) [MetricsEvent some_metrics, EndEvent ''COMPLETED'']))
    = [(''end'', [''over''])]"
proof -
  have "newline \<notin> set ''over''" by (simp add: newline_def char_of_eq_iff)
  then show ?thesis
    by (subst frames_round_trip) (auto split: event.splits)
qed

end
