(* ===== verification/Config.thy ===== *)
theory Config
  imports Scenario_DSL
begin

text \<open>
  The configuration of \<open>pkg/config/config.go\<close>. A setting comes from the environment, else from the
  file, else from the defaults, as viper documents; an empty variable counts as none. The conversion
  of a setting to a Go value is the library's and a parameter (\<open>casts\<close>); a missing setting is
  \<open>None\<close>.
\<close>

section \<open>The structure\<close>

record orchestrator_config =
  oc_Address :: string
  oc_Port :: int
  oc_MetricsPort :: int
  oc_WorkerTimeout :: duration
  oc_HealthCheckInterval :: duration

record worker_config =
  wc_ID :: string
  wc_Address :: string
  wc_Port :: int
  wc_MaxVUs :: int
  wc_OrchestratorURL :: string
  wc_HeartbeatInterval :: duration

record api_config =
  ac_Address :: string
  ac_Port :: int
  ac_OrchestratorURL :: string
  ac_DBPath :: string
  ac_AuthEnabled :: bool
  ac_SessionTTL :: duration
  ac_BootstrapUser :: string
  ac_BootstrapPassword :: string
  ac_AllowedTargets :: "string list"
  ac_TLSCert :: string
  ac_TLSKey :: string

record cli_config =
  lc_OrchestratorURL :: string
  lc_RefreshInterval :: duration

record etcd_config =
  ec_Endpoints :: "string list"
  ec_DialTimeout :: duration
  ec_Prefix :: string

record tracing_config =
  tc_Enabled :: bool
  tc_Endpoint :: string
  tc_ServiceName :: string
  tc_Environment :: string

record logging_config =
  gc_Level :: string
  gc_Development :: bool

record config =
  cf_Orchestrator :: orchestrator_config
  cf_Worker :: worker_config
  cf_CLI :: cli_config
  cf_API :: api_config
  cf_Etcd :: etcd_config
  cf_Tracing :: tracing_config
  cf_Logging :: logging_config

section \<open>Settings\<close>

datatype setting = SText string | SNum int | SFlag bool | SList "string list"

definition defaults :: "(string, setting) gomap" where
  "defaults =
     [(''orchestrator.address'', SText ''0.0.0.0''),
      (''orchestrator.port'', SNum 50051),
      (''orchestrator.metrics_port'', SNum 9090),
      (''orchestrator.worker_timeout'', SText ''30s''),
      (''orchestrator.health_check_interval'', SText ''5s''),
      (''worker.port'', SNum 50052),
      (''worker.max_vus'', SNum 1000),
      (''worker.heartbeat_interval'', SText ''10s''),
      (''api.address'', SText ''0.0.0.0''),
      (''api.port'', SNum 8090),
      (''api.orchestrator_url'', SText ''localhost:50051''),
      (''api.db_path'', SText ''gosentinel.db''),
      (''api.auth_enabled'', SFlag True),
      (''api.session_ttl'', SText ''168h''),
      (''api.allowed_targets'', SList []),
      (''cli.orchestrator_url'', SText ''localhost:50051''),
      (''cli.refresh_interval'', SText ''1s''),
      (''etcd.endpoints'', SList [''localhost:2379'']),
      (''etcd.dial_timeout'', SText ''5s''),
      (''etcd.prefix'', SText ''/gosentinel''),
      (''tracing.enabled'', SFlag True),
      (''tracing.endpoint'', SText ''localhost:4317''),
      (''tracing.service_name'', SText ''gosentinel''),
      (''tracing.environment'', SText ''development''),
      (''logging.level'', SText ''info''),
      (''logging.development'', SFlag False)]"

definition env_key :: "string \<Rightarrow> string" where
  "env_key key = ''GOSENTINEL_'' @ to_upper (replace_all key ''.'' ''_'')"

record casts =
  ca_string :: "setting option \<Rightarrow> string"
  ca_int :: "setting option \<Rightarrow> int"
  ca_bool :: "setting option \<Rightarrow> bool"
  ca_duration :: "setting option \<Rightarrow> duration"
  ca_slice :: "setting option \<Rightarrow> string list"

definition lookup :: "(string, string) gomap \<Rightarrow> (string, setting) gomap \<Rightarrow> string \<Rightarrow> setting option" where
  "lookup env file key =
     (case map_of env (env_key key) of
        Some v \<Rightarrow> if v \<noteq> '''' then Some (SText v)
          else (case map_of file key of Some s \<Rightarrow> Some s | None \<Rightarrow> map_of defaults key)
      | None \<Rightarrow> (case map_of file key of Some s \<Rightarrow> Some s | None \<Rightarrow> map_of defaults key))"

text \<open>\<open>stringSlice\<close>: the inner and the outer loop.\<close>

fun split_parts :: "string list \<Rightarrow> string list" where
  "split_parts [] = []"
| "split_parts (part # parts) =
     (let p = trim_space part in if p \<noteq> '''' then p # split_parts parts else split_parts parts)"

fun split_raws :: "string list \<Rightarrow> string list" where
  "split_raws [] = []"
| "split_raws (raw # raws) = split_parts (split_on (CHR '','') raw) @ split_raws raws"

definition stringSlice :: "casts \<Rightarrow> (string \<Rightarrow> setting option) \<Rightarrow> string \<Rightarrow> string list" where
  "stringSlice c get key = split_raws (ca_slice c (get key))"

section \<open>Loading\<close>

datatype config_file = FileMissing | FileBroken string | FileRead "(string, setting) gomap"

definition build_config :: "casts \<Rightarrow> (string \<Rightarrow> setting option) \<Rightarrow> config" where
  "build_config c get =
     \<lparr>cf_Orchestrator =
        \<lparr>oc_Address = ca_string c (get ''orchestrator.address''),
         oc_Port = ca_int c (get ''orchestrator.port''),
         oc_MetricsPort = ca_int c (get ''orchestrator.metrics_port''),
         oc_WorkerTimeout = ca_duration c (get ''orchestrator.worker_timeout''),
         oc_HealthCheckInterval = ca_duration c (get ''orchestrator.health_check_interval'')\<rparr>,
      cf_Worker =
        \<lparr>wc_ID = ca_string c (get ''worker.id''),
         wc_Address = ca_string c (get ''worker.address''),
         wc_Port = ca_int c (get ''worker.port''),
         wc_MaxVUs = ca_int c (get ''worker.max_vus''),
         wc_OrchestratorURL = ca_string c (get ''worker.orchestrator_url''),
         wc_HeartbeatInterval = ca_duration c (get ''worker.heartbeat_interval'')\<rparr>,
      cf_CLI =
        \<lparr>lc_OrchestratorURL = ca_string c (get ''cli.orchestrator_url''),
         lc_RefreshInterval = ca_duration c (get ''cli.refresh_interval'')\<rparr>,
      cf_API =
        \<lparr>ac_Address = ca_string c (get ''api.address''),
         ac_Port = ca_int c (get ''api.port''),
         ac_OrchestratorURL = ca_string c (get ''api.orchestrator_url''),
         ac_DBPath = ca_string c (get ''api.db_path''),
         ac_AuthEnabled = ca_bool c (get ''api.auth_enabled''),
         ac_SessionTTL = ca_duration c (get ''api.session_ttl''),
         ac_BootstrapUser = ca_string c (get ''api.bootstrap_user''),
         ac_BootstrapPassword = ca_string c (get ''api.bootstrap_password''),
         ac_AllowedTargets = stringSlice c get ''api.allowed_targets'',
         ac_TLSCert = ca_string c (get ''api.tls_cert''),
         ac_TLSKey = ca_string c (get ''api.tls_key'')\<rparr>,
      cf_Etcd =
        \<lparr>ec_Endpoints = ca_slice c (get ''etcd.endpoints''),
         ec_DialTimeout = ca_duration c (get ''etcd.dial_timeout''),
         ec_Prefix = ca_string c (get ''etcd.prefix'')\<rparr>,
      cf_Tracing =
        \<lparr>tc_Enabled = ca_bool c (get ''tracing.enabled''),
         tc_Endpoint = ca_string c (get ''tracing.endpoint''),
         tc_ServiceName = ca_string c (get ''tracing.service_name''),
         tc_Environment = ca_string c (get ''tracing.environment'')\<rparr>,
      cf_Logging =
        \<lparr>gc_Level = ca_string c (get ''logging.level''),
         gc_Development = ca_bool c (get ''logging.development'')\<rparr>\<rparr>"

definition Load :: "casts \<Rightarrow> (string, string) gomap \<Rightarrow> config_file \<Rightarrow> string + config" where
  "Load c env file =
     (case file of
        FileBroken e \<Rightarrow> Inl (''error reading config file: '' @ e)
      | FileMissing \<Rightarrow> Inr (build_config c (lookup env []))
      | FileRead settings \<Rightarrow> Inr (build_config c (lookup env settings)))"

datatype config_error = OrchestratorPort | WorkerPort | NoEndpoints

definition config_Validate :: "config \<Rightarrow> config_error option" where
  "config_Validate c =
     (if oc_Port (cf_Orchestrator c) \<le> 0 then Some OrchestratorPort
      else if wc_Port (cf_Worker c) \<le> 0 then Some WorkerPort
      else if length (ec_Endpoints (cf_Etcd c)) = 0 then Some NoEndpoints
      else None)"

text \<open>\<open>time.NewTicker\<close> at the head of \<open>healthCheckLoop\<close> panics on an interval that is not positive.\<close>

definition health_check_starts :: "config \<Rightarrow> bool" where
  "health_check_starts c \<longleftrightarrow> 0 < oc_HealthCheckInterval (cf_Orchestrator c)"

section \<open>The conversions that are relied on\<close>

text \<open>\<open>strings.Fields\<close>.\<close>

function fields :: "string \<Rightarrow> string list" where
  "fields s =
     (let t = dropWhile is_space s
      in if t = [] then [] else takeWhile (\<lambda>c. \<not> is_space c) t # fields (dropWhile (\<lambda>c. \<not> is_space c) t))"
  by pat_completeness auto
termination
proof (relation "measure length")
  fix s t :: string
  assume t: "t = dropWhile is_space s" and "t \<noteq> []"
  then have "\<not> is_space (hd t)" using hd_dropWhile [of is_space s] by simp
  with \<open>t \<noteq> []\<close> have "length (dropWhile (\<lambda>c. \<not> is_space c) t) < length t"
    by (cases t) (auto simp: le_imp_less_Suc length_dropWhile_le)
  also have "length t \<le> length s" by (simp add: t length_dropWhile_le)
  finally show "(dropWhile (\<lambda>c. \<not> is_space c) t, s) \<in> measure length" by simp
qed simp

declare fields.simps [simp del]

text \<open>What \<open>spf13/cast\<close> documents of texts, numbers, flags and missing values.\<close>

definition casts_ok :: "casts \<Rightarrow> bool" where
  "casts_ok c \<longleftrightarrow>
     (\<forall>s. ca_string c (Some (SText s)) = s) \<and> ca_string c None = ''''
     \<and> (\<forall>n. ca_int c (Some (SNum n)) = n) \<and> (\<forall>b. ca_bool c (Some (SFlag b)) = b)
     \<and> (\<forall>s d. parse_duration s = Inr d \<longrightarrow> ca_duration c (Some (SText s)) = d)
     \<and> (\<forall>xs. ca_slice c (Some (SList xs)) = xs) \<and> (\<forall>s. ca_slice c (Some (SText s)) = fields s)"

text \<open>Conversions that meet it: text that is no duration gives zero.\<close>

definition std_casts :: casts where
  "std_casts =
     \<lparr>ca_string = \<lambda>v. (case v of Some (SText s) \<Rightarrow> s | _ \<Rightarrow> ''''),
      ca_int = \<lambda>v. (case v of Some (SNum n) \<Rightarrow> n | _ \<Rightarrow> 0),
      ca_bool = \<lambda>v. (case v of Some (SFlag b) \<Rightarrow> b | _ \<Rightarrow> False),
      ca_duration = \<lambda>v. (case v of Some (SText s) \<Rightarrow> (case parse_duration s of Inr d \<Rightarrow> d | Inl _ \<Rightarrow> 0) | _ \<Rightarrow> 0),
      ca_slice = \<lambda>v. (case v of Some (SList xs) \<Rightarrow> xs | Some (SText s) \<Rightarrow> fields s | _ \<Rightarrow> [])\<rparr>"

lemma std_casts_ok: "casts_ok std_casts"
  by (simp add: casts_ok_def std_casts_def)

section \<open>Lists of hosts\<close>

text \<open>A text that a list separated by commas or by white space can hold.\<close>

definition list_item :: "string \<Rightarrow> bool" where
  "list_item s \<longleftrightarrow> s \<noteq> [] \<and> CHR '','' \<notin> set s \<and> (\<forall>c \<in> set s. \<not> is_space c)"

fun join_comma :: "string list \<Rightarrow> string" where
  "join_comma [] = []"
| "join_comma [s] = s"
| "join_comma (s # t # ts) = s @ CHR '','' # join_comma (t # ts)"

lemma item_trim: "list_item s \<Longrightarrow> trim_space s = s"
proof -
  assume s: "list_item s"
  then have "\<not> is_space (hd s)" "\<not> is_space (hd (rev s))" by (auto simp: list_item_def hd_rev)
  then have "dropWhile is_space s = s" "dropWhile is_space (rev s) = rev s" by (simp_all add: dropWhile_eq_self_iff)
  then show "trim_space s = s" by (simp add: trim_space_def)
qed

lemma split_join: "\<forall>s \<in> set ss. list_item s \<Longrightarrow> ss \<noteq> [] \<Longrightarrow> split_on (CHR '','') (join_comma ss) = ss"
  by (induction ss rule: join_comma.induct) (auto simp: list_item_def split_on_no split_on_append)

lemma split_parts_items: "\<forall>s \<in> set ss. list_item s \<Longrightarrow> split_parts ss = ss"
  by (induction ss) (auto simp: item_trim list_item_def)

lemma join_no_space: "\<forall>s \<in> set ss. list_item s \<Longrightarrow> c \<in> set (join_comma ss) \<Longrightarrow> \<not> is_space c"
proof (induction ss rule: join_comma.induct)
  case (3 s t ts)
  then show ?case by (auto simp: list_item_def is_space_def byte_def)
qed (auto simp: list_item_def)

lemma join_ne: "\<forall>s \<in> set ss. list_item s \<Longrightarrow> ss \<noteq> [] \<Longrightarrow> join_comma ss \<noteq> []"
  by (cases ss rule: join_comma.cases) (auto simp: list_item_def)

lemma fields_one: "s \<noteq> [] \<Longrightarrow> \<forall>c \<in> set s. \<not> is_space c \<Longrightarrow> fields s = [s]"
proof -
  assume s: "s \<noteq> []" "\<forall>c \<in> set s. \<not> is_space c"
  have d: "dropWhile is_space s = s" using s by (cases s) auto
  have t: "takeWhile (\<lambda>c. \<not> is_space c) s = s" "dropWhile (\<lambda>c. \<not> is_space c) s = []" using s(2) by simp_all
  have "fields [] = []" by (subst fields.simps) simp
  moreover have "fields s = takeWhile (\<lambda>c. \<not> is_space c) s # fields (dropWhile (\<lambda>c. \<not> is_space c) s)"
    using s(1) by (subst fields.simps) (simp only: d Let_def if_False)
  ultimately show "fields s = [s]" by (simp only: t)
qed

text \<open>A list of targets in the environment, separated by commas, becomes exactly the list of
  patterns, whatever the file says. The same text for the etcd endpoints becomes one endpoint, because
  only the targets are split at commas.\<close>

theorem lists_from_environment:
  assumes "casts_ok c" and "hosts \<noteq> []" and "\<forall>s \<in> set hosts. list_item s"
    and "map_of env (env_key ''api.allowed_targets'') = Some (join_comma hosts)"
    and "map_of env (env_key ''etcd.endpoints'') = Some (join_comma hosts)"
    and "Load c env file = Inr cfg"
  shows "ac_AllowedTargets (cf_API cfg) = hosts \<and> ec_Endpoints (cf_Etcd cfg) = [join_comma hosts]"
proof -
  obtain settings where cfg: "cfg = build_config c (lookup env settings)"
    using assms(6) by (auto simp: Load_def split: config_file.splits)
  have ne: "join_comma hosts \<noteq> []" using join_ne assms(2,3) by blast
  have f: "fields (join_comma hosts) = [join_comma hosts]" using fields_one [OF ne] join_no_space [OF assms(3)] by blast
  have "lookup env settings ''api.allowed_targets'' = Some (SText (join_comma hosts))"
    "lookup env settings ''etcd.endpoints'' = Some (SText (join_comma hosts))"
    using assms(4,5) ne by (simp_all add: lookup_def)
  then have "ca_slice c (lookup env settings ''api.allowed_targets'') = [join_comma hosts]"
    "ca_slice c (lookup env settings ''etcd.endpoints'') = [join_comma hosts]"
    using assms(1) f by (simp_all add: casts_ok_def)
  then show ?thesis
    using split_join [OF assms(3,2)] split_parts_items [OF assms(3)] by (simp add: cfg build_config_def stringSlice_def)
qed

theorem lists_from_environment_witness:
  "ec_Endpoints (cf_Etcd (build_config std_casts (lookup
     [(env_key ''api.allowed_targets'', ''a:2379,b:2379''), (env_key ''etcd.endpoints'', ''a:2379,b:2379'')] []))) = [''a:2379,b:2379'']"
proof -
  let ?env = "[(env_key ''api.allowed_targets'', ''a:2379,b:2379''), (env_key ''etcd.endpoints'', ''a:2379,b:2379'')]"
  have j: "join_comma [''a:2379'', ''b:2379''] = ''a:2379,b:2379''" by simp
  have i: "\<forall>s \<in> set [''a:2379'', ''b:2379'']. list_item s" by (simp add: list_item_def is_space_def byte_def)
  have k: "env_key ''api.allowed_targets'' \<noteq> env_key ''etcd.endpoints''"
    by (simp add: env_key_def to_upper_def replace_all.simps has_prefix_def upper_char_def byte_def char_of_eq_iff)
  then have "map_of ?env (env_key ''api.allowed_targets'') = Some (join_comma [''a:2379'', ''b:2379''])"
    "map_of ?env (env_key ''etcd.endpoints'') = Some (join_comma [''a:2379'', ''b:2379''])" by auto
  from lists_from_environment [OF std_casts_ok _ i this, of FileMissing] show ?thesis by (simp add: Load_def)
qed

section \<open>Defaults and validation\<close>

lemma default_durations:
  "parse_duration ''30s'' = Inr 30000000000" "parse_duration ''5s'' = Inr 5000000000" "parse_duration ''168h'' = Inr 604800000000000"
  by (simp_all add: parse_duration_def parse_units.simps parse_component_def is_digit_def byte_def digit_val_def Let_def
        fraction_part_def unit_char_def unit_map_def component_value_def)

text \<open>Without any configuration the configuration is valid, the health check runs every five seconds
  with a limit of thirty, every endpoint is behind a login that lasts a week, and any target is allowed.\<close>

theorem default_configuration:
  assumes "casts_ok c"
  shows "\<exists>cfg. Load c [] FileMissing = Inr cfg \<and> config_Validate cfg = None \<and> health_check_starts cfg
    \<and> oc_HealthCheckInterval (cf_Orchestrator cfg) = 5 * second \<and> oc_WorkerTimeout (cf_Orchestrator cfg) = 30 * second
    \<and> ac_AuthEnabled (cf_API cfg) \<and> ac_SessionTTL (cf_API cfg) = 7 * 24 * 3600 * second
    \<and> ac_AllowedTargets (cf_API cfg) = []"
  using assms
  by (simp add: Load_def build_config_def lookup_def defaults_def casts_ok_def default_durations config_Validate_def
      health_check_starts_def stringSlice_def second_def)

theorem default_configuration_witness:
  "\<exists>cfg. Load std_casts [] FileMissing = Inr cfg \<and> config_Validate cfg = None"
  using default_configuration [OF std_casts_ok] by blast

text \<open>An interval that is no duration counts as zero: the configuration still passes validation, and
  the health check panics when it makes its ticker.\<close>

theorem bad_interval_passes_validation:
  assumes "casts_ok c" and "ca_duration c (Some (SText s)) = 0" and "s \<noteq> ''''"
    and "Load c [(env_key ''orchestrator.health_check_interval'', s)] FileMissing = Inr cfg"
  shows "config_Validate cfg = None \<and> \<not> health_check_starts cfg"
proof -
  let ?i = "env_key ''orchestrator.health_check_interval''"
  have k: "env_key ''orchestrator.port'' \<noteq> ?i" "env_key ''worker.port'' \<noteq> ?i" "env_key ''etcd.endpoints'' \<noteq> ?i"
    by (simp_all add: env_key_def to_upper_def replace_all.simps has_prefix_def upper_char_def byte_def char_of_eq_iff)
  have cfg: "cfg = build_config c (lookup [(?i, s)] [])" using assms(4) by (simp add: Load_def)
  have "lookup [(?i, s)] [] ''orchestrator.health_check_interval'' = Some (SText s)" using assms(3) by (simp add: lookup_def)
  moreover have "lookup [(?i, s)] [] ''orchestrator.port'' = Some (SNum 50051)" "lookup [(?i, s)] [] ''worker.port'' = Some (SNum 50052)"
    "lookup [(?i, s)] [] ''etcd.endpoints'' = Some (SList [''localhost:2379''])"
    using k by (simp_all add: lookup_def defaults_def)
  ultimately show ?thesis
    using assms(1,2) by (simp add: cfg build_config_def config_Validate_def health_check_starts_def casts_ok_def)
qed

theorem bad_interval_passes_validation_witness:
  "\<not> health_check_starts (build_config std_casts (lookup [(env_key ''orchestrator.health_check_interval'', ''five'')] []))"
proof -
  have "parse_duration ''five'' = Inl e \<Longrightarrow> ca_duration std_casts (Some (SText ''five'')) = 0" for e by (simp add: std_casts_def)
  moreover have "isl (parse_duration ''five'')"
    by (simp add: parse_duration_def parse_units.simps parse_component_def is_digit_def byte_def Let_def
        fraction_part_def unit_char_def unit_map_def component_value_def)
  ultimately have "ca_duration std_casts (Some (SText ''five'')) = 0" by (auto simp: isl_def)
  from bad_interval_passes_validation [OF std_casts_ok this] show ?thesis by (simp add: Load_def)
qed

end
