(* ===== verification/Api_Main.thy ===== *)
theory Api_Main
  imports Api_Handlers Config
begin

text \<open>
  The start of the API server: \<open>main\<close> of \<open>cmd/api/main.go\<close> up to the point where it serves. The
  configuration, the database and the frontend are what their packages return; \<open>createUser\<close> is the
  flag. What can fail before it, a logger, client or frontend that cannot be made, and how the process
  ends are in \<open>Api_Process\<close>.
\<close>

datatype startup_error =
    BadConfig string
  | BadDatabase string
  | UserNotCreated account_error
  | NoAccount account_error

datatype started =
    UserCreated db
  | Serving api_server

text \<open>\<open>flt\<close>, \<open>flt'\<close> are the faults of the account's statements, \<open>fltq\<close> that of \<open>queue.Start\<close>.\<close>

definition useTLS :: "config \<Rightarrow> bool" where
  "useTLS cfg \<longleftrightarrow> ac_TLSCert (cf_API cfg) \<noteq> '''' \<and> ac_TLSKey (cf_API cfg) \<noteq> ''''"

definition New :: "config \<Rightarrow> (string \<Rightarrow> stat_result) option \<Rightarrow> db \<Rightarrow> api_server" where
  "New cfg ui d =
     \<lparr>sv_auth = \<lparr>au_Enabled = ac_AuthEnabled (cf_API cfg), au_SessionTTL = ac_SessionTTL (cf_API cfg), au_SecureCookies = useTLS cfg\<rparr>,
      sv_allow = NewAllowlist (ac_AllowedTargets (cf_API cfg)), sv_ui = ui, sv_db = d, sv_current = '''', sv_sessions = []\<rparr>"

definition server_Start :: "fault \<Rightarrow> int64 \<Rightarrow> api_server \<Rightarrow> api_server" where
  "server_Start fltq now s = s\<lparr>sv_db := qs_db (queue_Start fltq now (sv_db s)), sv_current := qs_current (queue_Start fltq now (sv_db s))\<rparr>"

definition api_main ::
  "idkey \<Rightarrow> fault \<Rightarrow> fault \<Rightarrow> fault \<Rightarrow> string + nat list \<Rightarrow> int64 \<Rightarrow> string + config \<Rightarrow> string + db \<Rightarrow> (string \<Rightarrow> stat_result) option
     \<Rightarrow> string \<Rightarrow> string \<Rightarrow> string + string \<Rightarrow> startup_error + started" where
  "api_main idkey flt flt' fltq rand now loaded opened ui createUser envPassword line =
     (case loaded of
        Inl e \<Rightarrow> Inl (BadConfig e)
      | Inr cfg \<Rightarrow>
          (case opened of
             Inl e \<Rightarrow> Inl (BadDatabase e)
           | Inr d \<Rightarrow>
               if createUser \<noteq> ''''
               then (case addUser idkey flt rand now envPassword line createUser d of
                       (Inl e, d') \<Rightarrow> Inl (UserNotCreated e)
                     | (Inr _, d') \<Rightarrow> Inr (UserCreated d'))
               else if ac_AuthEnabled (cf_API cfg)
               then (case BootstrapUser idkey flt flt' rand now (ac_BootstrapUser (cf_API cfg)) (ac_BootstrapPassword (cf_API cfg)) d of
                       (Inl e, d') \<Rightarrow> Inl (NoAccount e)
                     | (Inr _, d') \<Rightarrow> Inr (Serving (server_Start fltq now (New cfg ui d'))))
               else Inr (Serving (server_Start fltq now (New cfg ui d)))))"

section \<open>What a server starts with\<close>

lemma BootstrapUser_users:
  "BootstrapUser idkey flt flt' rand now n p d = (Inr b, d') \<Longrightarrow> db_users d' \<noteq> [] \<and> db_runs d' = db_runs d"
  by (auto simp: BootstrapUser_def CountUsers_def CreateUser_def Let_def split: sum.splits option.splits if_splits prod.splits)

lemma server_Start_sel [simp]:
  "sv_auth (server_Start f now s) = sv_auth s" "sv_allow (server_Start f now s) = sv_allow s"
  "sv_current (server_Start f now s) = ''''" "db_users (sv_db (server_Start f now s)) = db_users (sv_db s)"
  by (simp_all add: server_Start_def queue_Start_def NewQueue_def FailInterruptedRuns_def split: option.split)

lemma no_running_left: "r \<in> set (db_runs (qs_db (queue_Start None now d))) \<Longrightarrow> rw_Status r \<noteq> ''RUNNING''"
  by (auto simp: queue_Start_def NewQueue_def FailInterruptedRuns_def update_where_def)

text \<open>C38: A server that serves with authentication has an account to sign in with, sets secure cookies
  exactly when it serves TLS itself, checks targets against the configured patterns, has no run in flight,
  and no run of a previous life is still said to be running.\<close>

theorem started_server_is_reachable:
  assumes "api_main idkey flt flt' None rand now (Inr cfg) opened ui createUser envPassword line = Inr (Serving s)"
  shows "(au_Enabled (sv_auth s) \<longrightarrow> db_users (sv_db s) \<noteq> [])
    \<and> au_Enabled (sv_auth s) = ac_AuthEnabled (cf_API cfg)
    \<and> (au_SecureCookies (sv_auth s) \<longleftrightarrow> ac_TLSCert (cf_API cfg) \<noteq> '''' \<and> ac_TLSKey (cf_API cfg) \<noteq> '''')
    \<and> sv_allow s = NewAllowlist (ac_AllowedTargets (cf_API cfg))
    \<and> sv_current s = '''' \<and> (\<forall>r \<in> set (db_runs (sv_db s)). rw_Status r \<noteq> ''RUNNING'')"
proof -
  obtain d where s: "s = server_Start None now (New cfg ui d)" and u: "ac_AuthEnabled (cf_API cfg) \<Longrightarrow> db_users d \<noteq> []"
    using assms BootstrapUser_users by (auto simp: api_main_def split: sum.splits prod.splits if_splits)
  have "rw_Status r \<noteq> ''RUNNING''" if "r \<in> set (db_runs (sv_db s))" for r
    using that no_running_left by (simp add: s server_Start_def New_def)
  then show ?thesis using u by (simp add: s New_def useTLS_def)
qed

theorem started_server_is_reachable_witness:
  "\<exists>s. api_main toy_idkey None None None (Inr [4]) 0 (Inr (build_config std_casts (lookup [] []))) (Inr ann_db) None '''' '''' (Inl '''') = Inr (Serving s)
     \<and> au_Enabled (sv_auth s) \<and> db_users (sv_db s) \<noteq> []"
proof -
  let ?cfg = "build_config std_casts (lookup [] [])"
  have a: "ac_AuthEnabled (cf_API ?cfg)" by (simp add: build_config_def lookup_def defaults_def std_casts_def)
  have "api_main toy_idkey None None None (Inr [4]) 0 (Inr ?cfg) (Inr ann_db) None '''' '''' (Inl '''') = Inr (Serving (server_Start None 0 (New ?cfg None ann_db)))"
    using a by (simp add: api_main_def BootstrapUser_def CountUsers_def ann_db_def)
  with started_server_is_reachable [OF this] a show ?thesis by blast
qed

end
