(* ===== verification/Tui.thy ===== *)
theory Tui
  imports Models Go_Strings
begin

text \<open>
  The terminal dashboard: \<open>internal/tui/dashboard.go\<close>, \<open>metrics_view.go\<close> and \<open>nodes_view.go\<close>. The
  program's messages change a model, and the model asks for commands; the views are texts. A panic
  is \<open>None\<close>. The layout library and \<open>fmt\<close>'s \<open>%.2f\<close> are parameters (\<open>layout\<close>): a style with the width
  and height it was given, applied to a text, and the two joins.
\<close>

section \<open>Views\<close>

datatype style =
    TitleStyle | SuccessStyle | WarningStyle | ErrorStyle | HelpStyle | MetricLabelStyle | MetricValueStyle
  | TableHeaderStyle | TableRowStyle | BorderStyle
  | Width style int
  | Height style int

record layout =
  ly_Render :: "style \<Rightarrow> string \<Rightarrow> string"
  ly_JoinVertical :: "string list \<Rightarrow> string"
  ly_JoinHorizontal :: "string list \<Rightarrow> string"
  ly_Fixed2 :: "f64 \<Rightarrow> string"

text \<open>\<open>strings.Join\<close>, and \<open>strings.Repeat\<close>, which panics on a negative count.\<close>

fun str_join :: "string \<Rightarrow> string list \<Rightarrow> string" where
  "str_join sep [] = ''''"
| "str_join sep [s] = s"
| "str_join sep (s # t # ts) = s @ sep @ str_join sep (t # ts)"

definition str_repeat :: "string \<Rightarrow> int \<Rightarrow> string option" where
  "str_repeat s n = (if n < 0 then None else Some (concat (replicate (nat n) s)))"

record metrics_view =
  mv_metrics :: metric_snapshot
  mv_width :: int
  mv_height :: int

definition NewMetricsView :: metrics_view where
  "NewMetricsView = \<lparr>mv_metrics = zero_snapshot, mv_width = 0, mv_height = 0\<rparr>"

definition mv_UpdateMetrics :: "metric_snapshot \<Rightarrow> metrics_view \<Rightarrow> metrics_view" where
  "mv_UpdateMetrics m mv = mv\<lparr>mv_metrics := m\<rparr>"

definition mv_SetSize :: "int \<Rightarrow> int \<Rightarrow> metrics_view \<Rightarrow> metrics_view" where
  "mv_SetSize w h mv = mv\<lparr>mv_width := w, mv_height := h\<rparr>"

definition metric_row :: "layout \<Rightarrow> string \<Rightarrow> style \<Rightarrow> string \<Rightarrow> string" where
  "metric_row ly label st value = ly_Render ly MetricLabelStyle label @ '' '' @ ly_Render ly st value"

definition renderRPS :: "layout \<Rightarrow> metrics_view \<Rightarrow> string" where
  "renderRPS ly mv =
     (let title = ly_Render ly TitleStyle ''Requests Per Second'';
          rps = ms_RPS (mv_metrics mv);
          rows = [metric_row ly ''Current:'' MetricValueStyle (ly_Fixed2 ly (rps_Current rps)),
                  metric_row ly ''Average:'' MetricValueStyle (ly_Fixed2 ly (rps_Average rps)),
                  metric_row ly ''Peak:'' MetricValueStyle (ly_Fixed2 ly (rps_Peak rps))]
      in ly_JoinVertical ly [title, str_join [char_of (10 :: nat)] rows])"

definition renderLatency :: "layout \<Rightarrow> metrics_view \<Rightarrow> string" where
  "renderLatency ly mv =
     (let title = ly_Render ly TitleStyle ''Latency (ms)'';
          lat = ms_Latency (mv_metrics mv);
          row = \<lambda>label d. metric_row ly label MetricValueStyle (int_string (to_ms d));
          rows = [row ''Min:'' (lat_Min lat), row ''Mean:'' (lat_Mean lat), row ''Max:'' (lat_Max lat),
                  row ''P50:'' (lat_P50 lat), row ''P95:'' (lat_P95 lat), row ''P99:'' (lat_P99 lat)]
      in ly_JoinVertical ly [title, str_join [char_of (10 :: nat)] rows])"

definition errorStyle :: "f64 \<Rightarrow> style" where
  "errorStyle pct = (if f64_less (Fin 5) pct then ErrorStyle else if f64_less (Fin 1) pct then WarningStyle else SuccessStyle)"

definition renderErrorRate :: "layout \<Rightarrow> metrics_view \<Rightarrow> string" where
  "renderErrorRate ly mv =
     (let title = ly_Render ly TitleStyle ''Error Rate'';
          m = mv_metrics mv;
          st = errorStyle (er_Percentage (ms_ErrorRate m));
          rows = [metric_row ly ''Rate:'' st (ly_Fixed2 ly (er_Rate (ms_ErrorRate m)) @ ''/s''),
                  metric_row ly ''Percentage:'' st (ly_Fixed2 ly (er_Percentage (ms_ErrorRate m)) @ ''%''),
                  metric_row ly ''Total Errors:'' MetricValueStyle (int_string (ms_TotalErrors m)),
                  metric_row ly ''Total Requests:'' MetricValueStyle (int_string (ms_TotalRequests m))]
      in ly_JoinVertical ly [title, str_join [char_of (10 :: nat)] rows])"

definition metrics_View :: "layout \<Rightarrow> metrics_view \<Rightarrow> string" where
  "metrics_View ly mv =
     (if mv_width mv = 0 \<or> mv_height mv = 0 then ''''
      else ly_Render ly (Height (Width BorderStyle (mv_width mv - 4)) (mv_height mv - 2))
             (str_join [char_of (10 :: nat), char_of (10 :: nat)] [renderRPS ly mv, renderLatency ly mv, renderErrorRate ly mv]))"

record nodes_view =
  nv_nodes :: "worker_node list"
  nv_width :: int
  nv_height :: int

definition NewNodesView :: nodes_view where
  "NewNodesView = \<lparr>nv_nodes = [], nv_width = 0, nv_height = 0\<rparr>"

definition nv_UpdateNodes :: "worker_node list \<Rightarrow> nodes_view \<Rightarrow> nodes_view" where
  "nv_UpdateNodes ns nv = nv\<lparr>nv_nodes := ns\<rparr>"

definition nv_SetSize :: "int \<Rightarrow> int \<Rightarrow> nodes_view \<Rightarrow> nodes_view" where
  "nv_SetSize w h nv = nv\<lparr>nv_width := w, nv_height := h\<rparr>"

fun statusStyle :: "worker_status \<Rightarrow> style" where
  "statusStyle WorkerStatusRunning = SuccessStyle"
| "statusStyle WorkerStatusError = ErrorStyle"
| "statusStyle WorkerStatusStopping = WarningStyle"
| "statusStyle WorkerStatusIdle = HelpStyle"
| "statusStyle (WorkerStatusOther s) = HelpStyle"

definition node_row :: "layout \<Rightarrow> worker_node \<Rightarrow> string" where
  "node_row ly node = str_join '' | ''
     [ly_Render ly (Width TableRowStyle 20) (wn_ID node),
      ly_Render ly (Width TableRowStyle 25) (wn_Address node),
      ly_Render ly (Width (statusStyle (wn_Status node)) 10) (worker_status_string (wn_Status node)),
      ly_Render ly (Width TableRowStyle 10) (int_string (wn_MaxVUs node))]"

definition nodes_View :: "layout \<Rightarrow> nodes_view \<Rightarrow> string option" where
  "nodes_View ly nv =
     (if nv_width nv = 0 \<or> nv_height nv = 0 then Some ''''
      else
        let title = ly_Render ly TitleStyle ''Worker Nodes'';
            border = Height (Width BorderStyle (nv_width nv - 4)) (nv_height nv - 2)
        in if nv_nodes nv = []
           then Some (ly_Render ly border (ly_JoinVertical ly [title, ly_Render ly HelpStyle ''No worker nodes connected'']))
           else
             let header = str_join '' | ''
                   [ly_Render ly (Width TableHeaderStyle 20) ''Node ID'', ly_Render ly (Width TableHeaderStyle 25) ''Address'',
                    ly_Render ly (Width TableHeaderStyle 10) ''Status'', ly_Render ly (Width TableHeaderStyle 10) ''Max VUs''];
                 rows = map (node_row ly) (nv_nodes nv)
             in case str_repeat ''-'' (nv_width nv - 4) of
                  None \<Rightarrow> None
                | Some separator \<Rightarrow>
                    Some (ly_Render ly border (ly_JoinVertical ly [title, str_join [char_of (10 :: nat)] ([header, separator] @ rows)])))"

section \<open>The dashboard\<close>

record tui_model =
  tm_metricsView :: metrics_view
  tm_nodesView :: nodes_view
  tm_width :: int
  tm_height :: int
  tm_paused :: bool
  tm_testID :: string
  tm_metrics :: metric_snapshot
  tm_nodes :: "worker_node list"

definition NewModel :: "string \<Rightarrow> tui_model" where
  "NewModel testID = \<lparr>tm_metricsView = NewMetricsView, tm_nodesView = NewNodesView, tm_width = 0, tm_height = 0, tm_paused = False,
     tm_testID = testID, tm_metrics = zero_snapshot, tm_nodes = []\<rparr>"

datatype tui_msg =
    WindowSizeMsg int int
  | TickMsg
  | MetricsUpdateMsg metric_snapshot
  | NodesUpdateMsg "worker_node list"
  | KeyMsg string
  | OtherMsg

datatype tui_cmd = NoCmd | Tick | Quit

definition tui_Init :: "tui_model \<Rightarrow> tui_cmd list" where
  "tui_Init m = [Tick]"

fun Update :: "tui_msg \<Rightarrow> tui_model \<Rightarrow> tui_model \<times> tui_cmd" where
  "Update (WindowSizeMsg w h) m =
     (m\<lparr>tm_metricsView := mv_SetSize (go_div w 2 - 2) (h - 10) (tm_metricsView m),
        tm_nodesView := nv_SetSize (go_div w 2 - 2) (h - 10) (tm_nodesView m),
        tm_width := w, tm_height := h\<rparr>, NoCmd)"
| "Update TickMsg m = (if \<not> tm_paused m then (m, Tick) else (m, NoCmd))"
| "Update (MetricsUpdateMsg s) m =
     (m\<lparr>tm_metricsView := mv_UpdateMetrics s (tm_metricsView m), tm_metrics := s\<rparr>, NoCmd)"
| "Update (NodesUpdateMsg ns) m =
     (m\<lparr>tm_nodesView := nv_UpdateNodes ns (tm_nodesView m), tm_nodes := ns\<rparr>, NoCmd)"
| "Update (KeyMsg k) m =
     (if k = ''q'' \<or> k = ''ctrl+c'' then (m, Quit)
      else if k = ''p'' then (m\<lparr>tm_paused := \<not> tm_paused m\<rparr>, if tm_paused m then Tick else NoCmd)
      else if k = ''r'' then (m\<lparr>tm_metricsView := mv_UpdateMetrics zero_snapshot (tm_metricsView m), tm_metrics := zero_snapshot\<rparr>, NoCmd)
      else (m, NoCmd))"
| "Update OtherMsg m = (m, NoCmd)"

definition renderHeader :: "layout \<Rightarrow> tui_model \<Rightarrow> string" where
  "renderHeader ly m =
     (let title = ly_Render ly TitleStyle ''GoSentinel Load Testing Dashboard'';
          status = (if tm_paused m then ly_Render ly WarningStyle ''PAUSED'' else ly_Render ly SuccessStyle ''RUNNING'')
      in ly_JoinHorizontal ly [title, ''  '', ''Test ID: '' @ tm_testID m @ '' | Status: '' @ status])"

definition renderFooter :: "layout \<Rightarrow> string" where
  "renderFooter ly = ly_Render ly HelpStyle ''Press 'q' to quit, 'p' to pause, 'r' to reset''"

definition tui_View :: "layout \<Rightarrow> tui_model \<Rightarrow> string option" where
  "tui_View ly m =
     (if tm_width m = 0 \<or> tm_height m = 0 then Some ''Initializing...''
      else (case nodes_View ly (tm_nodesView m) of
              None \<Rightarrow> None
            | Some nodesContent \<Rightarrow>
                Some (ly_JoinVertical ly
                  [renderHeader ly m,
                   ly_JoinHorizontal ly [metrics_View ly (tm_metricsView m), ''  '', nodesContent],
                   renderFooter ly])))"

section \<open>The event loop\<close>

text \<open>The runtime runs commands: a tick command delivers one tick message later. \<open>tl_ticks\<close> counts
  the commands that have not delivered theirs.\<close>

record tui_loop =
  tl_model :: tui_model
  tl_ticks :: nat
  tl_quit :: bool

definition tui_start :: "string \<Rightarrow> tui_loop" where
  "tui_start testID = \<lparr>tl_model = NewModel testID, tl_ticks = 1, tl_quit = False\<rparr>"

definition after_cmd :: "tui_model \<times> tui_cmd \<Rightarrow> tui_loop \<Rightarrow> tui_loop" where
  "after_cmd mc l = l\<lparr>tl_model := fst mc, tl_ticks := (if snd mc = Tick then Suc (tl_ticks l) else tl_ticks l),
     tl_quit := (tl_quit l \<or> snd mc = Quit)\<rparr>"

inductive tui_step :: "tui_loop \<Rightarrow> tui_loop \<Rightarrow> bool" where
  ticked: "\<not> tl_quit l \<Longrightarrow> tl_ticks l = Suc n \<Longrightarrow> tui_step l (after_cmd (Update TickMsg (tl_model l)) (l\<lparr>tl_ticks := n\<rparr>))"
| message: "\<not> tl_quit l \<Longrightarrow> msg \<noteq> TickMsg \<Longrightarrow> tui_step l (after_cmd (Update msg (tl_model l)) l)"

text \<open>The views hold what the model holds, and have the size the model gives them.\<close>

definition tui_ok :: "tui_loop \<Rightarrow> bool" where
  "tui_ok l \<longleftrightarrow> (let m = tl_model l in
     mv_metrics (tm_metricsView m) = tm_metrics m \<and> nv_nodes (tm_nodesView m) = tm_nodes m
     \<and> (tm_width m \<noteq> 0 \<and> tm_height m \<noteq> 0 \<longrightarrow>
          nv_width (tm_nodesView m) = go_div (tm_width m) 2 - 2 \<and> nv_height (tm_nodesView m) = tm_height m - 10)
     \<and> (\<not> tm_paused m \<and> \<not> tl_quit l \<longrightarrow> 0 < tl_ticks l))"

lemma tui_start_ok: "tui_ok (tui_start testID)"
  by (simp add: tui_ok_def tui_start_def NewModel_def NewMetricsView_def NewNodesView_def)

lemma tui_step_ok: "tui_step l l' \<Longrightarrow> tui_ok l \<Longrightarrow> tui_ok l'"
proof (induction rule: tui_step.induct)
  case (ticked l n)
  then show ?case by (auto simp: tui_ok_def after_cmd_def Let_def)
next
  case (message l msg)
  then show ?case
    by (cases msg) (auto simp: tui_ok_def after_cmd_def Let_def mv_SetSize_def nv_SetSize_def mv_UpdateMetrics_def nv_UpdateNodes_def)
qed

lemma tui_reach_ok: "tui_step\<^sup>*\<^sup>* (tui_start testID) l \<Longrightarrow> tui_ok l"
  by (induction rule: rtranclp_induct) (simp_all add: tui_start_ok tui_step_ok)

lemma narrow: "0 \<le> w \<Longrightarrow> w \<noteq> 0 \<and> w div 2 \<noteq> 2 \<and> w div 2 < 6 \<longleftrightarrow> w \<in> {1, 2, 3, 6, 7, 8, 9, 10, 11}" for w :: int
  by (simp only: insert_iff empty_iff) presburger

text \<open>The dashboard shows what it was last told, and while it is neither paused nor quit another tick
  is on its way. It panics exactly when it knows a worker and the terminal is narrower than twelve columns,
  other than four or five, and not ten lines high.\<close>

theorem dashboard_panics_when_narrow:
  assumes "tui_step\<^sup>*\<^sup>* (tui_start testID) l" and "0 \<le> tm_width (tl_model l)"
  shows "mv_metrics (tm_metricsView (tl_model l)) = tm_metrics (tl_model l)
    \<and> (\<not> tm_paused (tl_model l) \<and> \<not> tl_quit l \<longrightarrow> 0 < tl_ticks l)
    \<and> (tui_View ly (tl_model l) = None \<longleftrightarrow>
        tm_nodes (tl_model l) \<noteq> [] \<and> tm_width (tl_model l) \<in> {1, 2, 3, 6, 7, 8, 9, 10, 11} \<and> tm_height (tl_model l) \<notin> {0, 10})"
proof -
  let ?m = "tl_model l"
  have ok: "tui_ok l" by (rule tui_reach_ok [OF assms(1)])
  have d: "go_div (tm_width ?m) 2 = tm_width ?m div 2" using assms(2) by (simp add: go_div_def sgn_if abs_if)
  have "tui_View ly ?m = None \<longleftrightarrow> tm_width ?m \<noteq> 0 \<and> tm_height ?m \<noteq> 0 \<and> nodes_View ly (tm_nodesView ?m) = None"
    by (auto simp: tui_View_def split: option.splits)
  also have "\<dots> \<longleftrightarrow> tm_width ?m \<noteq> 0 \<and> tm_height ?m \<noteq> 0 \<and> nv_width (tm_nodesView ?m) \<noteq> 0 \<and> nv_height (tm_nodesView ?m) \<noteq> 0
      \<and> nv_nodes (tm_nodesView ?m) \<noteq> [] \<and> nv_width (tm_nodesView ?m) < 4"
    by (auto simp: nodes_View_def Let_def str_repeat_def split: option.splits)
  also have "\<dots> \<longleftrightarrow> tm_width ?m \<noteq> 0 \<and> tm_height ?m \<noteq> 0 \<and> tm_width ?m div 2 \<noteq> 2 \<and> tm_height ?m \<noteq> 10
      \<and> tm_nodes ?m \<noteq> [] \<and> tm_width ?m div 2 < 6"
    using ok unfolding tui_ok_def Let_def d by (cases "tm_width ?m \<noteq> 0 \<and> tm_height ?m \<noteq> 0") (auto; linarith)+
  also have "\<dots> \<longleftrightarrow> tm_nodes ?m \<noteq> [] \<and> tm_width ?m \<in> {1, 2, 3, 6, 7, 8, 9, 10, 11} \<and> tm_height ?m \<notin> {0, 10}"
    using narrow [OF assms(2)] by blast
  finally show ?thesis using ok by (simp add: tui_ok_def Let_def)
qed

definition plain_layout :: layout where
  "plain_layout = \<lparr>ly_Render = \<lambda>_ s. s, ly_JoinVertical = concat, ly_JoinHorizontal = concat, ly_Fixed2 = \<lambda>_. ''0.00''\<rparr>"

definition one_node :: worker_node where
  "one_node = \<lparr>wn_ID = ''w'', wn_Address = ''h:1'', wn_MaxVUs = 5, wn_Status = WorkerStatusIdle, wn_Metadata = [], wn_LastSeen = 0\<rparr>"

lemma press: "\<not> tl_quit l \<Longrightarrow> msg \<noteq> TickMsg \<Longrightarrow> tui_step\<^sup>*\<^sup>* l0 l \<Longrightarrow> tui_step\<^sup>*\<^sup>* l0 (after_cmd (Update msg (tl_model l)) l)"
  by (rule rtranclp.rtrancl_into_rtrancl) (auto intro: tui_step.message)

theorem dashboard_panics_when_narrow_witness:
  "tui_View plain_layout (fst (Update (WindowSizeMsg 10 24) (fst (Update (NodesUpdateMsg [one_node]) (NewModel ''t''))))) = None"
proof -
  let ?l0 = "tui_start ''t''"
  let ?l1 = "after_cmd (Update (NodesUpdateMsg [one_node]) (tl_model ?l0)) ?l0"
  let ?l2 = "after_cmd (Update (WindowSizeMsg 10 24) (tl_model ?l1)) ?l1"
  have "tui_step\<^sup>*\<^sup>* ?l0 ?l1" by (rule press) (simp_all add: tui_start_def)
  then have r: "tui_step\<^sup>*\<^sup>* ?l0 ?l2" by (intro press) (simp_all add: tui_start_def after_cmd_def)
  have m: "tl_model ?l2 = fst (Update (WindowSizeMsg 10 24) (fst (Update (NodesUpdateMsg [one_node]) (NewModel ''t''))))"
    by (simp add: after_cmd_def tui_start_def)
  have "0 \<le> tm_width (tl_model ?l2)" unfolding m by simp
  from dashboard_panics_when_narrow [OF r this, of plain_layout] show ?thesis unfolding m by simp
qed

text \<open>Ticks multiply: pausing and resuming before the next tick leaves one more tick on its way than
  before, so any number of them can be running at once, and none is ever lost while the dashboard runs.\<close>

theorem pausing_multiplies_ticks:
  "\<exists>l. tui_step\<^sup>*\<^sup>* (tui_start testID) l \<and> tl_ticks l = Suc n \<and> \<not> tm_paused (tl_model l) \<and> \<not> tl_quit l
    \<and> tl_model l = NewModel testID"
proof (induction n)
  case 0
  have "tl_ticks (tui_start testID) = Suc 0 \<and> \<not> tm_paused (tl_model (tui_start testID)) \<and> \<not> tl_quit (tui_start testID)
    \<and> tl_model (tui_start testID) = NewModel testID" by (simp add: tui_start_def NewModel_def)
  then show ?case by blast
next
  case (Suc n)
  then obtain l where l: "tui_step\<^sup>*\<^sup>* (tui_start testID) l" "tl_ticks l = Suc n" "\<not> tm_paused (tl_model l)" "\<not> tl_quit l"
    "tl_model l = NewModel testID" by blast
  let ?l1 = "after_cmd (Update (KeyMsg ''p'') (tl_model l)) l"
  let ?l2 = "after_cmd (Update (KeyMsg ''p'') (tl_model ?l1)) ?l1"
  have "tui_step\<^sup>*\<^sup>* (tui_start testID) ?l1" by (rule press) (use l in simp_all)
  then have "tui_step\<^sup>*\<^sup>* (tui_start testID) ?l2" by (intro press) (use l in \<open>simp_all add: after_cmd_def\<close>)
  moreover have "tl_ticks ?l2 = Suc (Suc n) \<and> \<not> tm_paused (tl_model ?l2) \<and> \<not> tl_quit ?l2 \<and> tl_model ?l2 = NewModel testID"
    using l by (simp add: after_cmd_def NewModel_def)
  ultimately show ?case by blast
qed

end
