(* ===== verification/Cli.thy ===== *)
theory Cli
  imports Tui Config Orchestrator_Server
begin

text \<open>
  The command line client of \<open>cmd/cli/main.go\<close>: its commands as functions of the configuration, the
  arguments and the orchestrator's answers (\<open>Inl\<close> is a failed call). Printed text is a list of lines.
  Connecting only fails for a malformed address and is part of the answer; the formatting of floats
  and of local times is \<open>fmt\<close>'s and \<open>time\<close>'s and a parameter. Padding counts bytes, as \<open>fmt\<close> does
  for ASCII text.
\<close>

section \<open>What the dashboard is fed with\<close>

definition protoToSnapshot :: "pb_snapshot \<Rightarrow> metric_snapshot" where
  "protoToSnapshot s =
     zero_snapshot\<lparr>
       ms_RPS := (case psn_Rps s of None \<Rightarrow> zero_rps
         | Some r \<Rightarrow> \<lparr>rps_Current = prps_Current r, rps_Average = prps_Average r, rps_Peak = prps_Peak r,
             rps_WindowSeconds = prps_WindowSeconds r\<rparr>),
       ms_Latency := (case psn_Latency s of None \<Rightarrow> zero_latency
         | Some l \<Rightarrow> \<lparr>lat_Min = from_ms (plat_MinMs l), lat_Max = from_ms (plat_MaxMs l), lat_Mean = from_ms (plat_MeanMs l),
             lat_P50 = from_ms (plat_P50Ms l), lat_P95 = from_ms (plat_P95Ms l), lat_P99 = from_ms (plat_P99Ms l),
             lat_P999 = from_ms (plat_P999Ms l), lat_Count = plat_Count l\<rparr>),
       ms_ErrorRate := (case psn_ErrorRate s of None \<Rightarrow> zero_error_rate
         | Some e \<Rightarrow> zero_error_rate\<lparr>er_Rate := per_Rate e, er_Percentage := per_Percentage e, er_ErrorMessages := per_ErrorMessages e\<rparr>),
       ms_TotalRequests := psn_TotalRequests s,
       ms_TotalErrors := psn_TotalErrors s,
       ms_Timestamp := time_unix_milli (psn_TimestampMs s)\<rparr>"

text \<open>What \<open>stream.Recv\<close> returns: an error, or a message with or without a snapshot.\<close>

fun streamMetrics :: "(string + pb_snapshot option) list \<Rightarrow> tui_msg list" where
  "streamMetrics [] = []"
| "streamMetrics (Inl e # rs) = []"
| "streamMetrics (Inr None # rs) = streamMetrics rs"
| "streamMetrics (Inr (Some s) # rs) = MetricsUpdateMsg (protoToSnapshot s) # streamMetrics rs"

definition worker_status_of :: "string \<Rightarrow> worker_status" where
  "worker_status_of s =
     (if s = ''idle'' then WorkerStatusIdle else if s = ''running'' then WorkerStatusRunning
      else if s = ''stopping'' then WorkerStatusStopping else if s = ''error'' then WorkerStatusError else WorkerStatusOther s)"

definition node_of :: "worker_info \<Rightarrow> worker_node" where
  "node_of w = \<lparr>wn_ID = wi_WorkerId w, wn_Address = wi_Address w, wn_MaxVUs = wi_MaxVus w,
     wn_Status = worker_status_of (wi_Status w), wn_Metadata = [], wn_LastSeen = zero_time\<rparr>"

text \<open>One round of the poll of the workers.\<close>

definition poll_nodes :: "string + worker_info list \<Rightarrow> tui_msg option" where
  "poll_nodes answer = (case answer of Inl e \<Rightarrow> None | Inr ws \<Rightarrow> Some (NodesUpdateMsg (map node_of ws)))"

section \<open>Commands\<close>

datatype cli_error =
    LoadFailed string
  | PlanFailed plan_error
  | DistributeCallFailed string
  | CallFailed string

text \<open>The address dialled, the plan submitted, and the dashboard that is started.\<close>

definition runTest ::
  "string + config \<Rightarrow> plan_error + scenario \<Rightarrow> string \<Rightarrow> int64 \<Rightarrow> (string \<Rightarrow> pb_test_plan \<Rightarrow> string + distribute_response)
     \<Rightarrow> cli_error + string \<times> pb_test_plan \<times> tui_model" where
  "runTest loaded parsed orchestratorURL now_s net =
     (case loaded of
        Inl e \<Rightarrow> Inl (LoadFailed e)
      | Inr cfg \<Rightarrow>
          (case parsed of
             Inl e \<Rightarrow> Inl (PlanFailed e)
           | Inr scenario \<Rightarrow>
               let url = (if orchestratorURL = '''' then lc_OrchestratorURL (cf_CLI cfg) else orchestratorURL);
                   plan = ScenarioToProto scenario (''test-'' @ int_string now_s)
               in case net url plan of
                    Inl e \<Rightarrow> Inl (DistributeCallFailed e)
                  | Inr resp \<Rightarrow> Inr (url, plan, NewModel (dr_TestId resp))))"

text \<open>\<open>None\<close> is a panic: \<open>ErrorRate\<close> is read without a check.\<close>

definition getStatus ::
  "(f64 \<Rightarrow> string) \<Rightarrow> string + config \<Rightarrow> string \<Rightarrow> string + test_status_response \<Rightarrow> (cli_error + string list) option" where
  "getStatus fixed2 loaded testID answer =
     (case loaded of
        Inl e \<Rightarrow> Some (Inl (LoadFailed e))
      | Inr cfg \<Rightarrow>
          (case answer of
             Inl e \<Rightarrow> Some (Inl (CallFailed e))
           | Inr resp \<Rightarrow>
               let out = [''Test ID: '' @ testID, ''Status: '' @ pb_status_string (tsr_Status resp),
                     ''Active Workers: '' @ int_string (tsr_ActiveWorkers resp), ''Total VUs: '' @ int_string (tsr_TotalVus resp)]
               in case tsr_CurrentMetrics resp of
                    None \<Rightarrow> Some (Inr out)
                  | Some m \<Rightarrow>
                      (case psn_Rps m of
                         None \<Rightarrow> Some (Inr out)
                       | Some rps \<Rightarrow>
                           (case psn_ErrorRate m of
                              None \<Rightarrow> None
                            | Some er \<Rightarrow> Some (Inr (out @ [''Current RPS: '' @ fixed2 (prps_Current rps),
                                ''Error Rate: '' @ fixed2 (per_Percentage er) @ ''%'']))))))"

definition pad :: "nat \<Rightarrow> string \<Rightarrow> string" where
  "pad n s = s @ replicate (n - length s) (CHR '' '')"

definition node_line :: "string \<Rightarrow> string \<Rightarrow> string \<Rightarrow> string \<Rightarrow> string \<Rightarrow> string" where
  "node_line a b c d e = pad 24 a @ '' '' @ pad 22 b @ '' '' @ pad 10 c @ '' '' @ pad 12 d @ '' '' @ pad 22 e"

definition listNodes :: "(int64 \<Rightarrow> string) \<Rightarrow> string + config \<Rightarrow> string + worker_info list \<Rightarrow> cli_error + string list" where
  "listNodes formatTime loaded answer =
     (case loaded of
        Inl e \<Rightarrow> Inl (LoadFailed e)
      | Inr cfg \<Rightarrow>
          (case answer of
             Inl e \<Rightarrow> Inl (CallFailed e)
           | Inr workers \<Rightarrow>
               if length workers = 0 then Inr [''No workers registered'']
               else Inr (node_line ''ID'' ''Address'' ''Max VUs'' ''Status'' ''Last Seen''
                 # node_line ''------------------------'' ''----------------------'' ''----------'' ''------------'' ''----------------------''
                 # map (\<lambda>w. node_line (wi_WorkerId w) (wi_Address w) (int_string (wi_MaxVus w)) (wi_Status w) (formatTime (wi_LastSeenMs w))) workers)))"

definition stopTest :: "string + config \<Rightarrow> string \<Rightarrow> string + stop_response \<Rightarrow> cli_error + string" where
  "stopTest loaded testID answer =
     (case loaded of
        Inl e \<Rightarrow> Inl (LoadFailed e)
      | Inr cfg \<Rightarrow>
          (case answer of
             Inl e \<Rightarrow> Inl (CallFailed e)
           | Inr resp \<Rightarrow>
               if sr_Success resp then Inr (''Test '' @ testID @ '' stopped successfully'')
               else Inr (''Failed to stop test: '' @ sr_Message resp)))"

section \<open>The client shows what the orchestrator holds\<close>

lemma go_div_bounds: "0 < b \<Longrightarrow> \<bar>go_div a b * b\<bar> \<le> \<bar>a\<bar>"
proof -
  assume b: "0 < b"
  have "\<bar>a\<bar> div b * b \<le> \<bar>a\<bar>" using b by (metis div_mult_mod_eq le_add_same_cancel1 pos_mod_sign)
  moreover have "\<bar>go_div a b * b\<bar> = \<bar>a\<bar> div b * b"
    using b by (cases "a = 0") (simp_all add: go_div_def abs_mult sgn_if pos_imp_zdiv_nonneg_iff)
  ultimately show ?thesis by simp
qed

lemma ms_round_trip: "in64 d \<Longrightarrow> to_ms (from_ms (to_ms d)) = to_ms d"
proof (rule to_ms_from_ms)
  assume "in64 d"
  moreover have "\<bar>to_ms d * millisecond\<bar> \<le> \<bar>d\<bar>" using go_div_bounds [of millisecond d] by (simp add: to_ms_def millisecond_def)
  ultimately show "in64 (to_ms d * millisecond)" by (cases "d = - (2 ^ 63)") (auto simp: in64_def to_ms_def millisecond_def go_div_def)
qed

lemma worker_status_of_string: "\<forall>s. st \<noteq> WorkerStatusOther s \<Longrightarrow> worker_status_of (worker_status_string st) = st"
  by (cases st) (simp_all add: worker_status_of_def)

text \<open>C40: The figures on the dashboard are those of the orchestrator: a snapshot sent over the stream is
  displayed as the aggregate it was made from would be, and the workers polled appear with the identifier,
  address, capacity and status they are registered with.\<close>

theorem cli_shows_orchestrator:
  assumes "\<forall>d \<in> {lat_Min (ms_Latency s), lat_Max (ms_Latency s), lat_Mean (ms_Latency s), lat_P50 (ms_Latency s),
      lat_P95 (ms_Latency s), lat_P99 (ms_Latency s)}. in64 d"
    and "\<forall>n \<in> set (GetNodes ord (sv_nodes sv)). \<forall>t. wn_Status n \<noteq> WorkerStatusOther t"
  shows "metrics_View ly (mv_UpdateMetrics (protoToSnapshot (proto_snapshot s)) mv) = metrics_View ly (mv_UpdateMetrics s mv)
    \<and> poll_nodes (Inr (ListWorkers ord sv)) =
        Some (NodesUpdateMsg (map (\<lambda>n. n\<lparr>wn_Metadata := [], wn_LastSeen := zero_time\<rparr>) (GetNodes ord (sv_nodes sv))))"
proof
  have "renderLatency ly (mv_UpdateMetrics (protoToSnapshot (proto_snapshot s)) mv) = renderLatency ly (mv_UpdateMetrics s mv)"
    using assms(1) by (simp add: renderLatency_def mv_UpdateMetrics_def protoToSnapshot_def proto_snapshot_def Let_def ms_round_trip)
  moreover have "renderRPS ly (mv_UpdateMetrics (protoToSnapshot (proto_snapshot s)) mv) = renderRPS ly (mv_UpdateMetrics s mv)"
    by (simp add: renderRPS_def mv_UpdateMetrics_def protoToSnapshot_def proto_snapshot_def Let_def)
  moreover have "renderErrorRate ly (mv_UpdateMetrics (protoToSnapshot (proto_snapshot s)) mv) = renderErrorRate ly (mv_UpdateMetrics s mv)"
    by (simp add: renderErrorRate_def mv_UpdateMetrics_def protoToSnapshot_def proto_snapshot_def Let_def)
  ultimately show "metrics_View ly (mv_UpdateMetrics (protoToSnapshot (proto_snapshot s)) mv) = metrics_View ly (mv_UpdateMetrics s mv)"
    unfolding metrics_View_def by (simp add: mv_UpdateMetrics_def)
  have "node_of \<lparr>wi_WorkerId = wn_ID n, wi_Address = wn_Address n, wi_MaxVus = wn_MaxVUs n,
       wi_Status = worker_status_string (wn_Status n), wi_LastSeenMs = unix_milli (wn_LastSeen n)\<rparr> = n\<lparr>wn_Metadata := [], wn_LastSeen := zero_time\<rparr>"
    if "n \<in> set (GetNodes ord (sv_nodes sv))" for n
    using assms(2) that worker_status_of_string [of "wn_Status n"] by (simp add: node_of_def)
  then show "poll_nodes (Inr (ListWorkers ord sv)) =
        Some (NodesUpdateMsg (map (\<lambda>n. n\<lparr>wn_Metadata := [], wn_LastSeen := zero_time\<rparr>) (GetNodes ord (sv_nodes sv))))"
    by (simp add: poll_nodes_def ListWorkers_def)
qed

theorem cli_shows_orchestrator_witness:
  "poll_nodes (Inr (ListWorkers [''w1'', ''w2''] demo_server)) =
     Some (NodesUpdateMsg (map (\<lambda>n. n\<lparr>wn_Metadata := [], wn_LastSeen := zero_time\<rparr>) (GetNodes [''w1'', ''w2''] (sv_nodes demo_server))))"
proof -
  have "\<forall>n \<in> set (GetNodes [''w1'', ''w2''] (sv_nodes demo_server)). \<forall>t. wn_Status n \<noteq> WorkerStatusOther t"
    by (simp add: GetNodes_def demo_server_def demo_nm_def demo_node_def)
  moreover have "\<forall>d \<in> {lat_Min (ms_Latency zero_snapshot), lat_Max (ms_Latency zero_snapshot), lat_Mean (ms_Latency zero_snapshot),
      lat_P50 (ms_Latency zero_snapshot), lat_P95 (ms_Latency zero_snapshot), lat_P99 (ms_Latency zero_snapshot)}. in64 d"
    by (simp add: zero_snapshot_def zero_latency_def in64_def)
  ultimately show ?thesis using cli_shows_orchestrator by blast
qed

text \<open>The status command does not panic on an answer of the orchestrator.\<close>

theorem status_command_safe:
  "getStatus fixed2 loaded testID (map_sum msg id (GetTestStatus ord sord testID sv)) \<noteq> None"
  by (cases "GetTestStatus ord sord testID sv")
    (auto simp: getStatus_def GetTestStatus_def proto_snapshot_def Let_def split: sum.splits option.splits)

end
