(* ===== verification/Dev_Orchestrator.thy ===== *)
theory Dev_Orchestrator
  imports Proto_Messages Node_Manager Go_Strings
begin

text \<open>
  The development orchestrator of \<open>cmd/orchestrator/main.go\<close>, which keeps everything in memory and
  calls no worker. Each handler is a function of the clock and the state; the handlers of tests take
  no lock in the source, so the steps are those of calls that do not overlap. The listener and the
  metrics ticker are I/O: a tick sends \<open>dev_stream_message\<close>.
\<close>

record dev_server =
  dv_tests :: "(string, pb_test_plan) gomap"
  dv_createdAt :: "(string, go_time) gomap"
  dv_workerCounts :: "(string, int32) gomap"
  dv_workers :: "(string, worker_info) gomap"

definition startDevOrchestrator :: dev_server where
  "startDevOrchestrator = \<lparr>dv_tests = [], dv_createdAt = [], dv_workerCounts = [], dv_workers = []\<rparr>"

text \<open>\<open>Inl\<close> is the error for a missing plan.\<close>

definition dev_DistributeTestPlan :: "go_time \<Rightarrow> pb_test_plan option \<Rightarrow> dev_server \<Rightarrow> (string + distribute_response) \<times> dev_server" where
  "dev_DistributeTestPlan now req dv =
     (case req of
        None \<Rightarrow> (Inl ''plan is required'', dv)
      | Some plan \<Rightarrow>
          let testID = (if ptp_Id plan = '''' then ''test-'' @ int_string now else ptp_Id plan);
              plan' = plan\<lparr>ptp_Id := testID\<rparr>
          in (Inr \<lparr>dr_TestId = testID, dr_WorkersAssigned = 3,
                   dr_WorkerVuDistribution = [(''worker-1'', 10), (''worker-2'', 10), (''worker-3'', 10)]\<rparr>,
              dv\<lparr>dv_tests := AList.update testID plan' (dv_tests dv),
                 dv_createdAt := AList.update testID now (dv_createdAt dv),
                 dv_workerCounts := AList.update testID 3 (dv_workerCounts dv)\<rparr>))"

definition dev_stream_message :: "go_time \<Rightarrow> pb_snapshot \<times> int64" where
  "dev_stream_message now =
     (\<lparr>psn_Rps = None, psn_Latency = None, psn_ErrorRate = None, psn_TotalRequests = 0, psn_TotalErrors = 0, psn_TimestampMs = 0\<rparr>,
      unix_milli now)"

definition dev_RegisterWorker :: "go_time \<Rightarrow> register_request \<Rightarrow> dev_server \<Rightarrow> dev_server" where
  "dev_RegisterWorker now req dv =
     dv\<lparr>dv_workers := AList.update (rr_WorkerId req)
       \<lparr>wi_WorkerId = rr_WorkerId req, wi_Address = rr_Address req, wi_MaxVus = rr_MaxVus req, wi_Status = ''idle'',
        wi_LastSeenMs = unix_milli now\<rparr> (dv_workers dv)\<rparr>"

definition dev_ListWorkers :: "string list \<Rightarrow> dev_server \<Rightarrow> worker_info list" where
  "dev_ListWorkers ord dv = map snd (range_entries ord (dv_workers dv))"

definition dev_ReportMetrics :: "go_time \<Rightarrow> pb_batch option \<Rightarrow> dev_server \<Rightarrow> bool \<times> dev_server" where
  "dev_ReportMetrics now batch dv =
     (case batch of
        None \<Rightarrow> (False, dv)
      | Some b \<Rightarrow>
          (case map_of (dv_workers dv) (pb_WorkerId b) of
             None \<Rightarrow> (True, dv)
           | Some w \<Rightarrow> (True, dv\<lparr>dv_workers := AList.update (pb_WorkerId b) (w\<lparr>wi_LastSeenMs := unix_milli now, wi_Status := ''running''\<rparr>) (dv_workers dv)\<rparr>)))"

definition dev_GetTestStatus :: "go_time \<Rightarrow> string \<Rightarrow> dev_server \<Rightarrow> test_status_response" where
  "dev_GetTestStatus now testID dv =
     (case map_of (dv_tests dv) testID of
        None \<Rightarrow> \<lparr>tsr_Status = UNKNOWN, tsr_ActiveWorkers = 0, tsr_TotalVus = 0, tsr_CurrentMetrics = None\<rparr>
      | Some plan \<Rightarrow>
          let created = get0 zero_time (dv_createdAt dv) testID;
              status = (if time_since now created > 30 * second then COMPLETED else RUNNING)
          in \<lparr>tsr_Status = status, tsr_ActiveWorkers = get0 0 (dv_workerCounts dv) testID,
              tsr_TotalVus = ptp_TotalVirtualUsers plan, tsr_CurrentMetrics = None\<rparr>)"

definition dev_StopTest :: "string \<Rightarrow> dev_server \<Rightarrow> stop_response \<times> dev_server" where
  "dev_StopTest testID dv =
     (\<lparr>sr_Success = True, sr_Message = ''dev mode - test removed''\<rparr>,
      dv\<lparr>dv_tests := AList.delete testID (dv_tests dv), dv_createdAt := AList.delete testID (dv_createdAt dv),
         dv_workerCounts := AList.delete testID (dv_workerCounts dv)\<rparr>)"

section \<open>Properties\<close>

text \<open>The requests that change the state, of any client, at times of their own.\<close>

inductive dev_step :: "dev_server \<Rightarrow> dev_server \<Rightarrow> bool" where
  distribute: "dev_DistributeTestPlan now req dv = (res, dv') \<Longrightarrow> dev_step dv dv'"
| register: "dev_step dv (dev_RegisterWorker now rreq dv)"
| report: "dev_ReportMetrics now batch dv = (ok, dv') \<Longrightarrow> dev_step dv dv'"
| stop: "dev_StopTest testID dv = (r, dv') \<Longrightarrow> dev_step dv dv'"

text \<open>The three maps of tests have the same keys, and every plan stands under its own identifier.\<close>

definition test_known :: "string \<Rightarrow> dev_server \<Rightarrow> bool" where
  "test_known i dv \<longleftrightarrow>
     (case map_of (dv_tests dv) i of
        None \<Rightarrow> map_of (dv_createdAt dv) i = None \<and> map_of (dv_workerCounts dv) i = None
      | Some plan \<Rightarrow> map_of (dv_createdAt dv) i \<noteq> None \<and> map_of (dv_workerCounts dv) i = Some 3 \<and> ptp_Id plan = i \<and> i \<noteq> '''')"

definition dev_ok :: "dev_server \<Rightarrow> bool" where
  "dev_ok dv \<longleftrightarrow> (\<forall>i. test_known i dv) \<and> (\<forall>i w. map_of (dv_workers dv) i = Some w \<longrightarrow> wi_WorkerId w = i)"

lemma update_same: "map_of (AList.update k v m) i = (if i = k then Some v else map_of m i)"
  by (simp add: update_conv')

lemma delete_same: "map_of (AList.delete k m) i = (if i = k then None else map_of m i)"
  by (simp add: delete_conv')

lemma test_known_workers [simp]: "test_known i (dv\<lparr>dv_workers := ws\<rparr>) = test_known i dv"
  by (simp add: test_known_def split: option.split)

lemma test_known_removed: "test_known i dv \<Longrightarrow> test_known i (snd (dev_StopTest j dv))"
  by (simp add: test_known_def dev_StopTest_def delete_same split: option.splits)

lemma dev_step_ok: "dev_step dv dv' \<Longrightarrow> dev_ok dv \<Longrightarrow> dev_ok dv'"
proof (induction rule: dev_step.induct)
  case (distribute now req dv res dv')
  show ?case
  proof (cases req)
    case (Some plan)
    define tid where "tid = (if ptp_Id plan = '''' then ''test-'' @ int_string now else ptp_Id plan)"
    then have dv': "dv' = dv\<lparr>dv_tests := AList.update tid (plan\<lparr>ptp_Id := tid\<rparr>) (dv_tests dv),
        dv_createdAt := AList.update tid now (dv_createdAt dv), dv_workerCounts := AList.update tid 3 (dv_workerCounts dv)\<rparr>"
      using distribute(1) Some by (simp add: dev_DistributeTestPlan_def Let_def)
    have ne: "tid \<noteq> ''''" by (simp add: tid_def)
    have "test_known i dv'" for i
    proof -
      have "test_known i dv" using distribute(2) by (simp add: dev_ok_def)
      then show ?thesis
        unfolding test_known_def dv' by (cases "i = tid") (simp_all add: update_same ne split: option.splits)
    qed
    with distribute(2) show ?thesis by (simp add: dev_ok_def dv')
  qed (use distribute in \<open>simp add: dev_DistributeTestPlan_def\<close>)
next
  case (register dv now rreq)
  then show ?case by (auto simp: dev_RegisterWorker_def dev_ok_def update_same)
next
  case (report now batch dv ok dv')
  then show ?case by (auto simp: dev_ReportMetrics_def dev_ok_def update_same split: option.splits if_splits)
next
  case (stop testID dv r dv')
  then show ?case using test_known_removed [of _ dv testID] by (auto simp: dev_StopTest_def dev_ok_def)
qed

text \<open>The development orchestrator says of a test that it runs for thirty seconds after it was
  submitted and is complete from then on, with three workers, until it is stopped; of any other it says
  nothing. Its maps stay consistent under every sequence of requests.\<close>

theorem dev_status:
  assumes "dev_step\<^sup>*\<^sup>* startDevOrchestrator dv"
  shows "dev_ok dv
    \<and> tsr_Status (dev_GetTestStatus now i dv) =
        (case map_of (dv_createdAt dv) i of None \<Rightarrow> UNKNOWN | Some t \<Rightarrow> if time_since now t \<le> 30 * second then RUNNING else COMPLETED)
    \<and> tsr_ActiveWorkers (dev_GetTestStatus now i dv) = (if i \<in> dom (map_of (dv_createdAt dv)) then 3 else 0)
    \<and> tsr_Status (dev_GetTestStatus now i (snd (dev_StopTest i dv))) = UNKNOWN"
proof -
  from assms have ok: "dev_ok dv"
    by (induction rule: rtranclp_induct) (simp_all add: dev_step_ok, simp add: dev_ok_def test_known_def startDevOrchestrator_def)
  then have "test_known i dv" by (simp add: dev_ok_def)
  with ok show ?thesis
    by (auto simp: dev_GetTestStatus_def dev_StopTest_def test_known_def get0_def delete_same Let_def split: option.splits)
qed

theorem dev_status_witness:
  "tsr_Status (dev_GetTestStatus (60 * second) ''t'' startDevOrchestrator) = UNKNOWN"
  using dev_status [OF rtranclp.rtrancl_refl, of "60 * second" "''t''"] by (simp add: startDevOrchestrator_def)

end
