(* ===== verification/Orchestrator_Service.thy ===== *)
theory Orchestrator_Service
  imports Dev_Orchestrator Test_Lifecycle Recorder
begin

text \<open>
  The service the API, the recorder and the command line call (\<open>OrchestratorServiceClient\<close>) has two
  providers, the production server and the development one. The locale \<open>orchestrator_service\<close> is what a
  client relies on between its own calls; \<open>stopping_service\<close> adds that a stop is reported as such,
  which only the production server keeps. The recorder's behaviour is derived from the contract and
  holds for both. Reports of workers are calls of others and not part of the contract.
\<close>

section \<open>The contract\<close>

text \<open>\<open>submit\<close> answers with the identifier of the test or \<open>None\<close>; \<open>status\<close> is \<open>None\<close> for an error.\<close>

locale orchestrator_service =
  fixes submit :: "pb_test_plan \<Rightarrow> 's \<Rightarrow> string option \<times> 's"
    and halt :: "string \<Rightarrow> 's \<Rightarrow> 's"
    and status :: "string \<Rightarrow> 's \<Rightarrow> test_status_response option"
  assumes submit_runs: "submit p s = (Some i, s') \<Longrightarrow> ptp_Id p \<noteq> '''' \<Longrightarrow>
      i = ptp_Id p \<and> map_option tsr_Status (status i s') = Some RUNNING"
    and submit_refused: "submit p s = (None, s') \<Longrightarrow> map_option tsr_Status (status j s') = map_option tsr_Status (status j s)"
    and submit_other: "submit p s = (r, s') \<Longrightarrow> ptp_Id p \<noteq> '''' \<Longrightarrow> j \<noteq> ptp_Id p \<Longrightarrow>
      map_option tsr_Status (status j s') = map_option tsr_Status (status j s)"
    and halt_other: "j \<noteq> i \<Longrightarrow> map_option tsr_Status (status j (halt i s)) = map_option tsr_Status (status j s)"
    and halt_stops: "map_option tsr_Status (status i (halt i s)) \<noteq> Some RUNNING"
begin

text \<open>Calls of clients that are about other tests than \<open>i\<close>, or refused.\<close>

inductive untouched :: "string \<Rightarrow> 's \<Rightarrow> 's \<Rightarrow> bool" for i where
  none: "untouched i s s"
| submitted: "untouched i s s' \<Longrightarrow> ptp_Id p \<noteq> '''' \<Longrightarrow> ptp_Id p \<noteq> i \<Longrightarrow> submit p s' = (r, s'') \<Longrightarrow> untouched i s s''"
| refused: "untouched i s s' \<Longrightarrow> submit p s' = (None, s'') \<Longrightarrow> untouched i s s''"
| halted: "untouched i s s' \<Longrightarrow> j \<noteq> i \<Longrightarrow> untouched i s (halt j s')"

lemma untouched_status: "untouched i s s' \<Longrightarrow> map_option tsr_Status (status i s') = map_option tsr_Status (status i s)"
  by (induction rule: untouched.induct) (use submit_other submit_refused halt_other in metis)+

text \<open>The recorder keeps recording a run that was accepted, whatever else is called meanwhile.\<close>

lemma accepted_run_recorded:
  assumes "submit p s = (Some i, s1)" and "ptp_Id p \<noteq> ''''" and "untouched i s1 s2" and "hub_ok (rc_sess r) (rc_chans r)"
  shows "\<exists>r'. rec_step flt flt' now (StatusTick (status i s2)) r = Some (r', None) \<and> se_status (rc_sess r') = ''RUNNING''"
proof -
  have "map_option tsr_Status (status i s2) = Some RUNNING"
    unfolding untouched_status [OF assms(3)] by (rule conjunct2 [OF submit_runs [OF assms(1,2)]])
  then obtain resp where resp: "status i s2 = Some resp" "tsr_Status resp = RUNNING" by auto
  have f: "final_status (StatusTick (status i s2)) (rc_sess r) = None" by (simp add: resp final_status_def)
  with rec_step_turn [OF assms(4), of flt flt' now "StatusTick (status i s2)"]
  show ?thesis by (auto simp: turn_def Let_def noted_def resp)
qed

end

text \<open>A provider that says of a test it has stopped that it is stopped.\<close>

locale stopping_service = orchestrator_service +
  assumes halt_reported: "status i s \<noteq> None \<Longrightarrow> map_option tsr_Status (status i (halt i s)) = Some STOPPED"
begin

lemma stopped_run_ends:
  assumes "status i s \<noteq> None" and "untouched i (halt i s) s'" and "hub_ok (rc_sess r) (rc_chans r)"
  shows "\<exists>r'. rec_step flt flt' now (StatusTick (status i s')) r = Some (r', Some ''STOPPED'') \<and> (\<forall>c \<in> set (rc_chans r'). ch_closed c)"
proof -
  have "map_option tsr_Status (status i s') = Some STOPPED"
    using halt_reported [OF assms(1)] untouched_status [OF assms(2)] by simp
  then obtain resp where resp: "status i s' = Some resp" "tsr_Status resp = STOPPED" by auto
  have f: "final_status (StatusTick (status i s')) (rc_sess r) = Some ''STOPPED''" by (simp add: resp final_status_def)
  with rec_step_turn [OF assms(3), of flt flt' now "StatusTick (status i s')"]
  show ?thesis by (auto simp: turn_def Let_def)
qed

end

section \<open>The production server\<close>

definition prod_submit :: "string list \<Rightarrow> string list \<Rightarrow> pb_test_plan \<Rightarrow> server \<Rightarrow> string option \<times> server" where
  "prod_submit ord cord p sv =
     (case DistributeTestPlan ord cord (Some p) sv of
        (Reply (Inr resp), sv', sent) \<Rightarrow> (Some (dr_TestId resp), sv')
      | (_, sv', sent) \<Rightarrow> (None, sv'))"

definition prod_halt :: "string list \<Rightarrow> string list \<Rightarrow> (string \<Rightarrow> string \<Rightarrow> stop_answer) \<Rightarrow> string \<Rightarrow> server \<Rightarrow> server" where
  "prod_halt ord word net i sv = snd (StopTest ord word net i sv)"

definition prod_status :: "string list \<Rightarrow> string list \<Rightarrow> string \<Rightarrow> server \<Rightarrow> test_status_response option" where
  "prod_status ord sord i sv = (case GetTestStatus ord sord i sv of Inl e \<Rightarrow> None | Inr resp \<Rightarrow> Some resp)"

lemma prod_status_eq:
  "map_option tsr_Status (prod_status ord sord i sv) = map_option (\<lambda>t. status_to_proto (at_Status t)) (map_of (pd_activeTests (sv_plans sv)) i)"
  by (simp add: prod_status_def GetTestStatus_def GetActiveTest_def Snapshot_def Let_def split: option.split)

lemma prod_halt_eq:
  "map_of (pd_activeTests (sv_plans (prod_halt ord word net i sv))) j =
     (if j = i then map_option (\<lambda>t. t\<lparr>at_Status := TestStatusStopped\<rparr>) (map_of (pd_activeTests (sv_plans sv)) i)
      else map_of (pd_activeTests (sv_plans sv)) j)"
  by (auto simp: prod_halt_def StopTest_def GetActiveTest_def SetStatus_def Let_def map_of_put split: option.split)

lemma prod_submit_eq:
  "prod_submit ord cord p sv = (r, sv') \<Longrightarrow>
     (case r of
        None \<Rightarrow> sv_plans sv' = sv_plans sv
      | Some i \<Rightarrow> i = ptp_Id p \<and> (\<exists>t. at_Status t = TestStatusRunning \<and>
          (\<forall>j. map_of (pd_activeTests (sv_plans sv')) j = (if j = i then Some t else map_of (pd_activeTests (sv_plans sv)) j))))"
  by (auto simp: prod_submit_def DistributeTestPlan_def DistributePlan_def Let_def map_of_put
      split: outcome.splits sum.splits prod.splits if_splits)

interpretation prod: stopping_service "prod_submit ord cord" "prod_halt ord' word net" "prod_status ord'' sord"
  for ord cord ord' word net ord'' sord
proof unfold_locales
  fix p s i s'
  assume "prod_submit ord cord p s = (Some i, s')" and "ptp_Id p \<noteq> ''''"
  from prod_submit_eq [OF this(1)] show "i = ptp_Id p \<and> map_option tsr_Status (prod_status ord'' sord i s') = Some RUNNING"
    by (auto simp: prod_status_eq)
next
  fix p s s' j
  assume "prod_submit ord cord p s = (None, s')"
  from prod_submit_eq [OF this]
  show "map_option tsr_Status (prod_status ord'' sord j s') = map_option tsr_Status (prod_status ord'' sord j s)" by (simp add: prod_status_eq)
next
  fix p s r s' j
  assume "prod_submit ord cord p s = (r, s')" and "j \<noteq> ptp_Id p"
  from prod_submit_eq [OF this(1)] this(2)
  show "map_option tsr_Status (prod_status ord'' sord j s') = map_option tsr_Status (prod_status ord'' sord j s)"
    by (auto simp: prod_status_eq split: option.splits)
next
  fix i s
  assume "prod_status ord'' sord i s \<noteq> None"
  then have "map_of (pd_activeTests (sv_plans s)) i \<noteq> None" using prod_status_eq [of ord'' sord i s] by (cases "map_of (pd_activeTests (sv_plans s)) i") auto
  then show "map_option tsr_Status (prod_status ord'' sord i (prod_halt ord' word net i s)) = Some STOPPED"
    by (auto simp: prod_status_eq prod_halt_eq)
qed (auto simp: prod_status_eq prod_halt_eq)

section \<open>The development server\<close>

text \<open>The clock does not advance between the calls: \<open>now\<close> is the time of all of them.\<close>

definition dev_submit :: "go_time \<Rightarrow> pb_test_plan \<Rightarrow> dev_server \<Rightarrow> string option \<times> dev_server" where
  "dev_submit now p dv = (case dev_DistributeTestPlan now (Some p) dv of (Inl e, dv') \<Rightarrow> (None, dv') | (Inr resp, dv') \<Rightarrow> (Some (dr_TestId resp), dv'))"

interpretation dev: orchestrator_service "dev_submit now" "\<lambda>i dv. snd (dev_StopTest i dv)" "\<lambda>i dv. Some (dev_GetTestStatus now i dv)"
  for now
proof unfold_locales
  fix p s i s'
  assume "dev_submit now p s = (Some i, s')" and "ptp_Id p \<noteq> ''''"
  then show "i = ptp_Id p \<and> map_option tsr_Status (Some (dev_GetTestStatus now i s')) = Some RUNNING"
    by (auto simp: dev_submit_def dev_DistributeTestPlan_def dev_GetTestStatus_def get0_def update_same time_since_def second_def Let_def)
next
  fix p s s' j
  assume "dev_submit now p s = (None, s')"
  then show "map_option tsr_Status (Some (dev_GetTestStatus now j s')) = map_option tsr_Status (Some (dev_GetTestStatus now j s))"
    by (auto simp: dev_submit_def dev_DistributeTestPlan_def Let_def)
next
  fix p s r s' j
  assume "dev_submit now p s = (r, s')" and "ptp_Id p \<noteq> ''''" and "j \<noteq> ptp_Id p"
  then show "map_option tsr_Status (Some (dev_GetTestStatus now j s')) = map_option tsr_Status (Some (dev_GetTestStatus now j s))"
    by (auto simp: dev_submit_def dev_DistributeTestPlan_def dev_GetTestStatus_def get0_def update_same Let_def split: option.split)
qed (auto simp: dev_StopTest_def dev_GetTestStatus_def get0_def delete_same Let_def split: option.split)

section \<open>Recording on either server\<close>



text \<open>The development server forgets a test that it stops, and says of an unknown test that its status
  is unknown, which is not an end: the recorder goes on recording a stopped run, and with it the queue
  keeps its slot.\<close>

theorem dev_stop_never_ends:
  assumes "hub_ok (rc_sess r) (rc_chans r)" and "dev.untouched now i (snd (dev_StopTest i dv)) dv'"
  shows "\<exists>r'. rec_step flt flt' t (StatusTick (Some (dev_GetTestStatus now i dv'))) r = Some (r', None) \<and> se_status (rc_sess r') = ''UNKNOWN''"
proof -
  have "map_option tsr_Status (Some (dev_GetTestStatus now i dv')) = map_option tsr_Status (Some (dev_GetTestStatus now i (snd (dev_StopTest i dv))))"
    by (rule dev.untouched_status [OF assms(2)])
  then have st: "tsr_Status (dev_GetTestStatus now i dv') = UNKNOWN" by (simp add: dev_GetTestStatus_def dev_StopTest_def delete_same)
  then have "final_status (StatusTick (Some (dev_GetTestStatus now i dv'))) (rc_sess r) = None" by (simp add: final_status_def)
  with rec_step_turn [OF assms(1), of flt flt' t "StatusTick (Some (dev_GetTestStatus now i dv'))"] st
  show ?thesis by (auto simp: turn_def Let_def noted_def)
qed

theorem dev_stop_never_ends_witness:
  "\<exists>r'. rec_step None None 5 (StatusTick (Some (dev_GetTestStatus 9 ''t'' (snd (dev_StopTest ''t'' startDevOrchestrator))))) (start_recording ''t'' empty_db)
     = Some (r', None)"
  using dev_stop_never_ends [OF start_ok dev.untouched.none, of None None 5 9 "''t''" startDevOrchestrator "''t''" empty_db] by blast

end
