(* ===== verification/Span_Exporter.thy ===== *)
theory Span_Exporter
  imports Models
begin

text \<open>
  The in-memory span exporter of \<open>internal/tracer/exporter.go\<close> and the plugin registry of
  \<open>internal/runtime/plugin_loader.go\<close>. A span of the tracing library is what the exporter reads of
  it; a callback is a number, and a call of it is recorded with its argument. Opening a plugin file is
  the runtime's and a parameter.
\<close>

section \<open>The exporter\<close>

record read_only_span =
  ro_Name :: string
  ro_StartTime :: go_time
  ro_EndTime :: go_time
  ro_Status :: string

record span_data =
  sd_Name :: string
  sd_Duration :: int64
  sd_Status :: string
  sd_Timestamp :: int64

record exporter =
  ex_spans :: "span_data list"
  ex_maxSpans :: int
  ex_callbacks :: "nat list"

text \<open>\<open>make\<close> panics on a negative capacity.\<close>

definition NewInMemoryExporter :: "int \<Rightarrow> exporter option" where
  "NewInMemoryExporter maxSpans = (if maxSpans < 0 then None else Some \<lparr>ex_spans = [], ex_maxSpans = maxSpans, ex_callbacks = []\<rparr>)"

text \<open>\<open>Time.Sub\<close> saturates.\<close>

definition span_of :: "read_only_span \<Rightarrow> span_data" where
  "span_of s =
     \<lparr>sd_Name = ro_Name s,
      sd_Duration = go_div (max (- (2 ^ 63)) (min (2 ^ 63 - 1) (ro_EndTime s - ro_StartTime s))) 1000000,
      sd_Status = ro_Status s, sd_Timestamp = unix_milli (ro_StartTime s)\<rparr>"

fun export_loop :: "int \<Rightarrow> read_only_span list \<Rightarrow> span_data list \<Rightarrow> span_data list" where
  "export_loop maxSpans [] acc = acc"
| "export_loop maxSpans (s # ss) acc =
     (let acc' = acc @ [span_of s]
      in export_loop maxSpans ss (if int (length acc') > maxSpans then drop 1 acc' else acc'))"

definition ExportSpans :: "read_only_span list \<Rightarrow> exporter \<Rightarrow> exporter \<times> (nat \<times> span_data list) list" where
  "ExportSpans spans e =
     (let e' = e\<lparr>ex_spans := export_loop (ex_maxSpans e) spans (ex_spans e)\<rparr>
      in (e', map (\<lambda>cb. (cb, ex_spans e')) (ex_callbacks e')))"

definition GetSpans :: "exporter \<Rightarrow> span_data list" where
  "GetSpans e = ex_spans e"

definition RegisterCallback :: "nat \<Rightarrow> exporter \<Rightarrow> exporter" where
  "RegisterCallback cb e = e\<lparr>ex_callbacks := ex_callbacks e @ [cb]\<rparr>"

text \<open>The last \<open>n\<close> elements.\<close>

definition last_n :: "nat \<Rightarrow> 'a list \<Rightarrow> 'a list" where
  "last_n n xs = drop (length xs - n) xs"

lemma last_n_snoc: "(if n < length (last_n n xs @ [x]) then drop 1 (last_n n xs @ [x]) else last_n n xs @ [x]) = last_n n (xs @ [x])"
proof (cases "length xs < n")
  case False
  have "drop (Suc (length xs) - n) (xs @ [x]) = drop 1 (drop (length xs - n) (xs @ [x]))"
    using False by (simp add: Suc_diff_le)
  with False show ?thesis by (simp add: last_n_def)
qed (simp add: last_n_def)

lemma export_loop_last:
  "export_loop (int n) ss (last_n n xs) = last_n n (xs @ map span_of ss)"
proof (induction ss arbitrary: xs)
  case (Cons s ss)
  have "export_loop (int n) (s # ss) (last_n n xs) = export_loop (int n) ss (last_n n (xs @ [span_of s]))"
    using last_n_snoc [of n xs "span_of s"] by (simp add: Let_def)
  with Cons.IH [of "xs @ [span_of s]"] show ?case by simp
qed simp

text \<open>The exporter after a sequence of batches.\<close>

definition export_all :: "read_only_span list list \<Rightarrow> exporter \<Rightarrow> exporter" where
  "export_all batches e = fold (\<lambda>b e. fst (ExportSpans b e)) batches e"

text \<open>The exporter holds the most recent spans, as many as it was made for, of all that were ever
  exported, whatever the batches; that is also what every callback gets.\<close>

theorem exporter_keeps_most_recent:
  assumes "NewInMemoryExporter (int n) = Some e"
  shows "GetSpans (export_all batches e) = last_n n (map span_of (concat batches))
    \<and> (\<forall>b. \<forall>(cb, spans) \<in> set (snd (ExportSpans b (export_all batches e))). spans = last_n n (map span_of (concat batches @ b)))"
proof -
  have e: "e = \<lparr>ex_spans = [], ex_maxSpans = int n, ex_callbacks = []\<rparr>" using assms by (simp add: NewInMemoryExporter_def)
  have inv: "ex_maxSpans (export_all bs e) = int n \<and> ex_spans (export_all bs e) = last_n n (map span_of (concat bs))" for bs
  proof (induction bs rule: rev_induct)
    case (snoc b bs)
    then show ?case using export_loop_last [of n b "map span_of (concat bs)"] by (simp add: export_all_def ExportSpans_def Let_def)
  qed (simp add: export_all_def e last_n_def)
  then show ?thesis
    using export_loop_last [of n _ "map span_of (concat batches)"] by (auto simp: GetSpans_def ExportSpans_def Let_def)
qed

theorem exporter_keeps_most_recent_witness:
  "length (GetSpans (export_all [[\<lparr>ro_Name = ''a'', ro_StartTime = 0, ro_EndTime = 5, ro_Status = ''Ok''\<rparr>],
     [\<lparr>ro_Name = ''b'', ro_StartTime = 0, ro_EndTime = 5, ro_Status = ''Ok''\<rparr>]] \<lparr>ex_spans = [], ex_maxSpans = 1, ex_callbacks = []\<rparr>)) = 1"
  using exporter_keeps_most_recent [of 1 "\<lparr>ex_spans = [], ex_maxSpans = 1, ex_callbacks = []\<rparr>"]
  by (simp add: NewInMemoryExporter_def last_n_def)

section \<open>Plugins\<close>

text \<open>A plugin that was opened and looked up: whether the symbol has the interface, its name, and the
  function it runs.\<close>

record plugin =
  pg_Name :: string
  pg_Execute :: "int64 \<Rightarrow> string + int32"

datatype plugin_error = OpenFailed string | SymbolMissing string | WrongInterface | PluginNotFound string

type_synonym plugin_loader = "(string, plugin) gomap"

definition LoadPlugin :: "(string \<Rightarrow> string + (string + plugin option)) \<Rightarrow> string \<Rightarrow> plugin_loader \<Rightarrow> plugin_error option \<times> plugin_loader" where
  "LoadPlugin open_file path pl =
     (case open_file path of
        Inl e \<Rightarrow> (Some (OpenFailed e), pl)
      | Inr (Inl e) \<Rightarrow> (Some (SymbolMissing e), pl)
      | Inr (Inr None) \<Rightarrow> (Some WrongInterface, pl)
      | Inr (Inr (Some p)) \<Rightarrow> (None, AList.update (pg_Name p) p pl))"

definition GetPlugin :: "string \<Rightarrow> plugin_loader \<Rightarrow> plugin_error + plugin" where
  "GetPlugin name pl = (case map_of pl name of None \<Rightarrow> Inl (PluginNotFound name) | Some p \<Rightarrow> Inr p)"

definition ListPlugins :: "string list \<Rightarrow> plugin_loader \<Rightarrow> string list" where
  "ListPlugins ord pl = map fst (range_entries ord pl)"

text \<open>A loaded plugin is found under its name, the others stay, and a failed load changes nothing.\<close>

lemma LoadPlugin_lookup:
  "LoadPlugin open_file path pl = (err, pl') \<Longrightarrow>
     (if err = None then \<exists>p. open_file path = Inr (Inr (Some p)) \<and> GetPlugin (pg_Name p) pl' = Inr p
        \<and> (\<forall>n. n \<noteq> pg_Name p \<longrightarrow> GetPlugin n pl' = GetPlugin n pl)
      else pl' = pl)"
  by (auto simp: LoadPlugin_def GetPlugin_def update_conv' split: sum.splits option.splits)

end
