(* ===== verification/Submission.thy ===== *)
theory Submission
  imports Api_Handlers Worker_Service
begin

text \<open>
  A plan on its way through the whole program: submitted to the API, stored, dispatched by the queue,
  distributed by the orchestrator and decoded by every worker. The definitions are those of the
  components; the property here is about their composition.
\<close>

section \<open>What a worker decodes\<close>

definition share_of :: "string \<Rightarrow> stage list \<Rightarrow> (string, int32) gomap list \<Rightarrow> stage list" where
  "share_of w sts allocs = map2 (\<lambda>st a. st\<lparr>st_TargetVUs := get0 0 a w\<rparr>) sts allocs"

definition plan_of_worker :: "test_plan \<Rightarrow> (string, int32) gomap list \<Rightarrow> string \<times> int32 \<Rightarrow> test_plan" where
  "plan_of_worker plan allocs e = plan\<lparr>tp_Stages := share_of (fst e) (tp_Stages plan) allocs, tp_TotalVirtualUsers := snd e\<rparr>"

lemma share_of_nth:
  assumes "length allocs = length sts" and "i < length sts"
  shows "share_of w sts allocs ! i = (sts ! i)\<lparr>st_TargetVUs := get0 0 (allocs ! i) w\<rparr>"
  using assms by (simp add: share_of_def)

lemma retargeted_stages:
  "length allocs = length ps \<Longrightarrow> worker_stages ps = Inr sts \<Longrightarrow> worker_stages (plan_stages w ps allocs) = Inr (share_of w sts allocs)"
  by (induction w ps allocs arbitrary: sts rule: plan_stages.induct) (auto simp: share_of_def split: sum.splits if_splits)

lemma worker_starts_its_share:
  assumes "convertProtoPlan p = Inr plan" and "length allocs = length (ptp_Stages p)"
  shows "WorkerRunTest (worker_request p allocs e) = (Inr (), Some (ptp_Id p, plan_of_worker plan allocs e, snd e))"
proof -
  obtain sts where s: "worker_stages (ptp_Stages p) = Inr sts" and t: "tp_Stages plan = sts"
    using assms(1) by (auto simp: convertProtoPlan_def split: sum.splits)
  from retargeted_stages [OF assms(2) s, of "fst e"] s t assms(1) show ?thesis
    by (cases plan) (auto simp: WorkerRunTest_def worker_request_def planForWorker_def convertProtoPlan_def plan_of_worker_def)
qed

lemma worker_stages_length: "worker_stages ps = Inr sts \<Longrightarrow> length sts = length ps"
  by (induction ps arbitrary: sts) (auto split: sum.splits if_splits)

text \<open>What the workers start adds up to what the requests carry.\<close>

lemma started_targets:
  assumes "convertProtoPlan p = Inr plan" and "allocs = stage_allocations so d 0 (ptp_Stages p)" and "i < length (ptp_Stages p)"
  shows "st_TargetVUs (tp_Stages (plan_of_worker plan allocs e) ! i) = pst_TargetVus (sent_stages (worker_request p allocs e) ! i)"
proof -
  have l: "length allocs = length (ptp_Stages p)" using stage_allocations_nth [of so d 0] by (simp add: assms(2))
  have "length (tp_Stages plan) = length (ptp_Stages p)"
    using assms(1) by (auto simp: convertProtoPlan_def worker_stages_length split: sum.splits)
  then show ?thesis
    using share_of_nth [of allocs "tp_Stages plan" i "fst e"] l assms(3) worker_request_stages(2) [OF assms(3,2), of e]
      stage_allocations_nth [of so d 0 "ptp_Stages p"] by (simp add: plan_of_worker_def assms(2))
qed

section \<open>A submission as it is dispatched\<close>

lemma submitted_and_dispatched:
  assumes "handleStartRun marshal env ords allow flt None k t u (Inr y) d = (r, d')" and "rp_code r = 202"
    and "rp_payload r = Started (rw_ID run) st pos" and "find_run (rw_ID run) d' = Some run"
    and "decode (marshal y) = Inr y" and "dispatch_request decode env ords run = Inr p"
  obtains sc where "FromSpec env ords y = Inr sc" "Check allow (hc_BaseURL (sc_HTTP sc)) = None"
    "p = ScenarioToProto sc (rw_ID run)" "rw_PeakVUs run = Max (st_TargetVUs ` set (sc_Stages sc))"
  using assms(1)
proof (cases rule: start_run_cases)
  case (queued req sc)
  let ?run = "run_of_request marshal k t u req sc"
  have "rw_ID run = rw_ID ?run" using queued(9) assms(3) by simp
  then have run: "run = ?run" using assms(4) find_run_snoc [of "rw_ID ?run" d ?run] queued(5) by (simp add: queued(7))
  have y: "req = y" using queued(1) by simp
  have "sc_Stages sc \<noteq> []" "\<forall>st \<in> set (sc_Stages sc). 0 < st_TargetVUs st"
    using FromSpec_Inr [OF queued(2)] Validate_None by blast+
  then have "rw_PeakVUs run = Max (st_TargetVUs ` set (sc_Stages sc))" by (simp add: run peakOf_Max)
  moreover have "p = ScenarioToProto sc (rw_ID run)" using assms(5,6) queued(2) by (simp add: dispatch_request_def run y)
  ultimately show ?thesis using that queued(2,3) by (simp add: y)
qed (use assms(2) in auto)

section \<open>From the submission to the fleet\<close>


text \<open>\<open>demo_yaml\<close>, submitted to an empty store and dispatched to the two workers of \<open>demo_server\<close>.\<close>

lemma demo_scenario_accepted:
  "\<exists>resp sv' ds. DistributeTestPlan demo_ord cord (Some (ScenarioToProto demo_scenario i)) demo_server
      = (Reply (Inr resp), sv', Some (ScenarioToProto demo_scenario i, ds))
    \<and> gomap_ok ds \<and> (\<forall>w. has_key ds w \<longrightarrow> GetNode w (demo_nm 10 10) \<noteq> None)"
proof -
  let ?p = "ScenarioToProto demo_scenario i"
  have "convertProtoPlan ?p = Inr (wire_plan demo_scenario i)"
    by (rule plan_over_the_wire) (simp add: demo_scenario_def in64_def)
  moreover have "ptp_Http ?p = Some (the (ptp_Http ?p))" by (simp add: ScenarioToProto_def)
  moreover have "PbAssertionUnset \<notin> set (prq_Assertions r)" if "r \<in> set (phc_Requests (the (ptp_Http ?p)))" for r
    using that by (auto simp: ScenarioToProto_def demo_scenario_def request_to_proto_def assertionsToProto_def
      List.map_filter_simps assertion_to_proto_def)
  ultimately obtain plan where plan: "convertPlan ?p = Reply (Inr plan)" and "tp_Stages plan = tp_Stages (wire_plan demo_scenario i)"
    using conversions_agree [of ?p "the (ptp_Http ?p)"] by fastforce
  then have "tp_Stages plan = sc_Stages demo_scenario" by (simp add: wire_plan_def demo_scenario_def wire_stage_def)
  then have "plan_ok plan" "plan_peak plan \<le> 20" by (simp_all add: plan_ok_def demo_scenario_def in32_def)
  from demo_accepts [OF plan this] show ?thesis by (fastforce simp: split_of_plan_def has_key_def)
qed


end
