(* ===== verification/Http_Client.thy ===== *)
theory Http_Client
  imports Allowlist
begin

text \<open>
  The HTTP client of a worker, \<open>internal/worker/http_client.go\<close>, over the \<open>http.Client\<close> it wraps: \<open>Do\<close> sends a
  request and follows redirects as the zero \<open>CheckRedirect\<close> has it, until the timeout of the client. The
  network is a parameter: for the number of the hop, the method and the URL it gives the time that passes
  and an error or a response. Of a URL the scheme and the host are kept; headers and cookies of the hops
  are not, the texts of the client's own errors are abridged, and a reference with user information but no
  host is taken as one without.
\<close>

section \<open>The client\<close>

record http_client =
  cl_Timeout :: duration
  cl_MaxIdleConns :: int
  cl_MaxIdleConnsPerHost :: int
  cl_IdleConnTimeout :: duration
  cl_DialTimeout :: duration
  cl_KeepAlive :: duration
  cl_DisableKeepAlives :: bool

definition NewHTTPClient :: "duration \<Rightarrow> http_client" where
  "NewHTTPClient timeout =
     \<lparr>cl_Timeout = timeout, cl_MaxIdleConns = 100, cl_MaxIdleConnsPerHost = 10, cl_IdleConnTimeout = 90 * second,
      cl_DialTimeout = 30 * second, cl_KeepAlive = 30 * second, cl_DisableKeepAlives = False\<rparr>"

text \<open>The client of the engine: the timeout of the plan is not used.\<close>

definition engine_client :: http_client where
  "engine_client = NewHTTPClient (30 * second)"

section \<open>Redirects\<close>

record wire_response =
  wr_Status :: int
  wr_Location :: string
  wr_Body :: string

type_synonym network = "nat \<Rightarrow> string \<Rightarrow> url \<Rightarrow> duration \<times> (string + wire_response)"

text \<open>The method of the next hop, and whether there is one. The worker sets the body of a request without
  a way to read it again, so that it is not sent twice.\<close>

definition redirectBehavior :: "string \<Rightarrow> int \<Rightarrow> bool \<Rightarrow> string \<times> bool" where
  "redirectBehavior m code body =
     (if code \<in> {301, 302, 303} then (if m \<noteq> ''GET'' \<and> m \<noteq> ''HEAD'' then ''GET'' else m, True)
      else if code \<in> {307, 308} then (m, \<not> body)
      else ('''', False))"

definition resolve_reference :: "url \<Rightarrow> string \<Rightarrow> url_error + url" where
  "resolve_reference base loc = bind_url (url_Parse loc) (\<lambda>r.
     Inr \<lparr>url_Scheme = (if url_Scheme r = [] then url_Scheme base else url_Scheme r),
          url_Host = (if url_Scheme r \<noteq> [] \<or> url_Host r \<noteq> [] then url_Host r else url_Host base)\<rparr>)"

definition sendable :: "url \<Rightarrow> bool" where
  "sendable u \<longleftrightarrow> (url_Scheme u = ''http'' \<or> url_Scheme u = ''https'') \<and> url_Host u \<noteq> []"

text \<open>The requests that were sent, the time they took, and what the caller sees.\<close>

record exchange =
  ex_sent :: "(string \<times> url) list"
  ex_took :: duration
  ex_outcome :: http_outcome

text \<open>\<open>left\<close> redirects are still allowed, \<open>n\<close> requests were sent; a timeout of zero is none.\<close>

fun follow :: "network \<Rightarrow> duration \<Rightarrow> bool \<Rightarrow> nat \<Rightarrow> nat \<Rightarrow> duration \<Rightarrow> string \<Rightarrow> url \<Rightarrow> exchange" where
  "follow net timeout body left n t m u =
     (if \<not> sendable u then \<lparr>ex_sent = [], ex_took = t, ex_outcome = TransportError ''unsupported protocol scheme''\<rparr>
      else case net n m u of (d, answer) \<Rightarrow>
        if 0 < timeout \<and> timeout \<le> t + d
        then \<lparr>ex_sent = [(m, u)], ex_took = timeout, ex_outcome = TransportError ''context deadline exceeded''\<rparr>
        else (case answer of
                Inl e \<Rightarrow> \<lparr>ex_sent = [(m, u)], ex_took = t + d, ex_outcome = TransportError e\<rparr>
              | Inr resp \<Rightarrow>
                  (case redirectBehavior m (wr_Status resp) body of (m', again) \<Rightarrow>
                     if \<not> again \<or> wr_Location resp = ''''
                     then \<lparr>ex_sent = [(m, u)], ex_took = t + d, ex_outcome = Response (wr_Status resp) (wr_Body resp)\<rparr>
                     else (case resolve_reference u (wr_Location resp) of
                             Inl e \<Rightarrow> \<lparr>ex_sent = [(m, u)], ex_took = t + d, ex_outcome = TransportError ''failed to parse Location header''\<rparr>
                           | Inr u' \<Rightarrow>
                               (case left of
                                  0 \<Rightarrow> \<lparr>ex_sent = [(m, u)], ex_took = t + d, ex_outcome = TransportError ''stopped after 10 redirects''\<rparr>
                                | Suc left' \<Rightarrow>
                                    let rest = follow net timeout body left' (Suc n) (t + d) m' u'
                                    in rest\<lparr>ex_sent := (m, u) # ex_sent rest\<rparr>)))))"

declare follow.simps [simp del]

text \<open>\<open>http.NewRequest\<close> and \<open>Do\<close>: an attempt at a request.\<close>

definition NewRequest :: "http_request \<Rightarrow> string + string \<times> url" where
  "NewRequest hr =
     (let m = (if hr_Method hr = '''' then ''GET'' else hr_Method hr)
      in if \<not> list_all token_char m then Inl ''invalid method''
         else case url_Parse (hr_URL hr) of Inl e \<Rightarrow> Inl ''parse error'' | Inr u \<Rightarrow> Inr (m, u))"

definition Do :: "http_client \<Rightarrow> network \<Rightarrow> bool \<Rightarrow> string \<times> url \<Rightarrow> exchange" where
  "Do c net body req = follow net (cl_Timeout c) body 9 0 0 (fst req) (snd req)"

definition attempt :: "http_client \<Rightarrow> network \<Rightarrow> http_request \<Rightarrow> exchange" where
  "attempt c net hr =
     (case NewRequest hr of
        Inl e \<Rightarrow> \<lparr>ex_sent = [], ex_took = 0, ex_outcome = BuildError e\<rparr>
      | Inr req \<Rightarrow> Do c net (hr_Body hr \<noteq> None) req)"

section \<open>What an attempt sends\<close>

lemma exchange_sel [simp]:
  "ex_sent (r\<lparr>ex_sent := s\<rparr>) = s" "ex_took (r\<lparr>ex_sent := s\<rparr>) = ex_took r" "ex_outcome (r\<lparr>ex_sent := s\<rparr>) = ex_outcome r"
  by simp_all

text \<open>The answers that send the client on, and where.\<close>

definition sends_on :: "network \<Rightarrow> bool \<Rightarrow> nat \<Rightarrow> string \<Rightarrow> url \<Rightarrow> url \<Rightarrow> bool" where
  "sends_on net body n m u u' \<longleftrightarrow> (\<exists>d resp. net n m u = (d, Inr resp) \<and> snd (redirectBehavior m (wr_Status resp) body)
     \<and> wr_Location resp \<noteq> '''' \<and> resolve_reference u (wr_Location resp) = Inr u')"

lemma follow_cases:
  obtains (not_sent) "\<not> sendable u" "ex_sent (follow net timeout body left n t m u) = []" "ex_took (follow net timeout body left n t m u) = t"
  | (last) "sendable u" "ex_sent (follow net timeout body left n t m u) = [(m, u)]"
      "ex_took (follow net timeout body left n t m u) =
         (if 0 < timeout \<and> timeout \<le> t + fst (net n m u) then timeout else t + fst (net n m u))"
  | (on) u' m' left' where "sendable u" "left = Suc left'" "sends_on net body n m u u'"
      "\<not> (0 < timeout \<and> timeout \<le> t + fst (net n m u))"
      "follow net timeout body left n t m u =
        (follow net timeout body left' (Suc n) (t + fst (net n m u)) m' u')
          \<lparr>ex_sent := (m, u) # ex_sent (follow net timeout body left' (Suc n) (t + fst (net n m u)) m' u')\<rparr>"
proof (cases "sendable u")
  case False
  then show ?thesis by (intro not_sent) (simp_all add: follow.simps)
next
  case True
  obtain d answer where a: "net n m u = (d, answer)" by fastforce
  note F = follow.simps [of net timeout body left n t m u]
  show ?thesis
  proof (cases "0 < timeout \<and> timeout \<le> t + d")
    case True
    with \<open>sendable u\<close> a show ?thesis by (intro last) (simp_all add: F)
  next
    case in_time: False
    show ?thesis
    proof (cases answer)
      case (Inl e)
      with \<open>sendable u\<close> a in_time show ?thesis by (intro last) (auto simp: F)
    next
      case (Inr resp)
      obtain m' again where b: "redirectBehavior m (wr_Status resp) body = (m', again)" by fastforce
      show ?thesis
      proof (cases "\<not> again \<or> wr_Location resp = '''' \<or> isl (resolve_reference u (wr_Location resp)) \<or> left = 0")
        case True
        with \<open>sendable u\<close> a in_time Inr b show ?thesis by (intro last) (auto simp: F isl_def split: sum.splits)
      next
        case False
        then obtain u' left' where r: "resolve_reference u (wr_Location resp) = Inr u'" "left = Suc left'"
          by (cases "resolve_reference u (wr_Location resp)"; cases left) auto
        with \<open>sendable u\<close> a in_time Inr b False show ?thesis
          by (intro on [of left' u' m']) (auto simp: follow.simps [of net timeout body "Suc left'" n t m u] sends_on_def Let_def)
      qed
    qed
  qed
qed

lemma follow_bounds:
  assumes "\<And>n m u. 0 \<le> fst (net n m u)" and "0 < timeout" and "0 \<le> t" and "t \<le> timeout"
  shows "length (ex_sent (follow net timeout body left n t m u)) \<le> Suc left
    \<and> 0 \<le> ex_took (follow net timeout body left n t m u) \<and> ex_took (follow net timeout body left n t m u) \<le> timeout"
  using assms(3,4)
proof (induction left arbitrary: n t m u)
  case 0
  show ?case by (cases rule: follow_cases [of u net timeout body 0 n t m]) (use 0 assms(1) [of n m u] assms(2) in auto)
next
  case (Suc left)
  show ?case
  proof (cases rule: follow_cases [of u net timeout body "Suc left" n t m])
    case (on u' m' left')
    from Suc.IH [of "t + fst (net n m u)" "Suc n" m' u'] on(2,4) assms(1) [of n m u] assms(2) Suc.prems
    show ?thesis unfolding on(5) by (simp add: not_le)
  qed (use Suc.prems assms(1) [of n m u] assms(2) in auto)
qed

text \<open>A property of URLs that redirects keep holds of every request that is sent.\<close>

lemma follow_invariant:
  assumes "P u" and "\<And>n m u u'. P u \<Longrightarrow> sendable u \<Longrightarrow> sends_on net body n m u u' \<Longrightarrow> P u'"
  shows "\<forall>(m', u') \<in> set (ex_sent (follow net timeout body left n t m u)). P u' \<and> sendable u'"
  using assms(1)
proof (induction left arbitrary: n t m u)
  case 0
  show ?case by (cases rule: follow_cases [of u net timeout body 0 n t m]) (use 0 in auto)
next
  case (Suc left)
  show ?case
  proof (cases rule: follow_cases [of u net timeout body "Suc left" n t m])
    case (on u' m' left')
    with assms(2) [OF Suc.prems] have "P u'" by blast
    from Suc.IH [OF this, of "Suc n" "t + fst (net n m u)" m'] on(1,2) Suc.prems show ?thesis unfolding on(5) by auto
  qed (use Suc.prems in auto)
qed

lemma NewRequest_parsed: "NewRequest hr = Inr (m, u) \<Longrightarrow> url_Parse (hr_URL hr) = Inr u"
  by (auto simp: NewRequest_def Let_def split: if_splits sum.splits)

lemma attempt_follow:
  assumes "NewRequest (build_request o1 o2 cfg req) = Inr (m, u)"
  shows "attempt engine_client net (build_request o1 o2 cfg req) = follow net (30 * second) (0 < length (rq_Body req)) 9 0 0 m u"
proof -
  have "(hr_Body (build_request o1 o2 cfg req) \<noteq> None) = (0 < length (rq_Body req))" by (simp add: build_request_def)
  with assms show ?thesis by (simp add: attempt_def Do_def engine_client_def NewHTTPClient_def)
qed

lemma plain_host_URL:
  assumes "plain_host h" and "t = [] \<or> t = ''/''"
  shows "url_Parse (''http://'' @ h @ t) = Inr \<lparr>url_Scheme = ''http'', url_Host = h\<rparr>"
proof -
  note f = plain_host_facts [OF assms(1)]
  have "parseAuthority h = Inr h" using f(1) by (simp add: parseAuthority_def parseHost_plain [OF assms(1)])
  then show ?thesis using assms(2) by (intro url_Parse_http) (use f in auto)
qed

section \<open>Redirects and the allowlist\<close>


text \<open>C26: The check of a target says nothing about where it redirects to: when the first answer of a permitted
  host redirects to any other host, the worker's client follows and the load goes there.\<close>

theorem redirect_leaves_target:
  assumes "plain_host h" and "plain_host e" and "hc_BaseURL cfg = ''http://'' @ h" and "rq_Path req = CHR ''/'' # p"
    and "NewRequest (build_request o1 o2 cfg req) = Inr (m, u)"
    and "net 0 m u = (d, Inr resp)" and "d < 30 * second"
    and "wr_Status resp = 301 \<or> wr_Status resp = 302 \<or> wr_Status resp = 303" and "wr_Location resp = ''http://'' @ e @ ''/''"
  shows "Check [h] (hc_BaseURL cfg) = None
    \<and> map (Hostname \<circ> snd) (take 2 (ex_sent (attempt engine_client net (build_request o1 o2 cfg req)))) = [h, e]"
proof
  let ?u' = "\<lparr>url_Scheme = ''http'', url_Host = e\<rparr>" and ?b = "0 < length (rq_Body req)"
  have ne: "h \<noteq> []" "e \<noteq> []" using assms(1,2) by (simp_all add: plain_host_def)
  show "Check [h] (hc_BaseURL cfg) = None" by (rule plain_host_checked [OF assms(1,3)])
  have "url_Parse (''http://'' @ h) = Inr \<lparr>url_Scheme = ''http'', url_Host = h\<rparr>" using plain_host_URL [OF assms(1), of "[]"] by simp
  then have "url_Scheme u = ''http'' \<and> url_Host u = h"
    using slash_path_same_host [of "''http://'' @ h" _ p u] NewRequest_parsed [OF assms(5)] ne(1) by (simp add: build_request_def assms(3,4))
  then have u: "u = \<lparr>url_Scheme = ''http'', url_Host = h\<rparr>" by simp
  obtain m' where again: "redirectBehavior m (wr_Status resp) ?b = (m', True)"
    using assms(8) by (auto simp: redirectBehavior_def)
  have res: "resolve_reference u (wr_Location resp) = Inr ?u'"
    using plain_host_URL [OF assms(2), of "''/''"] ne by (simp add: resolve_reference_def assms(9) bind_url_def)
  have at: "attempt engine_client net (build_request o1 o2 cfg req) =
      (let rest = follow net (30 * second) ?b 8 1 d m' ?u' in rest\<lparr>ex_sent := (m, u) # ex_sent rest\<rparr>)"
    unfolding attempt_follow [OF assms(5)] using assms(6,7) again res ne
    by (subst follow.simps) (simp add: u sendable_def assms(9) second_def)
  have "\<exists>s. ex_sent (follow net (30 * second) ?b 8 1 d m' ?u') = (m', ?u') # s"
    by (cases rule: follow_cases [of ?u' net "30 * second" ?b 8 1 d m']) (use ne in \<open>auto simp: sendable_def\<close>)
  then show "map (Hostname \<circ> snd) (take 2 (ex_sent (attempt engine_client net (build_request o1 o2 cfg req)))) = [h, e]"
    using Hostname_plain [OF assms(1)] Hostname_plain [OF assms(2)] by (auto simp: at Let_def u numeral_2_eq_2)
qed

text \<open>A target that answers 302 once, and one that does not.\<close>

definition demo_net :: "int \<Rightarrow> string \<Rightarrow> network" where
  "demo_net code loc n m u = (7, Inr \<lparr>wr_Status = (if n = 0 then code else 200), wr_Location = loc, wr_Body = ''''\<rparr>)"

lemma demo_NewRequest:
  "NewRequest (build_request [] [] (demo_cfg ''http://a.com'') (get_path ''/x'')) = Inr (''GET'', \<lparr>url_Scheme = ''http'', url_Host = ''a.com''\<rparr>)"
proof -
  have "url_Parse ''http://a.com/x'' = Inr \<lparr>url_Scheme = ''http'', url_Host = ''a.com''\<rparr>" by (simp add: url_eval)
  then show ?thesis
    by (simp add: NewRequest_def build_request_def demo_cfg_def get_path_def token_char_def is_digit_def byte_def lower_char_def)
qed

theorem redirect_leaves_target_witness:
  "map (Hostname \<circ> snd) (take 2 (ex_sent (attempt engine_client (demo_net 302 ''http://evil.com/'')
     (build_request [] [] (demo_cfg ''http://a.com'') (get_path ''/x''))))) = [''a.com'', ''evil.com'']"
proof -
  have "plain_host ''a.com''" "plain_host ''evil.com''" by (simp_all add: plain_host_def plain_char_def is_digit_def byte_def)
  then show ?thesis
    using redirect_leaves_target [OF _ _ _ _ demo_NewRequest, of "''a.com''" "''evil.com''" "''x''" "demo_net 302 ''http://evil.com/''"]
    by (simp add: demo_net_def demo_cfg_def get_path_def second_def)
qed


end
