(* ===== verification/Process_Setup.thy ===== *)
theory Process_Setup
  imports Config
begin

text \<open>
  What the processes share when they start and end: the logger of \<open>pkg/logger\<close>, the tracing of
  \<open>internal/tracer/setup.go\<close>, and the calls a \<open>main\<close> defers. The libraries' answers are arguments: an
  error or none.
\<close>

section \<open>The logger\<close>

datatype log_level = DebugLevel | InfoLevel | WarnLevel | ErrorLevel

record logger =
  lg_Level :: log_level
  lg_Development :: bool
  lg_TimeKey :: string

definition zap_level :: "string \<Rightarrow> log_level" where
  "zap_level level =
     (if level = ''debug'' then DebugLevel
      else if level = ''info'' then InfoLevel
      else if level = ''warn'' then WarnLevel
      else if level = ''error'' then ErrorLevel
      else InfoLevel)"

text \<open>\<open>build\<close> is \<open>zap\<close>'s \<open>Config.Build\<close>; the state is \<open>defaultLogger\<close>.\<close>

definition logger_Init :: "(logger \<Rightarrow> string option) \<Rightarrow> string \<Rightarrow> bool \<Rightarrow> logger option \<Rightarrow> string option \<times> logger option" where
  "logger_Init build level development defaultLogger =
     (let config = \<lparr>lg_Level = zap_level level, lg_Development = development, lg_TimeKey = ''timestamp''\<rparr>
      in case build config of
           Some e \<Rightarrow> (Some e, defaultLogger)
         | None \<Rightarrow> (None, Some config))"

text \<open>\<open>production\<close> is the logger \<open>zap.NewProduction\<close> makes.\<close>

definition logger_Get :: "logger \<Rightarrow> logger option \<Rightarrow> logger" where
  "logger_Get production defaultLogger = (case defaultLogger of None \<Rightarrow> production | Some l \<Rightarrow> l)"

definition logger_Sync :: "(logger \<Rightarrow> string option) \<Rightarrow> logger option \<Rightarrow> string option" where
  "logger_Sync sync defaultLogger = (case defaultLogger of None \<Rightarrow> None | Some l \<Rightarrow> sync l)"

lemma logger_Init_Get:
  "logger_Init build level dev l = (err, l') \<Longrightarrow>
     (if err = None then lg_Level (logger_Get p l') = zap_level level \<and> lg_Development (logger_Get p l') = dev else l' = l)"
  by (auto simp: logger_Init_def logger_Get_def Let_def split: option.splits)

section \<open>Tracing\<close>

record tracer_provider =
  tv_Service :: string
  tv_Environment :: string
  tv_BatchTimeout :: duration
  tv_MaxExportBatchSize :: nat
  tv_AlwaysSample :: bool

text \<open>The connections to the collector that are open and the provider the process uses.\<close>

record tracing =
  tr_conns :: "string list"
  tr_provider :: "tracer_provider option"

definition tracer_Setup ::
  "string option \<Rightarrow> string option \<Rightarrow> string option \<Rightarrow> string \<Rightarrow> string \<Rightarrow> string \<Rightarrow> tracing \<Rightarrow> (string + tracer_provider) \<times> tracing" where
  "tracer_Setup resource dial exporter serviceName environment endpoint tr =
     (case resource of
        Some e \<Rightarrow> (Inl (''failed to create resource: '' @ e), tr)
      | None \<Rightarrow>
          (case dial of
             Some e \<Rightarrow> (Inl (''failed to create gRPC connection: '' @ e), tr)
           | None \<Rightarrow>
               let tr' = tr\<lparr>tr_conns := endpoint # tr_conns tr\<rparr>
               in case exporter of
                    Some e \<Rightarrow> (Inl (''failed to create exporter: '' @ e), tr')
                  | None \<Rightarrow>
                      let provider = \<lparr>tv_Service = serviceName, tv_Environment = environment, tv_BatchTimeout = 5 * second,
                            tv_MaxExportBatchSize = 512, tv_AlwaysSample = True\<rparr>
                      in (Inr provider, tr'\<lparr>tr_provider := Some provider\<rparr>)))"

text \<open>The result, and whether the provider was told to shut down.\<close>

definition tracer_Shutdown :: "(tracer_provider \<Rightarrow> string option) \<Rightarrow> tracer_provider option \<Rightarrow> string option \<times> bool" where
  "tracer_Shutdown shutdown provider = (case provider of None \<Rightarrow> (None, False) | Some p \<Rightarrow> (shutdown p, True))"

text \<open>A failed set-up leaves the provider in use as it was, but when the exporter fails the connection stays open.\<close>

lemma tracer_Setup_fails:
  "tracer_Setup resource dial exporter s env ep tr = (Inl e, tr') \<Longrightarrow>
     tr_provider tr' = tr_provider tr \<and>
     tr_conns tr' = (if resource = None \<and> dial = None then ep # tr_conns tr else tr_conns tr)"
  by (auto simp: tracer_Setup_def Let_def split: option.splits)

section \<open>Reporting a configuration that is not valid\<close>

fun config_error_text :: "config_error \<Rightarrow> string" where
  "config_error_text OrchestratorPort = ''orchestrator port must be positive''"
| "config_error_text WorkerPort = ''worker port must be positive''"
| "config_error_text NoEndpoints = ''etcd endpoints cannot be empty''"

section \<open>Deferred calls\<close>

text \<open>
  What a \<open>main\<close> has deferred, the last call first. A return runs them in that order and the process exits
  with 0; \<open>os.Exit(1)\<close>, which \<open>log.Fatal\<close> ends in, runs none of them.
\<close>

datatype cleanup =
    SyncLogger
  | StopTracer tracer_provider
  | CloseEtcd
  | CloseConnection string
  | CloseStore
  | StopQueue
  | StopTimer

datatype ending = Returned "cleanup list" | ExitedOne string

fun exit_code :: "ending \<Rightarrow> int" where
  "exit_code (Returned cs) = 0"
| "exit_code (ExitedOne msg) = 1"

fun cleanups :: "ending \<Rightarrow> cleanup list" where
  "cleanups (Returned cs) = cs"
| "cleanups (ExitedOne msg) = []"

text \<open>The part that the orchestrator and the worker have in common: with tracing enabled and set up, its
  shutdown is deferred; a failure is a warning.\<close>

definition with_tracing ::
  "string option \<Rightarrow> string option \<Rightarrow> string option \<Rightarrow> config \<Rightarrow> tracing \<Rightarrow> cleanup list \<Rightarrow> cleanup list \<times> tracing" where
  "with_tracing resource dial exporter cfg tr deferred =
     (if tc_Enabled (cf_Tracing cfg)
      then (case tracer_Setup resource dial exporter (tc_ServiceName (cf_Tracing cfg)) (tc_Environment (cf_Tracing cfg))
                   (tc_Endpoint (cf_Tracing cfg)) tr of
              (Inl e, tr') \<Rightarrow> (deferred, tr')
            | (Inr provider, tr') \<Rightarrow> (StopTracer provider # deferred, tr'))
      else (deferred, tr))"

definition no_tracing :: tracing where
  "no_tracing = \<lparr>tr_conns = [], tr_provider = None\<rparr>"

lemma with_tracing_cleanups:
  "with_tracing resource dial exporter cfg no_tracing deferred = (cs, tr) \<Longrightarrow>
     cs = (case tr_provider tr of None \<Rightarrow> deferred | Some p \<Rightarrow> StopTracer p # deferred)"
  by (auto simp: with_tracing_def tracer_Setup_def no_tracing_def Let_def split: option.splits if_splits)

end
