(* ===== verification/Orchestrator_Main.thy ===== *)
theory Orchestrator_Main
  imports Process_Setup Dev_Orchestrator Test_Lifecycle
begin

text \<open>
  The process of the orchestrator: \<open>main\<close> and \<open>startDevOrchestrator\<close> of \<open>cmd/orchestrator/main.go\<close>, \<open>Start\<close> of
  \<open>internal/orchestrator/server.go\<close> and the health check of \<open>node_manager.go\<close>. What the environment answers
  at each step is an argument. The listeners and the Prometheus endpoint are left out.
\<close>

section \<open>The health check\<close>

text \<open>What the loop's \<open>select\<close> receives: a tick, with the node manager and the order of its map at that time,
  or the end of the context, which \<open>Shutdown\<close> cancels. The result is what each tick warns of.\<close>

datatype health_event = HealthTick "string list" go_time node_manager | ContextDone

fun healthCheckLoop :: "duration \<Rightarrow> health_event list \<Rightarrow> string list list" where
  "healthCheckLoop timeout [] = []"
| "healthCheckLoop timeout (ContextDone # evs) = []"
| "healthCheckLoop timeout (HealthTick ord now nm # evs) = checkNodeHealth ord timeout now nm # healthCheckLoop timeout evs"

text \<open>A ticker needs a positive interval: the goroutine panics otherwise, and with it the process.\<close>

definition StartHealthCheck :: "duration \<Rightarrow> duration \<Rightarrow> (health_event list \<Rightarrow> string list list) option" where
  "StartHealthCheck interval timeout = (if interval \<le> 0 then None else Some (healthCheckLoop timeout))"

definition nm_Shutdown :: "health_event list \<Rightarrow> health_event list" where
  "nm_Shutdown evs = evs @ [ContextDone]"

lemma healthCheckLoop_app: "ContextDone \<notin> set evs \<Longrightarrow> healthCheckLoop t (evs @ evs') = healthCheckLoop t evs @ healthCheckLoop t evs'"
  by (induction t evs rule: healthCheckLoop.induct) auto

text \<open>After \<open>Shutdown\<close> nothing is checked; until then each tick names the nodes that were silent for longer
  than the timeout. The nodes stay registered and keep their status.\<close>

theorem health_check_stops:
  assumes "ContextDone \<notin> set evs"
  shows "healthCheckLoop timeout (nm_Shutdown evs @ later) = healthCheckLoop timeout evs"
    and "length (healthCheckLoop timeout evs) = length evs"
proof -
  show "healthCheckLoop timeout (nm_Shutdown evs @ later) = healthCheckLoop timeout evs"
    using assms by (simp add: nm_Shutdown_def healthCheckLoop_app)
  show "length (healthCheckLoop timeout evs) = length evs"
    using assms by (induction timeout evs rule: healthCheckLoop.induct) auto
qed

section \<open>Start\<close>

definition NewServer :: "node_manager \<Rightarrow> plan_distributor \<Rightarrow> metrics_aggregator \<Rightarrow> server" where
  "NewServer nodeManager planDistributor metricsAggregator =
     \<lparr>sv_nodes = nodeManager, sv_plans = planDistributor, sv_metrics = metricsAggregator\<rparr>"

record orch_process =
  op_server :: server
  op_address :: string
  op_metricsAddress :: string
  op_health :: "health_event list \<Rightarrow> string list list"
  op_tracing :: tracing
  op_deferred :: "cleanup list"

datatype orch_start =
    OrchEnded ending
  | OrchPanic
  | OrchServing orch_process
  | OrchDev string dev_server "cleanup list"

text \<open>\<open>None\<close> when the address cannot be listened on.\<close>

definition dev_start :: "config \<Rightarrow> string option \<Rightarrow> (string + string \<times> dev_server)" where
  "dev_start cfg listen =
     (let addr = oc_Address (cf_Orchestrator cfg) @ '':'' @ int_string (oc_Port (cf_Orchestrator cfg))
      in case listen of
           Some e \<Rightarrow> Inl (''failed to listen on '' @ addr @ '': '' @ e)
         | None \<Rightarrow> Inr (addr, startDevOrchestrator))"

definition orch_main ::
  "string + config \<Rightarrow> (logger \<Rightarrow> string option) \<Rightarrow> string \<Rightarrow> string option \<Rightarrow> string option \<Rightarrow> string option \<Rightarrow> string option
     \<Rightarrow> string option \<Rightarrow> orch_start" where
  "orch_main loaded build devMode resource dial exporter etcd listen =
     (case loaded of
        Inl e \<Rightarrow> OrchEnded (ExitedOne (''Failed to load config: '' @ e))
      | Inr cfg \<Rightarrow>
          (case config_Validate cfg of
             Some e \<Rightarrow> OrchEnded (ExitedOne (''Invalid config: '' @ config_error_text e))
           | None \<Rightarrow>
               (case logger_Init build (gc_Level (cf_Logging cfg)) (gc_Development (cf_Logging cfg)) None of
                  (Some e, _) \<Rightarrow> OrchEnded (ExitedOne (''Failed to initialize logger: '' @ e))
                | (None, _) \<Rightarrow>
                    if devMode = ''true''
                    then (case dev_start cfg listen of
                            Inl e \<Rightarrow> OrchEnded (ExitedOne ''dev orchestrator failed'')
                          | Inr (addr, dv) \<Rightarrow> OrchDev addr dv [SyncLogger])
                    else
                      (case with_tracing resource dial exporter cfg no_tracing [SyncLogger] of (deferred, tr) \<Rightarrow>
                         (case etcd of
                            Some e \<Rightarrow> OrchEnded (ExitedOne ''failed to connect to etcd'')
                          | None \<Rightarrow>
                              (case StartHealthCheck (oc_HealthCheckInterval (cf_Orchestrator cfg)) (oc_WorkerTimeout (cf_Orchestrator cfg)) of
                                 None \<Rightarrow> OrchPanic
                               | Some health \<Rightarrow> OrchServing
                                   \<lparr>op_server = NewServer (NewNodeManager (ec_Prefix (cf_Etcd cfg))) NewPlanDistributor NewMetricsAggregator,
                                    op_address = oc_Address (cf_Orchestrator cfg) @ '':'' @ int_string (oc_Port (cf_Orchestrator cfg)),
                                    op_metricsAddress = '':'' @ int_string (oc_MetricsPort (cf_Orchestrator cfg)),
                                    op_health = health, op_tracing = tr, op_deferred = CloseEtcd # deferred\<rparr>))))))"

section \<open>End\<close>

text \<open>How \<open>Start\<close> ends when it does: it cannot listen, or \<open>Serve\<close> fails.\<close>

definition server_start_error :: "string option \<Rightarrow> string \<Rightarrow> string" where
  "server_start_error listen serve =
     (case listen of Some e \<Rightarrow> ''failed to listen: '' @ e | None \<Rightarrow> ''failed to serve: '' @ serve)"

datatype orch_cause = Signalled | ServerFailed "string option" string

text \<open>The production process returns at a signal without stopping its gRPC server: calls under way are cut off.\<close>

fun orch_end :: "orch_cause \<Rightarrow> orch_process \<Rightarrow> ending" where
  "orch_end Signalled p = Returned (op_deferred p)"
| "orch_end (ServerFailed listen serve) p = ExitedOne (server_start_error listen serve)"

text \<open>The development process waits for a signal with \<open>calls\<close> under way; \<open>None\<close> while they are not all answered.\<close>

fun dev_end :: "orch_cause \<Rightarrow> nat \<Rightarrow> cleanup list \<Rightarrow> ending option" where
  "dev_end Signalled calls deferred = (if calls = 0 then Some (Returned deferred) else None)"
| "dev_end (ServerFailed listen serve) calls deferred = Some (ExitedOne ''dev orchestrator gRPC server failed'')"

section \<open>What the orchestrator starts and leaves\<close>

text \<open>The production orchestrator serves only with a valid configuration, an interval to check health at and
  a connection to etcd. It then serves the well-formed empty state at the configured address, the initial
  one of every interleaving of its handlers. At a signal it exits with 0, having closed etcd,
  the tracer if tracing was set up, and the logger, in this order; when it cannot serve it exits with 1
  and closes none of them.\<close>

theorem orchestrator_starts_and_ends:
  assumes "orch_main (Inr cfg) build devMode resource dial exporter etcd listen = OrchServing p"
  shows "config_Validate cfg = None \<and> health_check_starts cfg \<and> etcd = None \<and> devMode \<noteq> ''true''
    \<and> op_address p = oc_Address (cf_Orchestrator cfg) @ '':'' @ int_string (oc_Port (cf_Orchestrator cfg))
    \<and> nm_ok (sv_nodes (op_server p)) \<and> nm_nodes (sv_nodes (op_server p)) = []
    \<and> lc_reach reuse \<lparr>lc_plans = sv_plans (op_server p), lc_completing = [], lc_stopping = []\<rparr>
    \<and> ma_run [] (sv_metrics (op_server p))
    \<and> exit_code (orch_end Signalled p) = 0
    \<and> cleanups (orch_end Signalled p) = CloseEtcd # (case tr_provider (op_tracing p) of None \<Rightarrow> [] | Some t \<Rightarrow> [StopTracer t]) @ [SyncLogger]
    \<and> exit_code (orch_end (ServerFailed l s) p) = 1 \<and> cleanups (orch_end (ServerFailed l s) p) = []"
proof -
  obtain deferred tr health where
    v: "config_Validate cfg = None" and d: "devMode \<noteq> ''true''" and e: "etcd = None"
    and t: "with_tracing resource dial exporter cfg no_tracing [SyncLogger] = (deferred, tr)"
    and h: "StartHealthCheck (oc_HealthCheckInterval (cf_Orchestrator cfg)) (oc_WorkerTimeout (cf_Orchestrator cfg)) = Some health"
    and p: "p = \<lparr>op_server = NewServer (NewNodeManager (ec_Prefix (cf_Etcd cfg))) NewPlanDistributor NewMetricsAggregator,
       op_address = oc_Address (cf_Orchestrator cfg) @ '':'' @ int_string (oc_Port (cf_Orchestrator cfg)),
       op_metricsAddress = '':'' @ int_string (oc_MetricsPort (cf_Orchestrator cfg)),
       op_health = health, op_tracing = tr, op_deferred = CloseEtcd # deferred\<rparr>"
    using assms by (auto simp: orch_main_def split: option.splits prod.splits if_splits sum.splits)
  have "health_check_starts cfg" using h by (simp add: StartHealthCheck_def health_check_starts_def split: if_splits)
  moreover have "deferred = (case tr_provider tr of None \<Rightarrow> [] | Some t \<Rightarrow> [StopTracer t]) @ [SyncLogger]"
    using with_tracing_cleanups [OF t] by (simp split: option.splits)
  moreover have "lc_reach reuse \<lparr>lc_plans = NewPlanDistributor, lc_completing = [], lc_stopping = []\<rparr>"
    using lc_reach.init by (simp add: lc_init_def)
  moreover have "nm_nodes (NewNodeManager (ec_Prefix (cf_Etcd cfg))) = []" by (simp add: NewNodeManager_def)
  ultimately show ?thesis using v d e ma_run.start nm_ok_New by (simp add: p NewServer_def)
qed

theorem orchestrator_starts_and_ends_witness:
  "\<exists>p. orch_main (Load std_casts [] FileMissing) (\<lambda>_. None) '''' None None None None None = OrchServing p
     \<and> nm_nodes (sv_nodes (op_server p)) = [] \<and> last (cleanups (orch_end Signalled p)) = SyncLogger"
proof -
  obtain cfg where cfg: "Load std_casts [] FileMissing = Inr cfg" "config_Validate cfg = None" "health_check_starts cfg"
    using default_configuration [OF std_casts_ok] by blast
  obtain deferred tr where t: "with_tracing None None None cfg no_tracing [SyncLogger] = (deferred, tr)" by fastforce
  obtain health where h: "StartHealthCheck (oc_HealthCheckInterval (cf_Orchestrator cfg)) (oc_WorkerTimeout (cf_Orchestrator cfg)) = Some health"
    using cfg(3) by (simp add: StartHealthCheck_def health_check_starts_def)
  obtain p where p: "orch_main (Inr cfg) (\<lambda>_. None) '''' None None None None None = OrchServing p"
    using cfg(2) t h by (simp add: orch_main_def logger_Init_def)
  from orchestrator_starts_and_ends [OF p] p show ?thesis by (simp add: cfg(1))
qed

text \<open>Every other start: which failure ends the process, and with what it was about.\<close>

theorem orchestrator_fails_to_start:
  "orch_main loaded build devMode resource dial exporter etcd listen = OrchEnded r \<Longrightarrow>
     exit_code r = 1 \<and> cleanups r = [] \<and>
     (\<forall>cfg. loaded = Inr cfg \<and> config_Validate cfg = None \<and> (\<forall>l. build l = None) \<longrightarrow>
        (if devMode = ''true'' then listen \<noteq> None else etcd \<noteq> None))"
  by (auto simp: orch_main_def logger_Init_def dev_start_def Let_def split: option.splits prod.splits if_splits sum.splits)

end
