(* ===== verification/Worker_Process.thy ===== *)
theory Worker_Process
  imports Process_Setup Worker_Engine Goroutine_Pool Http_Client
begin

text \<open>
  The process of a worker: \<open>main\<close> of \<open>cmd/worker/main.go\<close> and \<open>Shutdown\<close> of \<open>internal/worker/engine.go\<close>. Its
  life is the relation \<open>wp_step\<close>: the engine's steps, calls that begin and end, the goroutine that waits
  for a signal, and \<open>main\<close>, which waits for \<open>Serve\<close> and then returns. A step is taken only while the process
  lives.
\<close>

section \<open>State\<close>

text \<open>\<open>Serving\<close> is the call of \<open>Serve\<close>, which returns once \<open>GracefulStop\<close> is through; \<open>main\<close> then runs what it has deferred.\<close>

datatype main_pc = Serving | Returning | Gone int

datatype stop_pc =
    AwaitingSignal
  | Draining
  | CancellingEngine
  | WaitingForPool
  | EngineDown "pool_error option"

record worker_process =
  wp_ID :: string
  wp_address :: string
  wp_orchestrator :: string
  wp_engine :: engine
  wp_pool :: "unit pool"
  wp_engineCtx :: bool
  wp_calls :: nat
  wp_main :: main_pc
  wp_stop :: stop_pc
  wp_vusStopped :: nat
  wp_clientClosed :: bool
  wp_tracing :: tracing
  wp_deferred :: "cleanup list"

section \<open>Start\<close>

text \<open>\<open>NewPool\<close> makes a channel of twice the size, which panics when that is negative. The pool is started and
  nothing is ever submitted to it: the virtual users of a stage are goroutines of their own.\<close>

definition NewEngine_pool :: "int \<Rightarrow> unit pool option" where
  "NewEngine_pool maxVUs = (if i64 (maxVUs * 2) < 0 then None else Some (StartPool (NewPool (nat maxVUs) (nat (i64 (maxVUs * 2))))))"

definition orch_url :: "config \<Rightarrow> string" where
  "orch_url cfg = (if wc_OrchestratorURL (cf_Worker cfg) = '''' then ''localhost:50051'' else wc_OrchestratorURL (cf_Worker cfg))"

datatype worker_start = WorkerEnded ending | WorkerPanic | WorkerServing worker_process

text \<open>The connection to the orchestrator is made when it is first used; it is never closed.\<close>

definition worker_main ::
  "string + config \<Rightarrow> (logger \<Rightarrow> string option) \<Rightarrow> string \<Rightarrow> int \<Rightarrow> string option \<Rightarrow> string option \<Rightarrow> string option
     \<Rightarrow> string option \<Rightarrow> go_time \<Rightarrow> worker_start" where
  "worker_main loaded build hostname pid resource dial exporter listen now =
     (case loaded of
        Inl e \<Rightarrow> WorkerEnded (ExitedOne (''Failed to load config: '' @ e))
      | Inr cfg \<Rightarrow>
          (case config_Validate cfg of
             Some e \<Rightarrow> WorkerEnded (ExitedOne (''Invalid config: '' @ config_error_text e))
           | None \<Rightarrow>
               (case logger_Init build (gc_Level (cf_Logging cfg)) (gc_Development (cf_Logging cfg)) None of
                  (Some e, _) \<Rightarrow> WorkerEnded (ExitedOne (''Failed to initialize logger: '' @ e))
                | (None, _) \<Rightarrow>
                    (case with_tracing resource dial exporter cfg no_tracing [SyncLogger] of (deferred, tr) \<Rightarrow>
                       (case NewEngine_pool (wc_MaxVUs (cf_Worker cfg)) of
                          None \<Rightarrow> WorkerPanic
                        | Some pool \<Rightarrow>
                            (case listen of
                               Some e \<Rightarrow> WorkerEnded (ExitedOne ''failed to listen'')
                             | None \<Rightarrow> WorkerServing
                                 \<lparr>wp_ID = worker_id (wc_ID (cf_Worker cfg)) hostname pid,
                                  wp_address = wc_Address (cf_Worker cfg) @ '':'' @ int_string (wc_Port (cf_Worker cfg)),
                                  wp_orchestrator = orch_url cfg, wp_engine = NewEngine now, wp_pool = pool,
                                  wp_engineCtx = False, wp_calls = 0, wp_main = Serving, wp_stop = AwaitingSignal,
                                  wp_vusStopped = 0, wp_clientClosed = False, wp_tracing = tr, wp_deferred = deferred\<rparr>))))))"

section \<open>Shutdown of the engine\<close>

text \<open>
  \<open>Shutdown\<close> cancels a context that nothing was derived from: a test runs under \<open>context.Background()\<close>. It stops
  the virtual users of the current stage, which are the subject of \<open>Virtual_User\<close> and are followed by those
  of the next stage, closes the pool and waits for it, and then closes the idle connections of the client.
\<close>

definition EngineShutdown :: "worker_process \<Rightarrow> worker_process" where
  "EngineShutdown p =
     p\<lparr>wp_engineCtx := True, wp_vusStopped := wp_vusStopped p + en_virtualUsers (wp_engine p),
       wp_pool := ShutdownBegin (wp_pool p), wp_stop := WaitingForPool\<rparr>"

definition EngineClose :: "pool_error option \<Rightarrow> worker_process \<Rightarrow> worker_process" where
  "EngineClose err p = p\<lparr>wp_clientClosed := True, wp_stop := EngineDown err\<rparr>"

section \<open>Steps\<close>

inductive wp_step :: "worker_process \<Rightarrow> worker_process \<Rightarrow> bool" where
  engine: "wp_main p \<in> {Serving, Returning} \<Longrightarrow> \<not> en_crashed (wp_engine p) \<Longrightarrow> en_step (wp_engine p) e \<Longrightarrow>
    length (en_runs e) = length (en_runs (wp_engine p)) \<Longrightarrow> wp_step p (p\<lparr>wp_engine := e\<rparr>)"
| accept: "wp_main p = Serving \<Longrightarrow> wp_stop p = AwaitingSignal \<Longrightarrow> wp_step p (p\<lparr>wp_calls := Suc (wp_calls p)\<rparr>)"
| run_test: "wp_main p \<in> {Serving, Returning} \<Longrightarrow> 0 < wp_calls p \<Longrightarrow> \<not> en_crashed (wp_engine p) \<Longrightarrow> en_step (wp_engine p) e \<Longrightarrow>
    wp_step p (p\<lparr>wp_engine := e\<rparr>)"
| answer: "wp_main p \<in> {Serving, Returning} \<Longrightarrow> 0 < wp_calls p \<Longrightarrow> wp_step p (p\<lparr>wp_calls := wp_calls p - 1\<rparr>)"
| pool: "wp_main p \<in> {Serving, Returning} \<Longrightarrow> work i (wp_pool p) q \<Longrightarrow> wp_step p (p\<lparr>wp_pool := q\<rparr>)"
| signal: "wp_main p = Serving \<Longrightarrow> wp_stop p = AwaitingSignal \<Longrightarrow> wp_step p (p\<lparr>wp_stop := Draining\<rparr>)"
| drained: "wp_main p = Serving \<Longrightarrow> wp_stop p = Draining \<Longrightarrow> wp_calls p = 0 \<Longrightarrow> wp_step p (p\<lparr>wp_stop := CancellingEngine\<rparr>)"
| shutdown: "wp_main p \<in> {Serving, Returning} \<Longrightarrow> wp_stop p = CancellingEngine \<Longrightarrow> wp_step p (EngineShutdown p)"
| pool_down: "wp_main p \<in> {Serving, Returning} \<Longrightarrow> wp_stop p = WaitingForPool \<Longrightarrow> all_exited (wp_pool p) \<Longrightarrow>
    wp_step p (EngineClose None p)"
| pool_timeout: "wp_main p \<in> {Serving, Returning} \<Longrightarrow> wp_stop p = WaitingForPool \<Longrightarrow>
    wp_step p (EngineClose (Some ErrShutdownTimeout) p)"
| serve_fails: "wp_main p = Serving \<Longrightarrow> wp_stop p = AwaitingSignal \<Longrightarrow> wp_step p (p\<lparr>wp_main := Gone 1\<rparr>)"
| serve_returns: "wp_main p = Serving \<Longrightarrow> wp_stop p \<notin> {AwaitingSignal, Draining} \<Longrightarrow> wp_step p (p\<lparr>wp_main := Returning\<rparr>)"
| main_returns: "wp_main p = Returning \<Longrightarrow> wp_step p (p\<lparr>wp_main := Gone 0\<rparr>)"

inductive_cases wp_stepE: "wp_step p p'"

inductive wp_reach :: "worker_process \<Rightarrow> bool" where
  start: "worker_main loaded build hostname pid resource dial exporter listen now = WorkerServing p \<Longrightarrow> wp_reach p"
| step: "wp_reach p \<Longrightarrow> wp_step p p' \<Longrightarrow> wp_reach p'"

text \<open>A panic of a test crashes the process as well; \<open>en_crashed\<close> says so.\<close>

section \<open>Invariant\<close>

text \<open>No pool worker has anything to do, and when \<open>Serve\<close> has returned there is no call left.\<close>

definition wp_inv :: "worker_process \<Rightarrow> bool" where
  "wp_inv p \<longleftrightarrow> po_queue (wp_pool p) = [] \<and> (\<forall>w \<in> set (po_workers (wp_pool p)). w = Waiting \<or> w = Exited)
     \<and> (wp_stop p \<notin> {AwaitingSignal, Draining} \<longrightarrow> wp_calls p = 0)
     \<and> (wp_stop p \<in> {AwaitingSignal, Draining} \<longrightarrow> wp_main p \<in> {Serving, Gone 1})
     \<and> (wp_main p = Gone 1 \<longrightarrow> wp_stop p = AwaitingSignal)
     \<and> (\<forall>c. wp_main p = Gone c \<longrightarrow> c = 0 \<or> c = 1)
     \<and> (wp_stop p = WaitingForPool \<longrightarrow> po_closed (wp_pool p))"

lemma wp_inv_idle: "wp_inv p \<Longrightarrow> \<forall>w \<in> set (po_workers (wp_pool p)). w = Waiting \<or> w = Exited"
  and wp_inv_queue: "wp_inv p \<Longrightarrow> po_queue (wp_pool p) = []"
  and wp_inv_closed: "wp_inv p \<Longrightarrow> wp_stop p = WaitingForPool \<Longrightarrow> po_closed (wp_pool p)"
  unfolding wp_inv_def by (elim conjE, assumption)+ (elim conjE, erule mp)

lemma work_idle:
  "work i p q \<Longrightarrow> po_queue p = [] \<Longrightarrow> \<forall>w \<in> set (po_workers p). w = Waiting \<or> w = Exited \<Longrightarrow>
     po_queue q = [] \<and> (\<forall>w \<in> set (po_workers q). w = Waiting \<or> w = Exited) \<and> po_closed q = po_closed p"
  by (induction rule: work.induct) (auto simp: set_worker_def dest!: set_update_subset_insert [THEN subsetD] dest: nth_mem)

lemma wp_inv_start:
  "worker_main loaded build hostname pid resource dial exporter listen now = WorkerServing p \<Longrightarrow> wp_inv p \<and> wp_main p = Serving \<and> wp_stop p = AwaitingSignal"
  by (auto simp: worker_main_def NewEngine_pool_def StartPool_def NewPool_def wp_inv_def split: sum.splits option.splits prod.splits if_splits)

lemma wp_inv_step: "wp_step p p' \<Longrightarrow> wp_inv p \<Longrightarrow> wp_inv p'"
proof (induction rule: wp_step.induct)
  case (pool p i q)
  with work_idle [OF pool(2)] show ?case by (simp add: wp_inv_def)
qed (auto simp: wp_inv_def EngineShutdown_def EngineClose_def ShutdownBegin_def)

lemma wp_inv_reach: "wp_reach p \<Longrightarrow> wp_inv p"
  by (induction rule: wp_reach.induct) (auto simp: wp_inv_start wp_inv_step)

section \<open>The pool always comes down\<close>

lemma idle_worker_exits:
  assumes "po_closed p" and "po_queue p = []" and "i < length (po_workers p)" and "po_workers p ! i = Waiting"
  shows "work i p (set_worker i Exited p)"
  using assms by (intro work.drained) auto

lemma pool_drains:
  assumes "wp_main p \<in> {Serving, Returning}" and "wp_stop p = WaitingForPool" and "wp_inv p"
  shows "\<exists>q. wp_step\<^sup>*\<^sup>* p (p\<lparr>wp_pool := q\<rparr>) \<and> all_exited q"
  using assms
proof (induction "length (filter (\<lambda>w. w = Waiting) (po_workers (wp_pool p)))" arbitrary: p rule: less_induct)
  case less
  show ?case
  proof (cases "all_exited (wp_pool p)")
    case True
    then show ?thesis by (intro exI [of _ "wp_pool p"]) simp
  next
    case False
    let ?ws = "po_workers (wp_pool p)"
    obtain w where "w \<in> set ?ws" "w \<noteq> Exited" using False unfolding all_exited_def by blast
    with wp_inv_idle [OF less.prems(3)] have "Waiting \<in> set ?ws" by metis
    then obtain i where i: "i < length ?ws" "?ws ! i = Waiting" unfolding in_set_conv_nth by blast
    let ?q = "set_worker i Exited (wp_pool p)"
    have w: "work i (wp_pool p) ?q" 
      using wp_inv_closed [OF less.prems(3,2)] wp_inv_queue [OF less.prems(3)] i by (rule idle_worker_exits)
    have s: "wp_step p (p\<lparr>wp_pool := ?q\<rparr>)" using less.prems(1) w by (rule wp_step.pool)
    let ?n = "\<lambda>xs :: unit worker_pc list. length (filter (\<lambda>w. w = Waiting) xs)"
    have "?n (?ws[i := Exited]) = ?n (take i ?ws) + ?n (drop (Suc i) ?ws)" using i(1) by (simp add: upd_conv_take_nth_drop)
    moreover have "?n ?ws = Suc (?n (take i ?ws) + ?n (drop (Suc i) ?ws))"
      by (subst (1) id_take_nth_drop [OF i(1)]) (simp add: i(2))
    ultimately have "?n (?ws[i := Exited]) < ?n ?ws" by simp
    then have "length (filter (\<lambda>w. w = Waiting) (po_workers (wp_pool (p\<lparr>wp_pool := ?q\<rparr>)))) < length (filter (\<lambda>w. w = Waiting) ?ws)"
      by (simp add: set_worker_def)
    from less.hyps [OF this] wp_inv_step [OF s less.prems(3)] less.prems(1,2) obtain q where
      "wp_step\<^sup>*\<^sup>* (p\<lparr>wp_pool := ?q\<rparr>) (p\<lparr>wp_pool := q\<rparr>)" "all_exited q" by auto
    with s show ?thesis by (meson converse_rtranclp_into_rtranclp)
  qed
qed

section \<open>What a signal does to a test\<close>

lemma exit_path:
  assumes "wp_main p = Serving" and "wp_stop p \<notin> {AwaitingSignal, Draining}"
  shows "wp_step\<^sup>*\<^sup>* p (p\<lparr>wp_main := Gone 0\<rparr>)"
proof -
  have "wp_step p (p\<lparr>wp_main := Returning\<rparr>)" using assms by (rule wp_step.serve_returns)
  moreover have "wp_step (p\<lparr>wp_main := Returning\<rparr>) (p\<lparr>wp_main := Gone 0\<rparr>)"
    using wp_step.main_returns [of "p\<lparr>wp_main := Returning\<rparr>"] by simp
  ultimately show ?thesis by (meson converse_rtranclp_into_rtranclp rtranclp.rtrancl_refl)
qed

text \<open>C31: A worker that is told to end lets the calls under way finish: it exits with 0 only after a signal and
  with none left. It does not let its test finish, and does not end it either: no step of the shutdown cancels
  a test, and once the calls are through the process can exit at any moment, before the engine was
  shut down and with the test and what was sent of it as they stand, so that its last report is never sent.\<close>

theorem worker_exit_abandons_test:
  assumes "wp_reach p"
  shows "(wp_main p = Gone 0 \<longrightarrow> wp_calls p = 0 \<and> wp_stop p \<notin> {AwaitingSignal, Draining})
    \<and> (\<forall>p'. wp_step p p' \<and> wp_stop p' \<noteq> wp_stop p \<longrightarrow> wp_engine p' = wp_engine p)
    \<and> (wp_main p = Serving \<and> wp_calls p = 0 \<longrightarrow>
        (\<exists>p'. wp_step\<^sup>*\<^sup>* p p' \<and> wp_main p' = Gone 0 \<and> wp_engine p' = wp_engine p \<and> wp_engineCtx p' = wp_engineCtx p))"
proof (intro conjI allI impI)
  have inv: "wp_inv p" using assms by (rule wp_inv_reach)
  { assume "wp_main p = Gone 0"
    then have "wp_stop p \<notin> {AwaitingSignal, Draining}" using inv by (auto simp: wp_inv_def)
    with inv show "wp_calls p = 0" "wp_stop p \<notin> {AwaitingSignal, Draining}" by (auto simp: wp_inv_def) }
  show "wp_engine p' = wp_engine p" if "wp_step p p' \<and> wp_stop p' \<noteq> wp_stop p" for p'
    using that by (auto elim!: wp_stepE simp: EngineShutdown_def EngineClose_def)
  assume s: "wp_main p = Serving \<and> wp_calls p = 0"
  have d: "wp_step\<^sup>*\<^sup>* q (q\<lparr>wp_stop := CancellingEngine, wp_main := Gone 0\<rparr>)"
    if "wp_main q = Serving" "wp_calls q = 0" "wp_stop q = Draining" for q
    using wp_step.drained [OF that(1,3,2)] exit_path [of "q\<lparr>wp_stop := CancellingEngine\<rparr>"] that(1)
    by (simp add: converse_rtranclp_into_rtranclp)
  show "\<exists>p'. wp_step\<^sup>*\<^sup>* p p' \<and> wp_main p' = Gone 0 \<and> wp_engine p' = wp_engine p \<and> wp_engineCtx p' = wp_engineCtx p"
  proof (cases "wp_stop p \<in> {AwaitingSignal, Draining}")
    case True
    have "wp_step\<^sup>*\<^sup>* p (p\<lparr>wp_stop := CancellingEngine, wp_main := Gone 0\<rparr>)"
    proof (cases "wp_stop p = Draining")
      case False
      then have a: "wp_stop p = AwaitingSignal" using True by simp
      have "wp_step p (p\<lparr>wp_stop := Draining\<rparr>)" using s a by (intro wp_step.signal) simp_all
      with d [of "p\<lparr>wp_stop := Draining\<rparr>"] s show ?thesis by (simp add: converse_rtranclp_into_rtranclp)
    qed (use d s in simp)
    then show ?thesis by (intro exI [of _ "p\<lparr>wp_stop := CancellingEngine, wp_main := Gone 0\<rparr>"]) simp
  next
    case False
    with exit_path [of p] s show ?thesis by (intro exI [of _ "p\<lparr>wp_main := Gone 0\<rparr>"]) simp
  qed
qed

text \<open>Left to itself, the shutdown of the engine comes to its end without running into the timeout.\<close>

theorem engine_shutdown_completes:
  assumes "wp_reach p" and "wp_main p \<in> {Serving, Returning}" and "wp_stop p \<in> {CancellingEngine, WaitingForPool}"
  shows "\<exists>p'. wp_step\<^sup>*\<^sup>* p p' \<and> wp_stop p' = EngineDown None \<and> wp_engine p' = wp_engine p"
proof -
  have d: "\<exists>p'. wp_step\<^sup>*\<^sup>* q p' \<and> wp_stop p' = EngineDown None \<and> wp_engine p' = wp_engine q"
    if q: "wp_inv q" "wp_main q \<in> {Serving, Returning}" "wp_stop q = WaitingForPool" for q
  proof -
    obtain r where r: "wp_step\<^sup>*\<^sup>* q (q\<lparr>wp_pool := r\<rparr>)" "all_exited r" using pool_drains [OF q(2,3,1)] by blast
    have "wp_step (q\<lparr>wp_pool := r\<rparr>) (EngineClose None (q\<lparr>wp_pool := r\<rparr>))"
      using wp_step.pool_down [of "q\<lparr>wp_pool := r\<rparr>"] q r(2) by simp
    with r(1) show ?thesis by (intro exI [of _ "EngineClose None (q\<lparr>wp_pool := r\<rparr>)"]) (auto simp: EngineClose_def)
  qed
  note inv = wp_inv_reach [OF assms(1)]
  show ?thesis
  proof (cases "wp_stop p = WaitingForPool")
    case False
    then have s: "wp_step p (EngineShutdown p)" using assms by (intro wp_step.shutdown) auto
    from d [OF wp_inv_step [OF s inv]] assms(2) obtain p' where
      "wp_step\<^sup>*\<^sup>* (EngineShutdown p) p'" "wp_stop p' = EngineDown None" "wp_engine p' = wp_engine p"
      by (auto simp: EngineShutdown_def)
    with s show ?thesis by (meson converse_rtranclp_into_rtranclp)
  qed (use d [OF inv] assms in blast)
qed

text \<open>A worker with the default configuration, told to end while it runs the test of \<open>demo_run_request\<close>.\<close>

lemma demo_worker:
  "\<exists>p. wp_reach p \<and> wp_engine p = NewEngine 0 \<and> wp_calls p = 0 \<and> wp_main p = Serving \<and> wp_stop p = AwaitingSignal \<and> \<not> wp_engineCtx p"
proof -
  let ?cfg = "build_config std_casts (lookup [] [])"
  have v: "config_Validate ?cfg = None" using default_configuration [OF std_casts_ok] by (simp add: Load_def)
  have "wc_MaxVUs (cf_Worker ?cfg) = 1000" by (simp add: build_config_def lookup_def defaults_def std_casts_def)
  then have "NewEngine_pool (wc_MaxVUs (cf_Worker ?cfg)) \<noteq> None" by (simp add: NewEngine_pool_def i64_id in64_def)
  then obtain pool where pool: "NewEngine_pool (wc_MaxVUs (cf_Worker ?cfg)) = Some pool" by blast
  obtain deferred tr where t: "with_tracing None None None ?cfg no_tracing [SyncLogger] = (deferred, tr)" by fastforce
  obtain p where p: "worker_main (Inr ?cfg) (\<lambda>_. None) ''host'' 1 None None None None 0 = WorkerServing p" "wp_engine p = NewEngine 0"
    "wp_calls p = 0" "\<not> wp_engineCtx p"
    using v pool t by (simp add: worker_main_def logger_Init_def)
  from wp_inv_start [OF p(1)] wp_reach.start [OF p(1)] p(2-) show ?thesis by blast
qed

theorem worker_exit_abandons_test_witness:
  "\<exists>p p'. wp_step\<^sup>*\<^sup>* p p' \<and> wp_main p' = Gone 0 \<and> map ru_pc (en_runs (wp_engine p')) = [Spawned] \<and> \<not> wp_engineCtx p'"
proof -
  obtain p where p: "wp_reach p" "wp_engine p = NewEngine 0" "wp_calls p = 0" "wp_main p = Serving" "wp_stop p = AwaitingSignal" "\<not> wp_engineCtx p"
    using demo_worker by blast
  let ?e = "(NewEngine 0)\<lparr>en_runs := [new_run (''a'', demo_job_plan, 1)]\<rparr>"
  let ?q1 = "p\<lparr>wp_calls := 1\<rparr>" let ?q2 = "?q1\<lparr>wp_engine := ?e\<rparr>" let ?q3 = "?q2\<lparr>wp_calls := 0\<rparr>"
  have "wp_step p ?q1" using wp_step.accept [OF p(4,5)] p(3) by simp
  moreover have "wp_step ?q1 ?q2" by (rule wp_step.run_test)
    (use p en_step.run_test [OF demo_accepted, of "NewEngine 0"] in \<open>simp_all add: NewEngine_def\<close>)
  moreover have "wp_step ?q2 ?q3" using wp_step.answer [of ?q2] p(4) by simp
  ultimately have "wp_reach ?q3" using p(1) by (blast intro: wp_reach.step)
  from worker_exit_abandons_test [OF this] p obtain p' where
    "wp_step\<^sup>*\<^sup>* ?q3 p'" "wp_main p' = Gone 0" "wp_engine p' = ?e" "\<not> wp_engineCtx p'" by auto
  then show ?thesis by (intro exI [of _ ?q3] exI [of _ p']) (simp add: new_run_def NewEngine_def)
qed

text \<open>A negative number of virtual users passes validation and panics in the engine's pool.\<close>

theorem negative_max_vus_panics:
  assumes "config_Validate cfg = None" and "build \<lparr>lg_Level = zap_level (gc_Level (cf_Logging cfg)), lg_Development = gc_Development (cf_Logging cfg),
      lg_TimeKey = ''timestamp''\<rparr> = None" and "- (2 ^ 62) \<le> wc_MaxVUs (cf_Worker cfg)" and "wc_MaxVUs (cf_Worker cfg) < 0"
  shows "worker_main (Inr cfg) build hostname pid resource dial exporter listen now = WorkerPanic"
proof -
  have "i64 (wc_MaxVUs (cf_Worker cfg) * 2) = wc_MaxVUs (cf_Worker cfg) * 2" using assms(3,4) by (intro i64_id) (simp add: in64_def)
  then have "NewEngine_pool (wc_MaxVUs (cf_Worker cfg)) = None" using assms(4) by (simp add: NewEngine_pool_def)
  with assms(1,2) show ?thesis by (simp add: worker_main_def logger_Init_def Let_def split: prod.splits)
qed

end
