(* ===== verification/Store_Open.thy ===== *)
theory Store_Open
  imports Run_Store "HOL-Library.Monad_Syntax"
begin

text \<open>
  Opening the database: \<open>Open\<close>, \<open>applyMigrations\<close>, \<open>runColumns\<close> and \<open>scanRun\<close> of \<open>internal/store/store.go\<close> over
  a file that an earlier version may have written. Of the file the table of runs, which the migrations
  change, is kept as columns and rows; the other tables are what \<open>Run_Store\<close> says, and empty when they did
  not exist. A statement may meet a fault of the driver, an argument.
\<close>

section \<open>The file\<close>

datatype sql_value = Null | Text string | Integer int64 | Real f64

record db_file =
  fl_runs :: "(string list \<times> sql_value list list) option"
  fl_rest :: db

definition run_table_columns :: "string list" where
  "run_table_columns =
     [''id'', ''name'', ''plan_spec'', ''status'', ''started_at'', ''started_by'', ''finished_at'', ''dispatched_at'', ''workers'',
      ''peak_vus'', ''total_requests'', ''total_errors'', ''error_pct'', ''peak_rps'', ''avg_rps'', ''p95_ms'', ''p99_ms'']"

text \<open>\<open>CREATE TABLE IF NOT EXISTS runs\<close>.\<close>

definition create_runs :: "db_file \<Rightarrow> db_file" where
  "create_runs f = (case fl_runs f of None \<Rightarrow> f\<lparr>fl_runs := Some (run_table_columns, [])\<rparr> | Some t \<Rightarrow> f)"

text \<open>The schema: its indexes need their columns. A fault may come before or after the table of runs was created.\<close>

definition exec_schema :: "(string \<times> bool) option \<Rightarrow> db_file \<Rightarrow> string option \<times> db_file" where
  "exec_schema flt f =
     (case flt of
        Some (e, created) \<Rightarrow> (Some e, if created then create_runs f else f)
      | None \<Rightarrow>
          (case fl_runs (create_runs f) of
             None \<Rightarrow> (Some ''no such table: main.runs'', create_runs f)
           | Some (cols, rows) \<Rightarrow>
               if ''started_at'' \<notin> set cols then (Some ''no such column: started_at'', create_runs f)
               else if ''status'' \<notin> set cols then (Some ''no such column: status'', create_runs f)
               else (None, create_runs f)))"

text \<open>\<open>ALTER TABLE runs ADD COLUMN c type\<close>: the rows there are get \<open>NULL\<close> in the new column.\<close>

definition add_column :: "string \<Rightarrow> string list \<times> sql_value list list \<Rightarrow> string list \<times> sql_value list list" where
  "add_column c t = (fst t @ [c], map (\<lambda>r. r @ [Null]) (snd t))"

definition exec_migration :: "(string \<Rightarrow> fault) \<Rightarrow> string \<Rightarrow> db_file \<Rightarrow> string option \<times> db_file" where
  "exec_migration flt stmt f =
     (case flt stmt of
        Some e \<Rightarrow> (Some e, f)
      | None \<Rightarrow>
          (case fl_runs f of
             None \<Rightarrow> (Some ''SQL logic error: no such table: runs (1)'', f)
           | Some t \<Rightarrow>
               (case split_on CHR '' '' stmt of
                  [alter, tbl, name, add, column, c, type] \<Rightarrow>
                    if c \<in> set (fst t) then (Some (''SQL logic error: duplicate column name: '' @ c @ '' (1)''), f)
                    else (None, f\<lparr>fl_runs := Some (add_column c t)\<rparr>)
                | _ \<Rightarrow> (Some ''SQL logic error: syntax error (1)'', f))))"

section \<open>Migrations\<close>

fun applyMigrations :: "(string \<Rightarrow> 's \<Rightarrow> string option \<times> 's) \<Rightarrow> string list \<Rightarrow> 's \<Rightarrow> string option \<times> 's" where
  "applyMigrations exec [] f = (None, f)"
| "applyMigrations exec (stmt # stmts) f =
     (case exec stmt f of
        (None, f') \<Rightarrow> applyMigrations exec stmts f'
      | (Some e, f') \<Rightarrow>
          if str_contains e ''duplicate column name'' then applyMigrations exec stmts f'
          else (Some (''migration '' @ [CHR 0x22] @ stmt @ [CHR 0x22] @ '': '' @ e), f'))"

definition migrations :: "string list" where
  "migrations = [''ALTER TABLE runs ADD COLUMN dispatched_at INTEGER'', ''ALTER TABLE runs ADD COLUMN started_by TEXT'']"

section \<open>Open\<close>

record sqlite_store =
  st_path :: string
  st_MaxOpenConns :: nat

text \<open>The store or the error, the file afterwards, and whether the connection is still open.\<close>

definition Open ::
  "fault \<Rightarrow> (string \<times> bool) option \<Rightarrow> (string \<Rightarrow> fault) \<Rightarrow> string \<Rightarrow> db_file \<Rightarrow> (string + sqlite_store) \<times> db_file \<times> bool" where
  "Open flto flts fltm path f =
     (case flto of
        Some e \<Rightarrow> (Inl (''open '' @ path @ '': '' @ e), f, False)
      | None \<Rightarrow>
          (case exec_schema flts f of
             (Some e, f1) \<Rightarrow> (Inl (''apply schema: '' @ e), f1, False)
           | (None, f1) \<Rightarrow>
               (case applyMigrations (exec_migration fltm) migrations f1 of
                  (Some e, f2) \<Rightarrow> (Inl e, f2, False)
                | (None, f2) \<Rightarrow> (Inr \<lparr>st_path = path, st_MaxOpenConns = 1\<rparr>, f2, True))))"

section \<open>Reading the runs\<close>

definition row_value :: "string list \<Rightarrow> sql_value list \<Rightarrow> string \<Rightarrow> sql_value" where
  "row_value cols row c = (case map_of (zip cols row) c of None \<Rightarrow> Null | Some v \<Rightarrow> v)"

text \<open>\<open>runColumns\<close>: the columns in this order, the user coalesced with the empty text.\<close>

definition runColumns :: "string list \<Rightarrow> sql_value list \<Rightarrow> sql_value list" where
  "runColumns cols row =
     map (\<lambda>c. if c = ''started_by'' \<and> row_value cols row c = Null then Text '''' else row_value cols row c)
       [''id'', ''name'', ''plan_spec'', ''status'', ''started_at'', ''started_by'', ''finished_at'', ''dispatched_at'', ''workers'',
        ''peak_vus'', ''total_requests'', ''total_errors'', ''error_pct'', ''peak_rps'', ''avg_rps'', ''p95_ms'', ''p99_ms'']"

fun as_text :: "sql_value \<Rightarrow> string option" where
  "as_text (Text s) = Some s"
| "as_text _ = None"

fun as_int :: "sql_value \<Rightarrow> int64 option" where
  "as_int (Integer i) = Some i"
| "as_int _ = None"

fun as_real :: "sql_value \<Rightarrow> f64 option" where
  "as_real (Real x) = Some x"
| "as_real _ = None"

text \<open>The target \<open>*int64\<close> takes \<open>NULL\<close> as nil.\<close>

fun as_pointer :: "sql_value \<Rightarrow> int64 option option" where
  "as_pointer Null = Some None"
| "as_pointer (Integer i) = Some (Some i)"
| "as_pointer _ = None"

text \<open>\<open>None\<close> is an error of the scan.\<close>

definition scanRun :: "sql_value list \<Rightarrow> run_row option" where
  "scanRun vs =
     do { i \<leftarrow> as_text (vs ! 0); n \<leftarrow> as_text (vs ! 1); spec \<leftarrow> as_text (vs ! 2); status \<leftarrow> as_text (vs ! 3);
          started \<leftarrow> as_int (vs ! 4); by \<leftarrow> as_text (vs ! 5); finished \<leftarrow> as_pointer (vs ! 6); dispatched \<leftarrow> as_pointer (vs ! 7);
          workers \<leftarrow> as_int (vs ! 8); peak \<leftarrow> as_int (vs ! 9); requests \<leftarrow> as_int (vs ! 10); errors \<leftarrow> as_int (vs ! 11);
          pct \<leftarrow> as_real (vs ! 12); peakRPS \<leftarrow> as_real (vs ! 13); avgRPS \<leftarrow> as_real (vs ! 14);
          p95 \<leftarrow> as_int (vs ! 15); p99 \<leftarrow> as_int (vs ! 16);
          Some \<lparr>rw_ID = i, rw_Name = n, rw_PlanSpec = spec, rw_Status = status, rw_StartedAt = started, rw_StartedBy = by,
            rw_FinishedAt = finished, rw_DispatchedAt = dispatched, rw_Workers = workers, rw_PeakVUs = peak,
            rw_TotalRequests = requests, rw_TotalErrors = errors, rw_ErrorPct = pct, rw_PeakRPS = peakRPS, rw_AvgRPS = avgRPS,
            rw_P95Ms = p95, rw_P99Ms = p99\<rparr> }"

text \<open>What the methods of the store find in a file that is open.\<close>

definition contents :: "db_file \<Rightarrow> db option" where
  "contents f =
     (case fl_runs f of
        None \<Rightarrow> None
      | Some (cols, rows) \<Rightarrow>
          if \<not> set run_table_columns \<subseteq> set cols then None
          else do { rs \<leftarrow> those (map (\<lambda>row. scanRun (runColumns cols row)) rows); Some ((fl_rest f)\<lparr>db_runs := rs\<rparr>) })"

section \<open>No opening loses a row\<close>

text \<open>What a file may have become: columns were added, their values are \<open>NULL\<close>.\<close>

definition extends :: "db_file \<Rightarrow> db_file \<Rightarrow> bool" where
  "extends f f' \<longleftrightarrow> fl_rest f' = fl_rest f \<and>
     (case fl_runs f of
        None \<Rightarrow> True
      | Some (cols, rows) \<Rightarrow> \<exists>new. fl_runs f' = Some (cols @ new, map (\<lambda>r. r @ replicate (length new) Null) rows))"

lemma extends_refl [simp]: "extends f f"
  by (auto simp: extends_def split: option.split intro: exI [of _ "[]"])

lemma extends_trans: "extends f g \<Longrightarrow> extends g h \<Longrightarrow> extends f h"
proof (cases "fl_runs f")
  case (Some t)
  obtain cols rows where t: "t = (cols, rows)" by fastforce
  assume fg: "extends f g" and gh: "extends g h"
  from fg obtain new where "fl_runs g = Some (cols @ new, map (\<lambda>r. r @ replicate (length new) Null) rows)"
    by (auto simp: extends_def Some t)
  with gh obtain new' where "fl_runs h = Some ((cols @ new) @ new', map (\<lambda>r. r @ replicate (length new') Null)
      (map (\<lambda>r. r @ replicate (length new) Null) rows))" by (auto simp: extends_def)
  then have "fl_runs h = Some (cols @ (new @ new'), map (\<lambda>r. r @ replicate (length (new @ new')) Null) rows)"
    by (simp add: replicate_add)
  with fg gh show ?thesis unfolding extends_def Some t by auto
qed (simp add: extends_def)

lemma create_runs_extends [simp]: "extends f (create_runs f)"
  by (cases "fl_runs f") (simp_all add: create_runs_def, simp add: extends_def)

lemma exec_schema_extends: "exec_schema flt f = (e, f') \<Longrightarrow> extends f f'"
  by (auto simp: exec_schema_def split: option.splits prod.splits if_splits)

lemma add_column_extends: "fl_runs f = Some t \<Longrightarrow> extends f (f\<lparr>fl_runs := Some (add_column c t)\<rparr>)"
  by (cases t) (auto simp: extends_def add_column_def intro!: exI [of _ "[c]"])

lemma exec_migration_extends: "exec_migration flt stmt f = (e, f') \<Longrightarrow> extends f f'"
  by (auto simp: exec_migration_def add_column_extends split: option.splits list.splits if_splits)

lemma applyMigrations_extends: "applyMigrations (exec_migration flt) stmts f = (e, f') \<Longrightarrow> extends f f'"
  by (induction stmts arbitrary: f)
    (auto split: prod.splits option.splits if_splits dest!: exec_migration_extends intro: extends_trans)

section \<open>Upgrading\<close>

text \<open>A run as a version of the program with the columns \<open>cols\<close> has stored it, and what is left of it.\<close>

definition pointer_value :: "int64 option \<Rightarrow> sql_value" where
  "pointer_value p = (case p of None \<Rightarrow> Null | Some i \<Rightarrow> Integer i)"

definition run_value :: "run_row \<Rightarrow> string \<Rightarrow> sql_value" where
  "run_value r c =
     (case map_of
       [(''id'', Text (rw_ID r)), (''name'', Text (rw_Name r)), (''plan_spec'', Text (rw_PlanSpec r)), (''status'', Text (rw_Status r)),
        (''started_at'', Integer (rw_StartedAt r)), (''started_by'', Text (rw_StartedBy r)),
        (''finished_at'', pointer_value (rw_FinishedAt r)), (''dispatched_at'', pointer_value (rw_DispatchedAt r)),
        (''workers'', Integer (rw_Workers r)), (''peak_vus'', Integer (rw_PeakVUs r)),
        (''total_requests'', Integer (rw_TotalRequests r)), (''total_errors'', Integer (rw_TotalErrors r)),
        (''error_pct'', Real (rw_ErrorPct r)), (''peak_rps'', Real (rw_PeakRPS r)), (''avg_rps'', Real (rw_AvgRPS r)),
        (''p95_ms'', Integer (rw_P95Ms r)), (''p99_ms'', Integer (rw_P99Ms r))] c
      of None \<Rightarrow> Null | Some v \<Rightarrow> v)"

definition keep :: "string list \<Rightarrow> run_row \<Rightarrow> run_row" where
  "keep cols r = r\<lparr>rw_StartedBy := (if ''started_by'' \<in> set cols then rw_StartedBy r else ''''),
     rw_DispatchedAt := (if ''dispatched_at'' \<in> set cols then rw_DispatchedAt r else None)\<rparr>"

definition upgradable :: "string list \<Rightarrow> bool" where
  "upgradable cols \<longleftrightarrow>
     set [''id'', ''name'', ''plan_spec'', ''status'', ''started_at'', ''finished_at'', ''workers'', ''peak_vus'', ''total_requests'',
       ''total_errors'', ''error_pct'', ''peak_rps'', ''avg_rps'', ''p95_ms'', ''p99_ms''] \<subseteq> set cols"

text \<open>The columns both migrations leave.\<close>

definition upgraded :: "string list \<Rightarrow> string list" where
  "upgraded cols = cols @ filter (\<lambda>c. c \<notin> set cols) [''dispatched_at'', ''started_by'']"

lemma row_value_upgraded:
  "row_value (cols @ new) (map (run_value r) cols @ replicate (length new) Null) c = (if c \<in> set cols then run_value r c else Null)"
proof -
  have "map_of (zip new (replicate (length new) Null)) c = (if c \<in> set new then Some Null else None)"
    by (induction new) auto
  then show ?thesis by (simp add: row_value_def map_of_zip_map map_add_def)
qed

lemma as_pointer_value [simp]: "as_pointer (pointer_value p) = Some p"
  by (simp add: pointer_value_def split: option.split)

lemma scanRun_upgraded:
  assumes "upgradable cols"
  shows "scanRun (runColumns (cols @ new) (map (run_value r) cols @ replicate (length new) Null)) = Some (keep cols r)"
  using assms
  by (cases r) (simp add: scanRun_def runColumns_def row_value_upgraded upgradable_def run_value_def keep_def)

lemma split_migrations:
  "split_on CHR '' '' ''ALTER TABLE runs ADD COLUMN dispatched_at INTEGER'' = [''ALTER'', ''TABLE'', ''runs'', ''ADD'', ''COLUMN'', ''dispatched_at'', ''INTEGER'']"
  "split_on CHR '' '' ''ALTER TABLE runs ADD COLUMN started_by TEXT'' = [''ALTER'', ''TABLE'', ''runs'', ''ADD'', ''COLUMN'', ''started_by'', ''TEXT'']"
  by simp_all

lemma duplicate_ignored: "str_contains (''SQL logic error: duplicate column name: '' @ s) ''duplicate column name''"
  unfolding str_contains_iff by (intro exI [of _ "''SQL logic error: ''"] exI [of _ "'': '' @ s"]) simp

text \<open>One migration whose statement names \<open>c\<close>.\<close>

lemma migration_step:
  assumes "split_on CHR '' '' stmt = [a1, a2, a3, a4, a5, c, a7]" and "fl_runs f = Some (cols, rows)"
  shows "applyMigrations (exec_migration (\<lambda>_. None)) (stmt # stmts) f =
    applyMigrations (exec_migration (\<lambda>_. None)) stmts
      (if c \<in> set cols then f else f\<lparr>fl_runs := Some (cols @ [c], map (\<lambda>r. r @ [Null]) rows)\<rparr>)"
  using assms duplicate_ignored [of "c @ '' (1)''"] by (simp add: exec_migration_def add_column_def del: str_contains.simps)

lemma upgrade:
  assumes "fl_runs f = Some (cols, rows)"
  shows "applyMigrations (exec_migration (\<lambda>_. None)) migrations f =
    (None, f\<lparr>fl_runs := Some (upgraded cols, map (\<lambda>r. r @ replicate (length (upgraded cols) - length cols) Null) rows)\<rparr>)"
  unfolding migrations_def migration_step [OF split_migrations(1) assms]
  by (subst migration_step [OF split_migrations(2), of _ "if ''dispatched_at'' \<in> set cols then cols else cols @ [''dispatched_at'']"
        "if ''dispatched_at'' \<in> set cols then rows else map (\<lambda>r. r @ [Null]) rows"])
    (use assms in \<open>auto simp: upgraded_def numeral_2_eq_2\<close>)

lemma contents_upgraded:
  assumes "upgradable cols" and "fl_runs f = Some (cols, map (\<lambda>r. map (run_value r) cols) rs)"
  shows "contents (f\<lparr>fl_runs := Some (upgraded cols, map (\<lambda>r. r @ replicate (length (upgraded cols) - length cols) Null)
      (map (\<lambda>r. map (run_value r) cols) rs))\<rparr>) = Some ((fl_rest f)\<lparr>db_runs := map (keep cols) rs\<rparr>)"
proof -
  obtain new where new: "upgraded cols = cols @ new" by (simp add: upgraded_def)
  have "set run_table_columns \<subseteq> set (upgraded cols)" using assms(1) by (auto simp: upgraded_def upgradable_def run_table_columns_def)
  moreover have "those (map (\<lambda>r. Some (keep cols r)) rs) = Some (map (keep cols) rs)" by (induction rs) simp_all
  ultimately show ?thesis by (simp add: contents_def new scanRun_upgraded [OF assms(1)] comp_def)
qed

lemma schema_upgradable:
  "upgradable cols \<Longrightarrow> fl_runs f = Some (cols, rows) \<Longrightarrow> exec_schema None f = (None, f)"
  by (simp add: exec_schema_def create_runs_def upgradable_def)

lemma Open_upgrading:
  assumes "upgradable cols" and "fl_runs f = Some (cols, rows)"
  shows "Open None None (\<lambda>_. None) path f = (Inr \<lparr>st_path = path, st_MaxOpenConns = 1\<rparr>,
    f\<lparr>fl_runs := Some (upgraded cols, map (\<lambda>r. r @ replicate (length (upgraded cols) - length cols) Null) rows)\<rparr>, True)"
  using schema_upgradable [OF assms] upgrade [OF assms(2)] by (simp add: Open_def)

lemma upgraded_twice [simp]: "upgraded (upgraded cols) = upgraded cols"
  by (auto simp: upgraded_def)

lemma upgradable_upgraded: "upgradable cols \<Longrightarrow> upgradable (upgraded cols)"
  by (auto simp: upgradable_def upgraded_def)

text \<open>Opening never loses a row, whatever fails, and leaves the connection open exactly when it succeeds.\<close>

lemma Open_extends: "Open flto flts fltm path f = (r, f', conn) \<Longrightarrow> extends f f' \<and> (conn \<longleftrightarrow> \<not> isl r)"
  by (auto simp: Open_def split: option.splits prod.splits
      dest!: exec_schema_extends applyMigrations_extends intro: extends_trans)

lemma keep_ok: "db_ok (d\<lparr>db_runs := rs\<rparr>) \<Longrightarrow> db_ok (d\<lparr>db_runs := map (keep cols) rs\<rparr>)"
proof -
  have "rw_ID \<circ> keep cols = rw_ID" by (auto simp: keep_def)
  moreover from this have "rw_ID ` keep cols ` set rs = rw_ID ` set rs" by (metis image_comp)
  ultimately show "db_ok (d\<lparr>db_runs := rs\<rparr>) \<Longrightarrow> db_ok (d\<lparr>db_runs := map (keep cols) rs\<rparr>)" by (simp add: db_ok_def runs_ok_def)
qed

text \<open>C28: A database of any earlier version is opened, with every run in it as it was stored, without a user or a
  time of dispatch where that version knew none, and with its constraints; opening it again changes
  nothing. An opening that fails closes the connection, and no row is lost then either.\<close>

theorem Open_upgrades:
  assumes "fl_runs f = Some (cols, map (\<lambda>r. map (run_value r) cols) rs)" and "upgradable cols"
    and "db_ok ((fl_rest f)\<lparr>db_runs := rs\<rparr>)"
  shows "(\<exists>st f' d. Open None None (\<lambda>_. None) path f = (Inr st, f', True)
        \<and> contents f' = Some d \<and> d = (fl_rest f)\<lparr>db_runs := map (keep cols) rs\<rparr> \<and> db_ok d
        \<and> Open None None (\<lambda>_. None) path f' = (Inr st, f', True))
    \<and> (\<forall>flto flts fltm r g conn. Open flto flts fltm path f = (r, g, conn) \<longrightarrow> (conn \<longleftrightarrow> \<not> isl r) \<and>
        (\<exists>new. fl_runs g = Some (cols @ new, map (\<lambda>r. r @ replicate (length new) Null) (map (\<lambda>r. map (run_value r) cols) rs))))"
proof
  let ?rows = "map (\<lambda>r. map (run_value r) cols) rs"
  let ?f = "f\<lparr>fl_runs := Some (upgraded cols, map (\<lambda>r. r @ replicate (length (upgraded cols) - length cols) Null) ?rows)\<rparr>"
  have "Open None None (\<lambda>_. None) path ?f = (Inr \<lparr>st_path = path, st_MaxOpenConns = 1\<rparr>, ?f, True)"
    using Open_upgrading [OF upgradable_upgraded [OF assms(2)], of ?f] by simp
  then show "\<exists>st f' d. Open None None (\<lambda>_. None) path f = (Inr st, f', True)
      \<and> contents f' = Some d \<and> d = (fl_rest f)\<lparr>db_runs := map (keep cols) rs\<rparr> \<and> db_ok d
      \<and> Open None None (\<lambda>_. None) path f' = (Inr st, f', True)"
    using Open_upgrading [OF assms(2,1)] contents_upgraded [OF assms(2,1)] keep_ok [OF assms(3)] by blast
  show "\<forall>flto flts fltm r g conn. Open flto flts fltm path f = (r, g, conn) \<longrightarrow> (conn \<longleftrightarrow> \<not> isl r) \<and>
      (\<exists>new. fl_runs g = Some (cols @ new, map (\<lambda>r. r @ replicate (length new) Null) ?rows))"
    using Open_extends by (fastforce simp: extends_def assms(1))
qed

text \<open>A new file is given the schema.\<close>

lemma Open_fresh:
  assumes "fl_runs f = None"
  shows "\<exists>st f'. Open None None (\<lambda>_. None) path f = (Inr st, f', True) \<and> contents f' = Some ((fl_rest f)\<lparr>db_runs := []\<rparr>)"
proof -
  let ?f = "f\<lparr>fl_runs := Some (run_table_columns, [])\<rparr>"
  have u: "upgradable run_table_columns" by (simp add: upgradable_def run_table_columns_def)
  have "exec_schema None f = (None, ?f)"
    using assms by (simp add: exec_schema_def create_runs_def run_table_columns_def)
  then have "Open None None (\<lambda>_. None) path f = Open None None (\<lambda>_. None) path ?f"
    using schema_upgradable [OF u, of ?f] by (simp add: Open_def)
  with Open_upgrading [OF u, of ?f "[]"] contents_upgraded [OF u, of ?f "[]"] show ?thesis by simp
qed

text \<open>A file of the first version, with one run.\<close>

definition first_columns :: "string list" where
  "first_columns = filter (\<lambda>c. c \<notin> {''started_by'', ''dispatched_at''}) run_table_columns"

definition old_run :: run_row where
  "old_run = zero_run\<lparr>rw_ID := ''run-1'', rw_Status := ''COMPLETED'', rw_Workers := 2\<rparr>"

definition old_file :: db_file where
  "old_file = \<lparr>fl_runs = Some (first_columns, map (\<lambda>r. map (run_value r) first_columns) [old_run]), fl_rest = empty_db\<rparr>"

theorem Open_upgrades_witness:
  "\<exists>st f' d. Open None None (\<lambda>_. None) ''runs.db'' old_file = (Inr st, f', True) \<and> contents f' = Some d
     \<and> map rw_ID (db_runs d) = [''run-1''] \<and> contents old_file = None"
proof -
  have "upgradable first_columns" by (simp add: upgradable_def first_columns_def run_table_columns_def)
  moreover have "fl_runs old_file = Some (first_columns, map (\<lambda>r. map (run_value r) first_columns) [old_run])"
    and "fl_rest old_file = empty_db" by (simp_all add: old_file_def)
  moreover have "db_ok (empty_db\<lparr>db_runs := [old_run]\<rparr>)"
    by (simp add: db_ok_def runs_ok_def users_ok_def plans_ok_def empty_db_def)
  moreover have "contents old_file = None"
    by (simp add: contents_def old_file_def first_columns_def run_table_columns_def)
  ultimately show ?thesis
    using Open_upgrades [of old_file first_columns "[old_run]" "''runs.db''"] by (auto simp: keep_def old_run_def)
qed

end
