(* ===== verification/Api_Process.thy ===== *)
theory Api_Process
  imports Api_Main Process_Setup Store_Open
begin

text \<open>
  The process of the API server, \<open>main\<close> of \<open>cmd/api/main.go\<close>, around the start of \<open>Api_Main\<close>: what can fail
  before it, the listener, and the end. \<open>http.Server.Shutdown\<close> closes the listener and waits for the
  requests under way, without ending the event streams among them; what they do is the subject of
  \<open>Api_Handlers\<close> and of \<open>Run_Queue\<close>, here they are counted.
\<close>

section \<open>Start\<close>

record api_process =
  ap_server :: api_server
  ap_addr :: string
  ap_tls :: bool
  ap_ReadHeaderTimeout :: duration
  ap_deferred :: "cleanup list"

datatype api_start = ApiEnded ending | ApiServing api_process

fun startup_text :: "startup_error \<Rightarrow> string" where
  "startup_text (BadConfig e) = ''Failed to load config: '' @ e"
| "startup_text (BadDatabase e) = ''failed to open database''"
| "startup_text (UserNotCreated e) = ''could not create user''"
| "startup_text (NoAccount e) =
     ''authentication is enabled but no account exists. Create one with --create-user, or set api.bootstrap_user and api.bootstrap_password''"

text \<open>\<open>dial\<close> and \<open>embedded\<close> are what \<open>grpc.NewClient\<close> and \<open>web.Dist\<close> return, \<open>opened\<close> the contents of the database that
  \<open>store.Open\<close> has opened. The last call that was deferred comes first.\<close>

definition api_process_main ::
  "idkey \<Rightarrow> fault \<Rightarrow> fault \<Rightarrow> fault \<Rightarrow> string + nat list \<Rightarrow> int64 \<Rightarrow> string + config \<Rightarrow> (logger \<Rightarrow> string option) \<Rightarrow> string option
     \<Rightarrow> string + (string \<Rightarrow> stat_result) option \<Rightarrow> string + db \<Rightarrow> string \<Rightarrow> string \<Rightarrow> string + string \<Rightarrow> api_start" where
  "api_process_main idkey flt flt' fltq rand now loaded build dial embedded opened createUser envPassword line =
     (case loaded of
        Inl e \<Rightarrow> ApiEnded (ExitedOne (startup_text (BadConfig e)))
      | Inr cfg \<Rightarrow>
          (case logger_Init build (gc_Level (cf_Logging cfg)) (gc_Development (cf_Logging cfg)) None of
             (Some e, _) \<Rightarrow> ApiEnded (ExitedOne (''Failed to initialize logger: '' @ e))
           | (None, _) \<Rightarrow>
               (case dial of
                  Some e \<Rightarrow> ApiEnded (ExitedOne ''failed to create orchestrator client'')
                | None \<Rightarrow>
                    (case embedded of
                       Inl e \<Rightarrow> ApiEnded (ExitedOne ''failed to open embedded frontend'')
                     | Inr ui \<Rightarrow>
                         (let deferred = [CloseStore, CloseConnection (ac_OrchestratorURL (cf_API cfg)), SyncLogger] in
                          case api_main idkey flt flt' fltq rand now loaded opened ui createUser envPassword line of
                            Inl e \<Rightarrow> ApiEnded (ExitedOne (startup_text e))
                          | Inr (UserCreated d) \<Rightarrow> ApiEnded (Returned deferred)
                          | Inr (Serving s) \<Rightarrow> ApiServing
                              \<lparr>ap_server = s, ap_addr = ac_Address (cf_API cfg) @ '':'' @ int_string (ac_Port (cf_API cfg)),
                               ap_tls = useTLS cfg, ap_ReadHeaderTimeout = 10 * second, ap_deferred = StopQueue # deferred\<rparr>)))))"

section \<open>Life and end\<close>

text \<open>\<open>main\<close> waits for a signal, then in \<open>Shutdown\<close> for at most ten seconds, then runs what it has deferred and
  exits. \<open>Stopping err\<close> carries what \<open>Shutdown\<close> returned, which is only logged.\<close>

datatype api_pc =
    Waiting_signal
  | Shutting_down duration
  | Stopping "string option" "cleanup list"
  | Process_gone int

record api_life =
  al_requests :: nat
  al_streams :: nat
  al_pc :: api_pc
  al_ran :: "cleanup list"

definition api_born :: api_life where
  "api_born = \<lparr>al_requests = 0, al_streams = 0, al_pc = Waiting_signal, al_ran = []\<rparr>"

text \<open>A request is a stream from the moment \<open>handleStreamRun\<close> has sent its headers.\<close>

inductive ap_step :: "api_process \<Rightarrow> api_life \<Rightarrow> api_life \<Rightarrow> bool" for p where
  accept: "al_pc s = Waiting_signal \<Longrightarrow> ap_step p s (s\<lparr>al_requests := Suc (al_requests s)\<rparr>)"
| answer: "\<forall>c. al_pc s \<noteq> Process_gone c \<Longrightarrow> 0 < al_requests s \<Longrightarrow> ap_step p s (s\<lparr>al_requests := al_requests s - 1\<rparr>)"
| stream: "\<forall>c. al_pc s \<noteq> Process_gone c \<Longrightarrow> 0 < al_requests s \<Longrightarrow>
    ap_step p s (s\<lparr>al_requests := al_requests s - 1, al_streams := Suc (al_streams s)\<rparr>)"
| stream_ends: "\<forall>c. al_pc s \<noteq> Process_gone c \<Longrightarrow> 0 < al_streams s \<Longrightarrow> ap_step p s (s\<lparr>al_streams := al_streams s - 1\<rparr>)"
| serve_fails: "al_pc s = Waiting_signal \<Longrightarrow> ap_step p s (s\<lparr>al_pc := Process_gone 1\<rparr>)"
| signal: "al_pc s = Waiting_signal \<Longrightarrow> ap_step p s (s\<lparr>al_pc := Shutting_down 0\<rparr>)"
| time_passes: "al_pc s = Shutting_down t \<Longrightarrow> 0 < d \<Longrightarrow> t + d \<le> 10 * second \<Longrightarrow> ap_step p s (s\<lparr>al_pc := Shutting_down (t + d)\<rparr>)"
| all_idle: "al_pc s = Shutting_down t \<Longrightarrow> al_requests s = 0 \<Longrightarrow> al_streams s = 0 \<Longrightarrow>
    ap_step p s (s\<lparr>al_pc := Stopping None (StopTimer # ap_deferred p)\<rparr>)"
| deadline: "al_pc s = Shutting_down (10 * second) \<Longrightarrow>
    ap_step p s (s\<lparr>al_pc := Stopping (Some ''context deadline exceeded'') (StopTimer # ap_deferred p)\<rparr>)"
| cleanup: "al_pc s = Stopping err (c # cs) \<Longrightarrow> ap_step p s (s\<lparr>al_pc := Stopping err cs, al_ran := al_ran s @ [c]\<rparr>)"
| exit: "al_pc s = Stopping err [] \<Longrightarrow> ap_step p s (s\<lparr>al_pc := Process_gone 0\<rparr>)"

inductive_cases ap_stepE: "ap_step p s s'"

abbreviation ap_steps :: "api_process \<Rightarrow> api_life \<Rightarrow> api_life \<Rightarrow> bool" where
  "ap_steps p \<equiv> (ap_step p)\<^sup>*\<^sup>*"

definition ap_inv :: "api_process \<Rightarrow> api_life \<Rightarrow> bool" where
  "ap_inv p s \<longleftrightarrow>
     (case al_pc s of
        Waiting_signal \<Rightarrow> al_ran s = []
      | Shutting_down t \<Rightarrow> al_ran s = [] \<and> 0 \<le> t \<and> t \<le> 10 * second
      | Stopping err cs \<Rightarrow> al_ran s @ cs = StopTimer # ap_deferred p
      | Process_gone c \<Rightarrow> c = 0 \<and> al_ran s = StopTimer # ap_deferred p \<or> c = 1 \<and> al_ran s = [])"

lemma ap_inv_step: "ap_step p s s' \<Longrightarrow> ap_inv p s \<Longrightarrow> ap_inv p s'"
  by (induction rule: ap_step.induct) (auto simp: ap_inv_def second_def split: api_pc.splits)

lemma ap_inv_reach: "ap_steps p api_born s \<Longrightarrow> ap_inv p s"
  by (induction rule: rtranclp_induct) (auto simp: ap_inv_step, simp add: ap_inv_def api_born_def)

lemma cleanups_run:
  "al_pc s = Stopping err cs \<Longrightarrow> \<exists>s'. ap_steps p s s' \<and> al_pc s' = Process_gone 0 \<and> al_streams s' = al_streams s"
proof (induction cs arbitrary: s)
  case Nil
  then show ?case using ap_step.exit [OF Nil] by (intro exI [of _ "s\<lparr>al_pc := Process_gone 0\<rparr>"]) auto
next
  case (Cons c cs)
  let ?s = "s\<lparr>al_pc := Stopping err cs, al_ran := al_ran s @ [c]\<rparr>"
  obtain s' where "ap_steps p ?s s'" "al_pc s' = Process_gone 0" "al_streams s' = al_streams s" using Cons.IH [of ?s] by auto
  moreover have "ap_step p s ?s" using Cons.prems by (rule ap_step.cleanup)
  ultimately show ?case by (meson converse_rtranclp_into_rtranclp)
qed

lemma shutdown_times_out:
  assumes "al_pc s = Shutting_down t" and "t \<le> 10 * second"
  shows "\<exists>s'. ap_steps p s s' \<and> al_pc s' = Process_gone 0 \<and> al_streams s' = al_streams s"
proof -
  let ?s = "s\<lparr>al_pc := Shutting_down (10 * second)\<rparr>"
  let ?s' = "?s\<lparr>al_pc := Stopping (Some ''context deadline exceeded'') (StopTimer # ap_deferred p)\<rparr>"
  have "ap_steps p s ?s"
  proof (cases "t = 10 * second")
    case True
    with assms(1) have "?s = s" by simp
    then show ?thesis by simp
  next
    case False
    with ap_step.time_passes [OF assms(1), of "10 * second - t" p] assms(2) show ?thesis by auto
  qed
  moreover have "ap_step p ?s ?s'" by (rule ap_step.deadline) simp
  moreover obtain s' where "ap_steps p ?s' s'" "al_pc s' = Process_gone 0" "al_streams s' = al_streams s"
    using cleanups_run [of ?s'] by auto
  ultimately show ?thesis by (meson converse_rtranclp_into_rtranclp rtranclp_trans)
qed


text \<open>One dashboard is open when the signal comes.\<close>

definition demo_api :: api_process where
  "demo_api = \<lparr>ap_server = New (build_config std_casts (lookup [] [])) None empty_db, ap_addr = ''0.0.0.0:8080'', ap_tls = False,
     ap_ReadHeaderTimeout = 10 * second, ap_deferred = [StopQueue, CloseStore, CloseConnection ''localhost:50051'', SyncLogger]\<rparr>"


text \<open>How the start leads there.\<close>

lemma api_process_starts:
  "api_process_main idkey flt flt' fltq rand now loaded build dial embedded opened createUser envPassword line = ApiServing p \<Longrightarrow>
     \<exists>cfg ui. loaded = Inr cfg \<and> embedded = Inr ui
       \<and> api_main idkey flt flt' fltq rand now loaded opened ui createUser envPassword line = Inr (Serving (ap_server p))
       \<and> (ap_tls p \<longleftrightarrow> useTLS cfg)
       \<and> ap_deferred p = [StopQueue, CloseStore, CloseConnection (ac_OrchestratorURL (cf_API cfg)), SyncLogger]"
  by (auto simp: api_process_main_def Let_def split: sum.splits option.splits prod.splits started.splits)

lemma api_process_ends:
  "api_process_main idkey flt flt' fltq rand now loaded build dial embedded opened createUser envPassword line = ApiEnded r \<Longrightarrow>
     (exit_code r = 0 \<longrightarrow> createUser \<noteq> '''' \<and> (\<exists>cfg d. loaded = Inr cfg \<and> opened = Inr d)) \<and> (exit_code r \<noteq> 0 \<longrightarrow> exit_code r = 1 \<and> cleanups r = [])"
  by (auto simp: api_process_main_def api_main_def Let_def split: sum.splits option.splits prod.splits started.splits if_splits)

end
