(* ===== verification/Restart.thy ===== *)
theory Restart
  imports Api_Process
begin

text \<open>
  The API process is started again over the database a previous one left, of this or an earlier version:
  \<open>Open\<close>, the start of the server and the reconciliation of the queue, together.
\<close>

definition restarted :: "int64 \<Rightarrow> run_row \<Rightarrow> run_row" where
  "restarted now r = (if rw_Status r = ''RUNNING'' then r\<lparr>rw_Status := ''FAILED'', rw_FinishedAt := Some now\<rparr> else r)"

lemma sort_key_map_commute: "sort_key f (map g xs) = map g (sort_key (f \<circ> g) xs)"
proof -
  have ins: "insort_key f (g x) (map g ys) = map g (insort_key (f \<circ> g) x ys)" for x ys by (induction ys) auto
  show ?thesis by (induction xs) (simp_all only: list.map sort_key_simps ins)
qed

lemma keep_sel [simp]:
  "rw_ID (keep cols r) = rw_ID r" "rw_Status (keep cols r) = rw_Status r" "rw_StartedAt (keep cols r) = rw_StartedAt r"
  by (simp_all add: keep_def)

lemma queue_kept:
  "map rw_ID (queued_runs (d\<lparr>db_runs := map (restarted now \<circ> keep cols) rs\<rparr>)) = map rw_ID (queued_runs (d\<lparr>db_runs := rs\<rparr>))"
proof -
  have "filter (\<lambda>r. rw_Status r = ''QUEUED'') (map (restarted now \<circ> keep cols) rs) = map (keep cols) (filter (\<lambda>r. rw_Status r = ''QUEUED'') rs)"
    by (induction rs) (auto simp: restarted_def)
  moreover have "rw_StartedAt \<circ> keep cols = rw_StartedAt" "rw_ID \<circ> keep cols = rw_ID" by auto
  ultimately show ?thesis by (simp add: queued_runs_def sort_key_map_commute)
qed

lemma BootstrapUser_effect:
  "BootstrapUser idkey flt flt' rand now n p d = (r, d') \<Longrightarrow> db_ok d \<Longrightarrow>
     db_ok d' \<and> db_runs d' = db_runs d \<and> db_samples d' = db_samples d \<and> db_plans d' = db_plans d"
proof -
  assume b: "BootstrapUser idkey flt flt' rand now n p d = (r, d')" and ok: "db_ok d"
  then have "d' = d \<or> (\<exists>h r'. CreateUser flt' now n h d = (r', d'))"
    by (auto simp: BootstrapUser_def split: sum.splits if_splits prod.splits)
  moreover have "db_runs d' = db_runs d \<and> db_samples d' = db_samples d \<and> db_plans d' = db_plans d"
    using b by (auto simp: BootstrapUser_def CreateUser_def Let_def split: sum.splits option.splits if_splits prod.splits)
  ultimately show ?thesis using db_step_ok [OF db_step.create_user] ok by blast
qed

lemma server_Start_runs:
  "db_ok (sv_db s) \<Longrightarrow> db_ok (sv_db (server_Start None now s))
     \<and> sv_db (server_Start None now s) = (sv_db s)\<lparr>db_runs := map (restarted now) (db_runs (sv_db s))\<rparr>"
proof -
  assume ok: "db_ok (sv_db s)"
  have "sv_db (server_Start None now s) = snd (FailInterruptedRuns None now (sv_db s))"
    by (simp add: server_Start_def queue_Start_def NewQueue_def)
  moreover have "\<dots> = (sv_db s)\<lparr>db_runs := map (restarted now) (db_runs (sv_db s))\<rparr>"
    by (simp add: FailInterruptedRuns_def update_where_def restarted_def)
  ultimately show ?thesis using db_step_ok [OF db_step.fail_interrupted [OF surjective_pairing] ok] by metis
qed

lemma api_main_serving:
  assumes "api_main idkey flt flt' fltq rand now (Inr cfg) (Inr d) ui createUser envPassword line = Inr (Serving s)"
  shows "\<exists>d'. s = server_Start fltq now (New cfg ui d') \<and> (d' = d \<or> (\<exists>n q r. BootstrapUser idkey flt flt' rand now n q d = (r, d')))"
proof -
  obtain r d1 where b: "BootstrapUser idkey flt flt' rand now (ac_BootstrapUser (cf_API cfg)) (ac_BootstrapPassword (cf_API cfg)) d = (r, d1)"
    by fastforce
  with assms have "s = server_Start fltq now (New cfg ui d1) \<or> s = server_Start fltq now (New cfg ui d)"
    by (auto simp: api_main_def split: sum.splits prod.splits if_splits)
  with b show ?thesis by blast
qed

text \<open>C20: What a previous process left is taken up: after the start every run is in the database as it was stored,
  those that were running have failed, and the queue holds the same runs in the same order. Samples and
  plans are untouched, the constraints hold, and no run is in flight.\<close>

theorem restart_recovers:
  assumes "fl_runs f = Some (cols, map (\<lambda>r. map (run_value r) cols) rs)" and "upgradable cols"
    and "db_ok ((fl_rest f)\<lparr>db_runs := rs\<rparr>)"
    and "Open None None (\<lambda>_. None) path f = (Inr st, f', True)" and "contents f' = Some d"
    and "api_process_main idkey flt flt' None rand now loaded build dial embedded (Inr d) createUser envPassword line = ApiServing p"
  shows "db_runs (sv_db (ap_server p)) = map (restarted now \<circ> keep cols) rs
    \<and> map rw_ID (queued_runs (sv_db (ap_server p))) = map rw_ID (queued_runs ((fl_rest f)\<lparr>db_runs := rs\<rparr>))
    \<and> db_samples (sv_db (ap_server p)) = db_samples (fl_rest f) \<and> db_plans (sv_db (ap_server p)) = db_plans (fl_rest f)
    \<and> db_ok (sv_db (ap_server p)) \<and> sv_current (ap_server p) = ''''"
proof -
  have d: "d = (fl_rest f)\<lparr>db_runs := map (keep cols) rs\<rparr>"
    using Open_upgrading [OF assms(2,1), of path] contents_upgraded [OF assms(2,1)] assms(4,5) by simp
  have ok: "db_ok d" unfolding d by (rule keep_ok [OF assms(3)])
  obtain cfg ui where "api_main idkey flt flt' None rand now (Inr cfg) (Inr d) ui createUser envPassword line = Inr (Serving (ap_server p))"
    using api_process_starts [OF assms(6)] by blast
  then obtain d' where s: "ap_server p = server_Start None now (New cfg ui d')"
    and "d' = d \<or> (\<exists>n q r. BootstrapUser idkey flt flt' rand now n q d = (r, d'))"
    using api_main_serving by blast
  then have d': "db_ok d' \<and> db_runs d' = db_runs d \<and> db_samples d' = db_samples d \<and> db_plans d' = db_plans d"
    using BootstrapUser_effect ok by blast
  have n: "sv_db (New cfg ui d') = d'" by (simp add: New_def)
  from server_Start_runs [of "New cfg ui d'" now] d'
  have r: "db_ok (sv_db (ap_server p))" "sv_db (ap_server p) = d'\<lparr>db_runs := map (restarted now) (db_runs d')\<rparr>"
    unfolding s n by auto
  have runs: "db_runs (sv_db (ap_server p)) = map (restarted now \<circ> keep cols) rs" using d' by (simp add: r(2) d)
  have "queued_runs (sv_db (ap_server p)) = queued_runs ((fl_rest f)\<lparr>db_runs := map (restarted now \<circ> keep cols) rs\<rparr>)"
    by (simp add: queued_runs_def runs)
  with runs r d' show ?thesis by (simp add: queue_kept d) (simp add: s)
qed

text \<open>A process of the first version was killed in a run, with another one queued.\<close>

definition killed_file :: db_file where
  "killed_file = \<lparr>fl_runs = Some (first_columns, map (\<lambda>r. map (run_value r) first_columns)
     [old_run\<lparr>rw_Status := ''RUNNING''\<rparr>, old_run\<lparr>rw_ID := ''run-2'', rw_Status := ''QUEUED''\<rparr>]), fl_rest = ann_db\<rparr>"

theorem restart_recovers_witness:
  "\<exists>st f' d p. Open None None (\<lambda>_. None) ''runs.db'' killed_file = (Inr st, f', True) \<and> contents f' = Some d
     \<and> api_process_main toy_idkey None None None (Inr [4]) 0 (Inr (build_config std_casts (lookup [] []))) (\<lambda>_. None) None (Inr None)
          (Inr d) '''' '''' (Inl '''') = ApiServing p
     \<and> map rw_Status (db_runs (sv_db (ap_server p))) = [''FAILED'', ''QUEUED'']"
proof -
  let ?cfg = "build_config std_casts (lookup [] [])"
  let ?rs = "[old_run\<lparr>rw_Status := ''RUNNING''\<rparr>, old_run\<lparr>rw_ID := ''run-2'', rw_Status := ''QUEUED''\<rparr>]"
  have u: "upgradable first_columns" by (simp add: upgradable_def first_columns_def run_table_columns_def)
  have k: "fl_runs killed_file = Some (first_columns, map (\<lambda>r. map (run_value r) first_columns) ?rs)" "fl_rest killed_file = ann_db"
    by (simp_all add: killed_file_def)
  have ok: "db_ok ((fl_rest killed_file)\<lparr>db_runs := ?rs\<rparr>)"
    by (simp add: k db_ok_def runs_ok_def users_ok_def plans_ok_def ann_db_def empty_db_def old_run_def zero_run_def)
  obtain st f' d where o: "Open None None (\<lambda>_. None) ''runs.db'' killed_file = (Inr st, f', True)" "contents f' = Some d"
    and d: "d = ann_db\<lparr>db_runs := map (keep first_columns) ?rs\<rparr>"
    using Open_upgrading [OF u k(1)] contents_upgraded [OF u k(1)] k(2) by auto
  have "ac_AuthEnabled (cf_API ?cfg)" by (simp add: build_config_def lookup_def defaults_def std_casts_def)
  then obtain p where p: "api_process_main toy_idkey None None None (Inr [4]) 0 (Inr ?cfg) (\<lambda>_. None) None (Inr None)
      (Inr d) '''' '''' (Inl '''') = ApiServing p"
    by (simp add: api_process_main_def api_main_def logger_Init_def BootstrapUser_def CountUsers_def d ann_db_def)
  have "map rw_Status (db_runs (sv_db (ap_server p))) = [''FAILED'', ''QUEUED'']"
    using restart_recovers [OF k(1) u ok o p] by (simp add: restarted_def)
  with o p show ?thesis by (intro exI [of _ st] exI [of _ f'] exI [of _ d] exI [of _ p]) simp
qed

end
