(* ===== verification/Cli_Main.thy ===== *)
theory Cli_Main
  imports Cli Process_Setup
begin

text \<open>
  The command line program as a whole, \<open>main\<close> of \<open>cmd/cli/main.go\<close>: the commands of \<open>Cli\<close> with their arguments,
  and how the process ends. The splitting of the command line into a command, its arguments and the flag
  is \<open>cobra\<close>'s and a parameter, as are the files, the orchestrator and the terminal.
\<close>

section \<open>The commands\<close>

datatype command = RunCmd | StatusCmd | NodesCmd | StopCmd

record invocation =
  iv_command :: command
  iv_args :: "string list"
  iv_orchestrator :: string

datatype main_error =
    UsageError string
  | LoggerFailed string
  | CommandFailed cli_error
  | TuiFailed string

text \<open>\<open>ExactArgs(1)\<close>; a command without \<open>Args\<close> that is not the root takes any.\<close>

definition check_args :: "invocation \<Rightarrow> string option" where
  "check_args iv =
     (case iv_command iv of
        NodesCmd \<Rightarrow> None
      | _ \<Rightarrow> if length (iv_args iv) = 1 then None
             else Some (''accepts 1 arg(s), received '' @ int_string (int (length (iv_args iv)))))"

text \<open>What the commands meet. The terminal is left when \<open>Run\<close> returns, with an error or without.\<close>

record cli_world =
  wo_config :: "string + config"
  wo_logger :: "logger \<Rightarrow> string option"
  wo_file :: "string \<Rightarrow> plan_error + scenario"
  wo_now :: int64
  wo_distribute :: "string \<Rightarrow> pb_test_plan \<Rightarrow> string + distribute_response"
  wo_status :: "string \<Rightarrow> string \<Rightarrow> string + test_status_response"
  wo_workers :: "string \<Rightarrow> string + worker_info list"
  wo_stop :: "string \<Rightarrow> string \<Rightarrow> string + stop_response"
  wo_terminal :: "tui_model \<Rightarrow> string option"
  wo_fixed2 :: "f64 \<Rightarrow> string"
  wo_time :: "int64 \<Rightarrow> string"

text \<open>The address the commands without a flag dial.\<close>

definition configured_url :: "string + config \<Rightarrow> string" where
  "configured_url loaded = (case loaded of Inl e \<Rightarrow> '''' | Inr cfg \<Rightarrow> lc_OrchestratorURL (cf_CLI cfg))"

text \<open>What is printed, or the error; \<open>None\<close> is a panic.\<close>

definition run_command :: "cli_world \<Rightarrow> invocation \<Rightarrow> (main_error + string list) option" where
  "run_command w iv =
     (let arg = (case iv_args iv of a # _ \<Rightarrow> a | [] \<Rightarrow> ''''); url = configured_url (wo_config w) in
      case iv_command iv of
        RunCmd \<Rightarrow>
          (case wo_config w of
             Inl e \<Rightarrow> Some (Inl (CommandFailed (LoadFailed e)))
           | Inr cfg \<Rightarrow>
               (case logger_Init (wo_logger w) (gc_Level (cf_Logging cfg)) (gc_Development (cf_Logging cfg)) None of
                  (Some e, _) \<Rightarrow> Some (Inl (LoggerFailed e))
                | (None, _) \<Rightarrow>
                    (case runTest (wo_config w) (wo_file w arg) (iv_orchestrator iv) (wo_now w) (wo_distribute w) of
                       Inl e \<Rightarrow> Some (Inl (CommandFailed e))
                     | Inr (_, _, model) \<Rightarrow>
                         (case wo_terminal w model of Some e \<Rightarrow> Some (Inl (TuiFailed e)) | None \<Rightarrow> Some (Inr [])))))
      | StatusCmd \<Rightarrow> map_option (map_sum CommandFailed id) (getStatus (wo_fixed2 w) (wo_config w) arg (wo_status w url arg))
      | NodesCmd \<Rightarrow> Some (map_sum CommandFailed id (listNodes (wo_time w) (wo_config w) (wo_workers w url)))
      | StopCmd \<Rightarrow> Some (map_sum CommandFailed (\<lambda>l. [l]) (stopTest (wo_config w) arg (wo_stop w url arg))))"

text \<open>The printed lines and the exit code; a panic of Go exits with 2.\<close>

definition cli_main :: "cli_world \<Rightarrow> string + invocation \<Rightarrow> (main_error option \<times> string list) \<times> int" where
  "cli_main w parsed =
     (case parsed of
        Inl e \<Rightarrow> ((Some (UsageError e), []), 1)
      | Inr iv \<Rightarrow>
          (case check_args iv of
             Some e \<Rightarrow> ((Some (UsageError e), []), 1)
           | None \<Rightarrow>
               (case run_command w iv of
                  None \<Rightarrow> ((None, []), 2)
                | Some (Inl e) \<Rightarrow> ((Some e, []), 1)
                | Some (Inr out) \<Rightarrow> ((None, out), 0))))"

section \<open>Against the orchestrator\<close>

text \<open>The commands talk to the production server \<open>sv\<close>; \<open>up\<close> says whether its address answers.\<close>

definition served_by ::
  "(rpc_error \<Rightarrow> string) \<Rightarrow> (string \<Rightarrow> bool) \<Rightarrow> string list \<Rightarrow> string list \<Rightarrow> (string \<Rightarrow> string \<Rightarrow> stop_answer) \<Rightarrow> server \<Rightarrow> cli_world \<Rightarrow> cli_world" where
  "served_by msg up ord sord net sv w =
     w\<lparr>wo_status := \<lambda>url t. if up url then map_sum msg id (GetTestStatus ord sord t sv) else Inl ''unavailable'',
       wo_workers := \<lambda>url. if up url then Inr (ListWorkers ord sv) else Inl ''unavailable'',
       wo_stop := \<lambda>url t. if up url then Inr (fst (StopTest ord sord net t sv)) else Inl ''unavailable''\<rparr>"

lemma run_command_total: "run_command (served_by msg up ord sord net sv w) iv \<noteq> None"
proof (cases "iv_command iv")
  case StatusCmd
  have "getStatus f l t (Inl e) \<noteq> None" for f l t e by (simp add: getStatus_def split: sum.split)
  with StatusCmd show ?thesis by (simp add: run_command_def served_by_def Let_def status_command_safe del: not_None_eq)
qed (auto simp: run_command_def Let_def split: sum.splits option.splits prod.splits)

text \<open>Against the production server no command panics, and the exit code is 0 exactly when no error is
  reported, otherwise 1. A stop is not such an error: for a test the server does not know the command says
  that it failed and exits with 0.\<close>

theorem cli_exit_codes:
  fixes msg up ord sord net sv w
  defines "w' \<equiv> served_by msg up ord sord net sv w"
  shows "snd (cli_main w' parsed) = (if fst (fst (cli_main w' parsed)) = None then 0 else 1)
    \<and> (parsed = Inr \<lparr>iv_command = StopCmd, iv_args = [t], iv_orchestrator = f\<rparr> \<and> wo_config w = Inr cfg
        \<and> up (lc_OrchestratorURL (cf_CLI cfg)) \<and> GetActiveTest t (sv_plans sv) = None
        \<longrightarrow> cli_main w' parsed = ((None, [''Failed to stop test: test not found: '' @ t]), 0))
    \<and> (parsed = Inr \<lparr>iv_command = StatusCmd, iv_args = [t], iv_orchestrator = f\<rparr> \<and> wo_config w = Inr cfg
        \<and> GetActiveTest t (sv_plans sv) = None \<longrightarrow> snd (cli_main w' parsed) = 1)"
proof (intro conjI impI)
  have total: "(run_command w' iv = None) = False" for iv
    unfolding w'_def using run_command_total by simp
  show "snd (cli_main w' parsed) = (if fst (fst (cli_main w' parsed)) = None then 0 else 1)"
    by (auto simp: cli_main_def total split: sum.splits option.splits)
  show "cli_main w' parsed = ((None, [''Failed to stop test: test not found: '' @ t]), 0)"
    if "parsed = Inr \<lparr>iv_command = StopCmd, iv_args = [t], iv_orchestrator = f\<rparr> \<and> wo_config w = Inr cfg
        \<and> up (lc_OrchestratorURL (cf_CLI cfg)) \<and> GetActiveTest t (sv_plans sv) = None"
    using that by (simp add: cli_main_def check_args_def run_command_def stopTest_def StopTest_def w'_def served_by_def configured_url_def)
  show "snd (cli_main w' parsed) = 1"
    if "parsed = Inr \<lparr>iv_command = StatusCmd, iv_args = [t], iv_orchestrator = f\<rparr> \<and> wo_config w = Inr cfg
        \<and> GetActiveTest t (sv_plans sv) = None"
    using that by (simp add: cli_main_def check_args_def run_command_def getStatus_def GetTestStatus_def w'_def served_by_def configured_url_def)
qed

end
