(* ===== verification/Spec2Isabelle.thy ===== *)
theory Spec2Isabelle
  imports Test_Lifecycle Worker_Engine Goroutine_Pool Run_Queue Allowlist Auth Api_Handlers Api_Main
    Cli Orchestrator_Service Span_Exporter Submission Http_Client Process_Setup Orchestrator_Main Worker_Process
    Store_Open Api_Process Restart Cli_Main
begin

text \<open>
  A verification development for go_sentinel, a distributed load tester written in Go. A plan is
  submitted to an HTTP API or by a command line client; the orchestrator splits it over registered
  workers; each worker runs virtual users through the plan's stages and reports metrics every second;
  the orchestrator aggregates the reports; the API records them in SQLite and streams them to
  dashboards. The definitions below are translations of the sources under \<open>src/\<close>; this theory only
  collects them. A theorem whose text begins with a number is a property of the
  development; the others are the library it rests on.
\<close>

section \<open>The parts of the program and their theories\<close>

text \<open>
  Shared ground.
  \<^item> \<open>GS_Prelude\<close>: \<open>int32\<close> and \<open>int64\<close> are integers, every operation that can leave their range is wrapped
    with \<open>i32\<close> or \<open>i64\<close>; a Go map is an association list without double keys, and an iteration takes the
    order of the keys as an argument, so that what is proved holds for every order; facts on both are
    collected in \<open>go_wrap\<close> and \<open>go_map\<close>. \<open>Go_Float64\<close> is IEEE binary64 over the rationals, executable,
    with the sign of zero left out.
  \<^item> \<open>Go_Strings\<close>, \<open>Go_Duration\<close>, \<open>Go_Sha256\<close>, \<open>Go_Base64\<close>, \<open>Go_Url\<close>: what the program uses of \<open>strings\<close>,
    \<open>strconv\<close>, \<open>time.ParseDuration\<close> and \<open>Duration.String\<close>, SHA-256, base64, \<open>url.Parse\<close> and \<open>net.ParseIP\<close>. A
    string is its bytes; case folding and white space are those of ASCII.
  \<^item> \<open>Models\<close> is \<open>pkg/models\<close>; \<open>Proto_Messages\<close> the messages of \<open>proto/\<close> that the program builds and reads.
  \<^item> \<open>Interfaces\<close>: the contracts between components as locales (below).

  The orchestrator (\<open>internal/orchestrator\<close>, \<open>cmd/orchestrator\<close>).
  \<^item> \<open>Hash_Ring\<close> and \<open>Node_Manager\<close>: \<open>node_manager.go\<close>. A lookup is the owner of the next position on the
    circle; adding or removing a node moves only that node's keys; every operation keeps nodes and
    ring well formed.
  \<^item> \<open>Plan_Distributor\<close>: \<open>plan_distributor.go\<close>. The proportional share, its top-up, the split of a stage,
    rebalancing and the completion of a test; sums are exact, shares within capacity, for every order of
    the map and under capacity wrap-around.
  \<^item> \<open>Metrics_Aggregator\<close>: \<open>metrics_aggregator.go\<close>. The aggregate refines the map from workers to their last
    batches.
  \<^item> \<open>Orchestrator_Server\<close>: \<open>server.go\<close>, handler by handler; a nil message that is dereferenced is the value
    \<open>Panic\<close>. \<open>Test_Lifecycle\<close> interleaves the handlers as the lock allows: the step relation \<open>lc_step\<close>.
  \<^item> \<open>Dev_Orchestrator\<close>: the in-memory server of \<open>cmd/orchestrator/main.go\<close>. \<open>Orchestrator_Service\<close>: what the
    clients rely on from either server, and the recorder's behaviour derived from it.
  \<^item> \<open>Orchestrator_Main\<close>: the process, production and development: its start with everything that can fail,
    the health check and how it ends.

  Plans. \<open>Scenario_DSL\<close>: \<open>internal/runtime\<close>'s \<open>scenario.go\<close>, \<open>dsl_parser.go\<close> and \<open>proto.go\<close>: parsing, variable
  substitution, validation, wire format. \<open>Span_Exporter\<close> also holds the registry of \<open>plugin_loader.go\<close>.

  The worker (\<open>internal/worker\<close>, \<open>cmd/worker\<close>).
  \<^item> \<open>Worker_Service\<close>: the conversion of the plan and the service's handlers and registration.
  \<^item> \<open>Worker_Metrics\<close>: \<open>metrics.go\<close> over \<open>tracer/span_aggregator.go\<close>; the counters are those of the history.
  \<^item> \<open>Virtual_User\<close>: \<open>virtual_user.go\<close>, with its loop as a step relation \<open>vu_step\<close>. \<open>Goroutine_Pool\<close>:
    \<open>goroutine_pool.go\<close>.
  \<^item> \<open>Worker_Engine\<close>: \<open>engine.go\<close> and \<open>reporter.go\<close>: runs, stages, stops, the keep-alive and the report loop
    as the step relation \<open>en_step\<close>.
  \<^item> \<open>Http_Client\<close>: \<open>http_client.go\<close>, the redirects and the timeout of an attempt and what they mean for the
    allowlist.
  \<^item> \<open>Worker_Process\<close>: the process around the engine, from its start to a signal and \<open>Shutdown\<close>, as the step
    relation \<open>wp_step\<close>.

  The API (\<open>internal/api\<close>, \<open>internal/store\<close>, \<open>cmd/api\<close>).
  \<^item> \<open>Run_Store\<close>: \<open>store.go\<close> and \<open>schema.go\<close>, statement by statement over lists of rows, each with the
    fault it may meet; the constraints of the schema are an invariant of every sequence of writes.
  \<^item> \<open>Store_Open\<close>: opening a database file of any version: schema, migrations and the reading of runs.
  \<^item> \<open>Recorder\<close>: \<open>recorder.go\<close>; a dashboard's channel is a bounded buffer, sending on a closed one a
    panic. \<open>Run_Queue\<close>: \<open>queue.go\<close>, the dispatcher as a program counter among handlers and recordings,
    \<open>q_step\<close>.
  \<^item> \<open>Allowlist\<close>: \<open>allowlist.go\<close>, together with the requests the worker builds.
  \<^item> \<open>Api_Http\<close>, \<open>Auth\<close>, \<open>Api_Handlers\<close>: \<open>auth.go\<close>, \<open>users.go\<close>, \<open>server.go\<close>, \<open>history.go\<close>, \<open>sse.go\<close>; \<open>serve\<close> is one
    request through the routes and the session check. \<open>Api_Main\<close>: the start of the process; \<open>Api_Process\<close>: what is
    around it, and the end of the process as the step relation \<open>ap_step\<close>. \<open>Config\<close>: \<open>pkg/config\<close>.
    \<open>Process_Setup\<close>: the logger, tracing and deferred calls, which all processes share.
    \<open>Restart\<close>: a new process over the database of an old one.

  The terminal. \<open>Tui\<close>: \<open>internal/tui\<close>, messages, commands and views. \<open>Cli\<close>: the commands of \<open>cmd/cli/main.go\<close>;
  \<open>Cli_Main\<close>: their arguments and the exit code.
\<close>

section \<open>Contracts\<close>

text \<open>
  \<^item> \<open>node_registry\<close>, what the distributor relies on from the node manager, interpreted in \<open>Node_Manager\<close>.
  \<^item> \<open>session_store\<close>, how sessions end, interpreted on the store in \<open>Run_Store\<close> and used for sign-out and the
    deletion of users in \<open>Auth\<close>.
  \<^item> \<open>run_table\<close>, what the queue relies on from the table of runs, interpreted in \<open>Run_Store\<close>.
  \<^item> \<open>orchestrator_service\<close> and its extension \<open>stopping_service\<close>, what clients rely on from the gRPC service,
    interpreted on the production and the development server in \<open>Orchestrator_Service\<close>.
\<close>

section \<open>How the parts are put together\<close>

text \<open>
  \<open>Submission\<close> follows a plan through all of it, to the tests the workers start. A plan from the API:
  \<open>handleStartRun\<close> checks it with \<open>FromSpec\<close> and \<open>Check\<close> and stores it; the
  dispatcher of \<open>Run_Queue\<close> sends the same scenario; \<open>DistributeTestPlan\<close> splits it exactly; the worker decodes what was checked; \<open>Worker_Engine\<close> runs it and reports; the
  aggregate is that of the last reports; the test completes with the last worker; the
  recorder stores and shows every snapshot and frees the slot of the queue. The remaining
  properties are about one part each, or about who may use it.
\<close>

section \<open>Concurrency, bounds and fuel\<close>

text \<open>
  A step relation has one step per critical section or per call to another part; between two steps
  every other goroutine may move. No definition uses fuel: recursion is structural or has a measure,
  and loops that run as long as the process does are step relations or functions of the list of what
  they receive. Hypotheses that bound a value (\<open>in32\<close>, \<open>in64\<close>, counts below \<open>2 ^ 53\<close> where a float64 holds
  them) are stated in the theorems; without them the wrapped definitions still apply.
\<close>

section \<open>Parameters\<close>

text \<open>
  Code that is not in the repository is an argument of the definitions: the etcd client, connections and
  their failures, the YAML and JSON decoders and encoders, the HDR histogram, argon2 and random bytes, the
  conversions of viper, the layout of lipgloss, formatting of floats and local times, map orders, clocks,
  the fault of each statement of the database, the network as the HTTP client sees it, and what the environment
  answers while a process starts. Where a theorem needs something of them it says so:
  that argon2 returns as many bytes as asked for, that the JSON of a stored plan decodes to the plan, that
  JSON has no line feed in it, that viper converts texts as documented.
\<close>

section \<open>Not modelled\<close>

text \<open>
  \<^item> Generated code (\<open>*.pb.go\<close>, \<open>*_grpc.pb.go\<close>) beyond the message structs: serialisation and transport.
  \<^item> Listeners and their sockets, the Prometheus endpoints, the parsing of command lines: calls of a library
    whose failure is an argument where the code handles it.
  \<^item> \<open>internal/tui/styles.go\<close>, \<open>web/\<close>: colours and an embedded file system. \<open>Close\<close> of the HTTP client is a flag, \<open>With\<close>
    of the logger is the library's.
  \<^item> The Prometheus counters of the worker and the log.
  \<^item> Data races: a step of the model is what the source protects with a lock, or meant to; where it does
    not (\<open>tests\<close> of the development orchestrator) the model describes calls that do not overlap.
\<close>

end
